(* ===== verification/Prelude.thy ===== *)
theory Prelude
  imports Main "HOL-Library.Word"
begin

text \<open>
  Shared material: names for the machine types of the C sources, the C conversions between
  integer types, the fixed-size buffer write that \<^verbatim>\<open>memcpy\<close> performs, and the lemmas on lists
  and words the component theories share.

  Unsigned C integers that the program compares, masks or lets wrap are words. Signed C
  integers are \<^typ>\<open>int\<close>; a narrowing conversion to \<open>int16_t\<close> or \<open>int32_t\<close> is written out
  with the wrap-around gcc gives it (\<open>to_i16\<close>, \<open>to_i32\<close>).
\<close>

unbundle bit_operations_syntax

type_synonym u8 = "8 word"
type_synonym u16 = "16 word"
type_synonym u32 = "32 word"
type_synonym u64 = "64 word"

named_theorems bus_defs and bus_simps and fault_simps and wf_intros

definition to_i16 :: "int \<Rightarrow> int" where
  "to_i16 x = (x + 32768) mod 65536 - 32768"

definition to_i32 :: "int \<Rightarrow> int" where
  "to_i32 x = (x + 2147483648) mod 4294967296 - 2147483648"

text \<open>\<open>buf_write off bs buf\<close> is \<^verbatim>\<open>memcpy(buf + off, bs, length bs)\<close> into a caller's buffer.\<close>

definition buf_write :: "nat \<Rightarrow> 'a list \<Rightarrow> 'a list \<Rightarrow> 'a list" where
  "buf_write off bs buf = take off buf @ bs @ drop (off + length bs) buf"

section \<open>Conversions\<close>

lemma to_i16_id: "- 32768 \<le> x \<Longrightarrow> x \<le> 32767 \<Longrightarrow> to_i16 x = x"
  by (simp add: to_i16_def)

lemma to_i16_bounds: "- 32768 \<le> to_i16 x \<and> to_i16 x \<le> 32767"
proof -
  have "0 \<le> (x + 32768) mod 65536" and "(x + 32768) mod 65536 < 65536" by simp_all
  then show ?thesis unfolding to_i16_def by linarith
qed

lemma to_i32_id: "- 2147483648 \<le> x \<Longrightarrow> x \<le> 2147483647 \<Longrightarrow> to_i32 x = x"
  by (simp add: to_i32_def)

lemma to_i32_bounds: "- 2147483648 \<le> to_i32 x \<and> to_i32 x \<le> 2147483647"
proof -
  have "0 \<le> (x + 2147483648) mod 4294967296" and "(x + 2147483648) mod 4294967296 < 4294967296"
    by simp_all
  then show ?thesis unfolding to_i32_def by linarith
qed

section \<open>Buffers\<close>

lemma length_buf_write [simp]:
  "off + length bs \<le> length buf \<Longrightarrow> length (buf_write off bs buf) = length buf"
  by (simp add: buf_write_def)

lemma buf_write_all: "length bs = length buf \<Longrightarrow> buf_write 0 bs buf = bs"
  by (simp add: buf_write_def)

lemma buf_write_append:
  "length xs = off \<Longrightarrow> buf_write off bs (xs @ ys) = xs @ bs @ drop (length bs) ys"
  by (simp add: buf_write_def)

section \<open>Lists and words\<close>

lemma list_ge5: "5 < length xs \<Longrightarrow> \<exists>a b c d e ys. xs = a # b # c # d # e # ys"
  by (cases xs; cases "tl xs"; cases "tl (tl xs)"; cases "tl (tl (tl xs))";
      cases "tl (tl (tl (tl xs)))") auto

lemma sum_list_word_append:
  "sum_list (xs @ ys) = sum_list xs + sum_list (ys :: 'a::len word list)"
  by simp

lemma unat_of_nat_u8: "n < 256 \<Longrightarrow> unat (of_nat n :: u8) = n"
  by (simp add: unat_of_nat take_bit_nat_eq_self)

lemma word_of_nat_unat_id: "of_nat (unat (w :: u8)) = w"
  by simp

lemma unat_2_plus: "n + 2 < 256 \<Longrightarrow> unat (2 + of_nat n :: u8) = n + 2"
  using unat_of_nat_u8 [of "n + 2"] by simp

lemma take_bit_add_left: "take_bit n (take_bit n y + c) = take_bit n (y + c :: int)"
  by (simp add: take_bit_eq_mod mod_add_left_eq)

lemma take_bit_add_right: "take_bit n (y + take_bit n c) = take_bit n (y + c :: int)"
  by (simp add: take_bit_eq_mod mod_add_right_eq)

lemma take_bit_add_wide:
  assumes "n \<le> m"
  shows "take_bit n (take_bit m y + c) = take_bit n (y + c :: int)"
proof -
  have "take_bit n (take_bit m y + c) = take_bit n (take_bit n (take_bit m y) + c)"
    by (rule take_bit_add_left [symmetric])
  also have "\<dots> = take_bit n (y + c)"
    using assms by (simp add: take_bit_add_left)
  finally show ?thesis .
qed

lemma ucast_add_u8: "(ucast (x + ucast b :: u32) :: u8) = ucast x + b"
  by transfer (simp add: take_bit_add_wide take_bit_add_left take_bit_add_right)

lemma ucast_not_and_u8: "(ucast (NOT (s :: u32) AND 0xFF) :: u8) = NOT (ucast s)"
proof -
  have m: "(0xFF :: u32) = mask 8" by (simp add: mask_eq_exp_minus_1)
  show ?thesis unfolding m by (rule bit_word_eqI) (auto simp add: bit_simps)
qed

lemma not_word_eq_iff: "(NOT x = NOT y) = (x = (y :: 'a::len word))"
  by (metis bit.double_compl)

lemma and_single_bit [fault_simps]:
  "(w AND 2 ^ n = 0) = (\<not> bit (w :: 'a::len word) n)"
  by (simp add: and_exp_eq_0_iff_not_bit)

lemma take_drop_map_nth: "a + n \<le> length xs \<Longrightarrow> take n (drop a xs) = map (\<lambda>j. xs ! (a + j)) [0..<n]"
  by (rule nth_equalityI) simp_all

lemma slice_bound: "k < n \<Longrightarrow> k * m + m \<le> n * (m :: nat)"
  by (metis Suc_leI add.commute mult_Suc mult_le_mono1)

lemma all_nth_map_upt: "(\<forall>j<n. P (map f [0..<n] ! j)) = (\<forall>j<n. P (f j))"
  by simp

section \<open>Runs of a step function\<close>

text \<open>
  The loops of the program are runs of a step function over the inputs of its passes. A client
  states an invariant of one step (\<open>run_system\<close>), or that steps on permitted inputs only descend in
  a preorder (\<open>run_descent\<close>), and gets the statement for every run.
\<close>

locale run_system =
  fixes step :: "'i \<Rightarrow> 's \<Rightarrow> 's" and inv :: "'s \<Rightarrow> bool"
  assumes inv_step: "inv s \<Longrightarrow> inv (step i s)"
begin

lemma inv_run: "inv s \<Longrightarrow> inv (fold step is s)"
  by (induction "is" arbitrary: s) (auto intro: inv_step)

end

locale run_descent = run_system +
  fixes below :: "'b \<Rightarrow> 'b \<Rightarrow> bool" and permitted :: "'a \<Rightarrow> bool"
  assumes below_refl: "below s s"
    and below_trans: "below s t \<Longrightarrow> below t u \<Longrightarrow> below s u"
    and below_step: "inv s \<Longrightarrow> permitted i \<Longrightarrow> below s (step i s)"
begin

lemma below_run: "inv s \<Longrightarrow> list_all permitted is \<Longrightarrow> below s (fold step is s)"
proof (induction "is" arbitrary: s)
  case Nil
  then show ?case by (simp add: below_refl)
next
  case (Cons i "is")
  then have "below s (step i s)" "below (step i s) (fold step is (step i s))"
    by (simp_all add: below_step inv_step)
  then show ?case by (simp add: below_trans)
qed

end

text \<open>
  Steps that may be impossible or not return are options. \<open>opt_run\<close> is a run of them, \<open>ok_run\<close> says
  that every step of the run was taken under a condition on event and state. \<open>guarded_run\<close> is the
  invariant of such runs.
\<close>

fun opt_run :: "('e \<Rightarrow> 's \<Rightarrow> 's option) \<Rightarrow> 'e list \<Rightarrow> 's \<Rightarrow> 's option" where
  "opt_run step [] s = Some s"
| "opt_run step (e # es) s = Option.bind (step e s) (opt_run step es)"

fun ok_run :: "('e \<Rightarrow> 's \<Rightarrow> 's option) \<Rightarrow> ('e \<Rightarrow> 's \<Rightarrow> bool) \<Rightarrow> 'e list \<Rightarrow> 's \<Rightarrow> bool" where
  "ok_run step ok [] s = True"
| "ok_run step ok (e # es) s = (ok e s \<and> (case step e s of None \<Rightarrow> True | Some s' \<Rightarrow> ok_run step ok es s'))"

lemma ok_run_True [simp]: "ok_run step (\<lambda>e s. True) es s"
  by (induction es arbitrary: s) (auto split: option.splits)

lemma opt_run_append: "opt_run step (es @ fs) s = Option.bind (opt_run step es s) (opt_run step fs)"
  by (induction es arbitrary: s) (auto split: bind_splits)

lemma ok_run_append:
  "ok_run step ok (es @ fs) s \<Longrightarrow> opt_run step es s = Some t \<Longrightarrow> ok_run step ok es s \<and> ok_run step ok fs t"
  by (induction es arbitrary: s) (auto simp: bind_eq_Some_conv)

locale guarded_run =
  fixes step :: "'e \<Rightarrow> 's \<Rightarrow> 's option" and ok :: "'e \<Rightarrow> 's \<Rightarrow> bool" and inv :: "'s \<Rightarrow> bool"
  assumes inv_step: "inv s \<Longrightarrow> ok e s \<Longrightarrow> step e s = Some s' \<Longrightarrow> inv s'"
begin

lemma inv_run: "inv s \<Longrightarrow> ok_run step ok es s \<Longrightarrow> opt_run step es s = Some s' \<Longrightarrow> inv s'"
proof (induction es arbitrary: s)
  case (Cons e es)
  then obtain t where "step e s = Some t" "opt_run step es t = Some s'" by (auto simp: bind_eq_Some_conv)
  then show ?case using Cons inv_step by auto
qed simp

end

end
