(* ===== verification/Feetech_Protocol.thy ===== *)
theory Feetech_Protocol
  imports Prelude
begin

text \<open>
  The pure protocol layer of the servo driver (\<^verbatim>\<open>driver/include/feetech.h\<close> and the first part
  of \<^verbatim>\<open>driver/src/feetech.c\<close>): checksum, instruction packets, the status-packet scanner and the
  sign-magnitude registers. A byte array with its length is a \<open>u8 list\<close>; an output array
  filled by a function is the list it returns.

  The lemmas show that the scanner is the inverse of the builder on every complete packet,
  waits without dropping anything on every proper prefix, accepts only well-formed frames,
  makes progress on every error, and that the checksum sees every single-byte corruption.
\<close>

section \<open>Constants and types of feetech.h\<close>

abbreviation (input) FTS_BROADCAST_ID :: u8 where "FTS_BROADCAST_ID \<equiv> 0xFE"
abbreviation (input) FTS_MAX_PKT :: nat where "FTS_MAX_PKT \<equiv> 250"
abbreviation (input) FTS_RXBUF_SIZE :: nat where "FTS_RXBUF_SIZE \<equiv> 1024"

abbreviation (input) FTS_INST_PING :: u8 where "FTS_INST_PING \<equiv> 0x01"
abbreviation (input) FTS_INST_READ :: u8 where "FTS_INST_READ \<equiv> 0x02"
abbreviation (input) FTS_INST_WRITE :: u8 where "FTS_INST_WRITE \<equiv> 0x03"
abbreviation (input) FTS_INST_SYNC_READ :: u8 where "FTS_INST_SYNC_READ \<equiv> 0x82"
abbreviation (input) FTS_INST_SYNC_WRITE :: u8 where "FTS_INST_SYNC_WRITE \<equiv> 0x83"

abbreviation (input) STS_TORQUE_ENABLE :: u8 where "STS_TORQUE_ENABLE \<equiv> 40"
abbreviation (input) STS_GOAL_POSITION :: u8 where "STS_GOAL_POSITION \<equiv> 42"
abbreviation (input) STS_PRESENT_POSITION :: u8 where "STS_PRESENT_POSITION \<equiv> 56"

text \<open>The control table of the servo, as far as the header lists it.\<close>

definition sts_table :: "(string \<times> u8) list" where
  "sts_table =
     [(''STS_ID'', 5), (''STS_BAUD_RATE'', 6), (''STS_RETURN_DELAY'', 7), (''STS_MIN_POS_LIMIT'', 9),
      (''STS_MAX_POS_LIMIT'', 11), (''STS_HOMING_OFFSET'', 31), (''STS_OPERATING_MODE'', 33),
      (''STS_TORQUE_ENABLE'', STS_TORQUE_ENABLE), (''STS_ACCELERATION'', 41), (''STS_GOAL_POSITION'', STS_GOAL_POSITION),
      (''STS_GOAL_TIME'', 44), (''STS_GOAL_VELOCITY'', 46), (''STS_TORQUE_LIMIT'', 48), (''STS_LOCK'', 55),
      (''STS_PRESENT_POSITION'', STS_PRESENT_POSITION), (''STS_PRESENT_VELOCITY'', 58), (''STS_PRESENT_LOAD'', 60),
      (''STS_PRESENT_VOLTAGE'', 62), (''STS_PRESENT_TEMPERATURE'', 63), (''STS_STATUS'', 65), (''STS_MOVING'', 66),
      (''STS_PRESENT_CURRENT'', 69)]"

lemma sts_table_ascending: "sorted_wrt (<) (map snd sts_table)"
  by (simp add: sts_table_def)

text \<open>
  The eight bytes read from \<open>STS_PRESENT_POSITION\<close> on are position, velocity, load, voltage and temperature, at the
  offsets 0, 2, 4, 6 and 7 at which the readers decode them, and no other register begins among them.
\<close>

lemma state_block:
  "map (\<lambda>(r, a). (r, unat (a - STS_PRESENT_POSITION))) (filter (\<lambda>(r, a). STS_PRESENT_POSITION \<le> a \<and> a < STS_PRESENT_POSITION + 8) sts_table) =
   [(''STS_PRESENT_POSITION'', 0), (''STS_PRESENT_VELOCITY'', 2), (''STS_PRESENT_LOAD'', 4), (''STS_PRESENT_VOLTAGE'', 6), (''STS_PRESENT_TEMPERATURE'', 7)]"
  by (simp add: sts_table_def)

datatype fts_rc =
    FTS_OK
  | FTS_ERR_IO
  | FTS_ERR_TIMEOUT
  | FTS_ERR_CHECKSUM
  | FTS_ERR_BAD_PKT
  | FTS_ERR_ARG
  | FTS_ERR_ID

fun fts_code :: "fts_rc \<Rightarrow> int" where
  "fts_code FTS_OK = 0"
| "fts_code FTS_ERR_IO = -1"
| "fts_code FTS_ERR_TIMEOUT = -2"
| "fts_code FTS_ERR_CHECKSUM = -3"
| "fts_code FTS_ERR_BAD_PKT = -4"
| "fts_code FTS_ERR_ARG = -5"
| "fts_code FTS_ERR_ID = -6"

record fts_packet =
  pkt_id :: u8
  pkt_error :: u8
  pkt_data :: "u8 list"

text \<open>The three kinds of return value of \<^verbatim>\<open>fts_parse_status\<close>: 1, 0 and a negative code.\<close>

datatype parse_result = Parsed fts_packet | NeedMore | ParseErr fts_rc

section \<open>Protocol functions\<close>

definition fts_checksum :: "u8 list \<Rightarrow> u8" where
  "fts_checksum bytes =
     (let sum = fold (\<lambda>b s. s + ucast b) bytes (0 :: u32) in ucast (NOT sum AND 0xFF))"

text \<open>\<open>[]\<close> is the return value 0: nothing is written when the packet would be too long.\<close>

definition fts_build_packet :: "u8 \<Rightarrow> u8 \<Rightarrow> u8 list \<Rightarrow> u8 list" where
  "fts_build_packet sid inst params =
     (if length params + 6 > FTS_MAX_PKT then []
      else let body = [sid, of_nat (length params + 2), inst] @ params
           in [0xFF, 0xFF] @ body @ [fts_checksum body])"

text \<open>The header loop: the first index \<open>i\<close> with \<open>FF FF\<close> at \<open>i\<close>, or where \<open>i + 1\<close> reaches the length.\<close>

fun find_header :: "u8 list \<Rightarrow> nat" where
  "find_header (a # b # xs) =
     (if a = 0xFF \<and> b = 0xFF then 0 else Suc (find_header (b # xs)))"
| "find_header [x] = 0"
| "find_header [] = 0"

definition fts_parse_status :: "u8 list \<Rightarrow> parse_result \<times> nat" where
  "fts_parse_status buf =
     (let len = length buf; i = find_header buf in
      if i + 1 \<ge> len then
        (NeedMore, if len \<noteq> 0 \<and> buf ! (len - 1) = 0xFF then len - 1 else len)
      else if len - i < 4 then (NeedMore, i)
      else
        let sid = buf ! (i + 2); plen = unat (buf ! (i + 3)) in
        if sid = 0xFF \<or> plen < 2 \<or> plen > FTS_MAX_PKT - 4 then (ParseErr FTS_ERR_BAD_PKT, i + 1)
        else
          let total = plen + 4 in
          if len - i < total then (NeedMore, i)
          else if fts_checksum (take (total - 3) (drop (i + 2) buf)) \<noteq> buf ! (i + total - 1)
          then (ParseErr FTS_ERR_CHECKSUM, i + 2)
          else (Parsed \<lparr>pkt_id = sid, pkt_error = buf ! (i + 4),
                        pkt_data = take (plen - 2) (drop (i + 5) buf)\<rparr>, i + total))"

definition fts_decode_sm :: "u16 \<Rightarrow> nat \<Rightarrow> int" where
  "fts_decode_sm raw sign_bit =
     (let mask = push_bit sign_bit (1 :: u16); mag = uint (raw AND (mask - 1))
      in if raw AND mask \<noteq> 0 then - mag else mag)"

definition fts_encode_sm :: "int \<Rightarrow> nat \<Rightarrow> u16" where
  "fts_encode_sm value sign_bit =
     (let mask = push_bit sign_bit (1 :: u16) in
      if value < 0
      then ucast (((word_of_int (- value) :: u32) AND (ucast mask - 1)) OR ucast mask)
      else ucast ((word_of_int value :: u32) AND (ucast mask - 1)))"

definition fts_strerror :: "int \<Rightarrow> string" where
  "fts_strerror code =
     (if code = fts_code FTS_OK then ''ok''
      else if code = fts_code FTS_ERR_IO then ''I/O error''
      else if code = fts_code FTS_ERR_TIMEOUT then ''timeout (no response)''
      else if code = fts_code FTS_ERR_CHECKSUM then ''checksum error''
      else if code = fts_code FTS_ERR_BAD_PKT then ''malformed packet''
      else if code = fts_code FTS_ERR_ARG then ''invalid argument''
      else if code = fts_code FTS_ERR_ID then ''response from unexpected ID''
      else ''unknown error'')"

section \<open>The documented frame\<close>

text \<open>
  The layout given at the top of \<^verbatim>\<open>feetech.h\<close>: \<open>FF FF ID LEN X P0..Pn CHK\<close> with
  \<open>LEN = n + 2\<close> and \<open>CHK\<close> the complement of the byte sum; \<open>X\<close> is the instruction of an
  instruction packet and the error byte of a status packet.
\<close>

definition frame_body :: "u8 \<Rightarrow> u8 \<Rightarrow> u8 list \<Rightarrow> u8 list" where
  "frame_body sid x data = sid # of_nat (length data + 2) # x # data"

definition frame :: "u8 \<Rightarrow> u8 \<Rightarrow> u8 list \<Rightarrow> u8 list" where
  "frame sid x data = 0xFF # 0xFF # frame_body sid x data @ [NOT (sum_list (frame_body sid x data))]"

definition frame_ok :: "u8 \<Rightarrow> u8 list \<Rightarrow> bool" where
  "frame_ok sid data \<longleftrightarrow> sid \<noteq> 0xFF \<and> length data + 6 \<le> FTS_MAX_PKT"

section \<open>Checksum\<close>

lemma fold_sum_ucast:
  "(ucast (fold (\<lambda>b s. s + ucast b) bs (s :: u32)) :: u8) = ucast s + sum_list bs"
  by (induction bs arbitrary: s) (simp_all add: ucast_add_u8 add.assoc)

text \<open>The 32-bit sum of the code is the 8-bit complement sum of the protocol's description.\<close>

lemma fts_checksum_eq: "fts_checksum bs = NOT (sum_list bs)"
  by (simp add: fts_checksum_def ucast_not_and_u8 fold_sum_ucast)

lemma sum_list_update_word:
  "k < length bs \<Longrightarrow> sum_list (bs[k := b]) = sum_list bs - bs ! k + (b :: u8)"
proof (induction bs arbitrary: k)
  case (Cons a bs)
  then show ?case by (cases k) simp_all
qed simp

lemma checksum_single_byte:
  assumes "k < length bs" and "b \<noteq> bs ! k"
  shows "fts_checksum (bs[k := b]) \<noteq> fts_checksum bs"
  using assms by (simp add: fts_checksum_eq sum_list_update_word algebra_simps)

section \<open>Builder\<close>

lemma length_frame [simp]: "length (frame sid x data) = length data + 6"
  by (simp add: frame_def frame_body_def)

lemma build_packet_frame:
  "length params + 6 \<le> FTS_MAX_PKT \<Longrightarrow> fts_build_packet sid inst params = frame sid inst params"
  by (simp add: fts_build_packet_def frame_def frame_body_def fts_checksum_eq Let_def)

section \<open>Scanner\<close>

lemma find_header_bound: "xs \<noteq> [] \<Longrightarrow> find_header xs < length xs"
  by (induction xs rule: find_header.induct) auto

lemma find_header_found:
  "find_header xs + 1 < length xs \<Longrightarrow>
     xs ! find_header xs = 0xFF \<and> xs ! Suc (find_header xs) = 0xFF"
  by (induction xs rule: find_header.induct) auto

lemma find_header_junk:
  "0xFF \<notin> set junk \<Longrightarrow> find_header (junk @ 0xFF # 0xFF # ys) = length junk"
proof (induction junk rule: find_header.induct)
  case (1 a b xs)
  then show ?case by auto
qed auto

lemma find_header_FF [simp]: "find_header (0xFF # 0xFF # xs) = 0"
  by simp

text \<open>The scanner from the header on: what it answers for the bytes that start with \<open>FF FF\<close>.\<close>

definition parse_body :: "u8 list \<Rightarrow> parse_result \<times> nat" where
  "parse_body xs =
     (if length xs < 4 then (NeedMore, 0)
      else if xs ! 2 = 0xFF \<or> unat (xs ! 3) < 2 \<or> unat (xs ! 3) > FTS_MAX_PKT - 4
      then (ParseErr FTS_ERR_BAD_PKT, 1)
      else if length xs < unat (xs ! 3) + 4 then (NeedMore, 0)
      else if fts_checksum (take (unat (xs ! 3) + 1) (drop 2 xs)) \<noteq> xs ! (unat (xs ! 3) + 3)
      then (ParseErr FTS_ERR_CHECKSUM, 2)
      else (Parsed \<lparr>pkt_id = xs ! 2, pkt_error = xs ! 4,
                    pkt_data = take (unat (xs ! 3) - 2) (drop 5 xs)\<rparr>, unat (xs ! 3) + 4))"

lemma parse_status_body:
  assumes "find_header buf + 1 < length buf"
  shows "fts_parse_status buf =
    (fst (parse_body (drop (find_header buf) buf)),
     find_header buf + snd (parse_body (drop (find_header buf) buf)))"
proof -
  let ?i = "find_header buf"
  have nth: "drop ?i buf ! k = buf ! (?i + k)" for k
    using assms by (simp add: nth_drop)
  have drp: "drop k (drop ?i buf) = drop (?i + k) buf" for k
    by (simp add: add.commute)
  show ?thesis
    using assms
    by (simp add: fts_parse_status_def parse_body_def nth drp Let_def ac_simps del: drop_drop)
qed

lemma parse_body_frame:
  assumes "frame_ok sid data"
  shows "parse_body (frame sid err data @ rest) =
    (Parsed \<lparr>pkt_id = sid, pkt_error = err, pkt_data = data\<rparr>, length data + 6)"
proof -
  have pl: "unat (2 + of_nat (length data) :: u8) = length data + 2"
    using assms by (simp add: frame_ok_def unat_2_plus)
  show ?thesis
    using assms
    by (simp add: parse_body_def frame_def frame_body_def frame_ok_def fts_checksum_eq pl
        nth_append numeral_eq_Suc)
qed

text \<open>Every complete frame after any bytes without \<open>FF\<close> is found, and nothing after it is touched.\<close>

lemma parse_frame_after_junk:
  assumes ok: "frame_ok sid data" and junk: "0xFF \<notin> set junk"
  shows "fts_parse_status (junk @ frame sid err data @ rest) =
    (Parsed \<lparr>pkt_id = sid, pkt_error = err, pkt_data = data\<rparr>, length junk + length data + 6)"
proof -
  let ?b = "junk @ frame sid err data @ rest"
  have hd: "find_header ?b = length junk"
    using find_header_junk [OF junk] by (simp add: frame_def)
  then show ?thesis
    using parse_status_body [of ?b] parse_body_frame [OF ok] by (simp add: add.assoc)
qed

lemma parse_frame:
  "frame_ok sid data \<Longrightarrow>
    fts_parse_status (frame sid err data @ rest) =
      (Parsed \<lparr>pkt_id = sid, pkt_error = err, pkt_data = data\<rparr>, length data + 6)"
  using parse_frame_after_junk [of sid data "[]"] by simp

text \<open>On a proper prefix of a frame the scanner asks for more and gives no byte up.\<close>

lemma parse_prefix:
  assumes ok: "frame_ok sid data" and n: "n < length (frame sid err data)"
  shows "fts_parse_status (take n (frame sid err data)) = (NeedMore, 0)"
proof (cases "n < 2")
  case True
  then consider "n = 0" | "n = 1" by linarith
  then show ?thesis
    by cases (simp_all add: fts_parse_status_def frame_def)
next
  case False
  have pl: "unat (2 + of_nat (length data) :: u8) = length data + 2"
    using ok by (simp add: frame_ok_def unat_2_plus)
  let ?p = "take n (frame sid err data)"
  define m where "m = n - 2"
  have m: "n = Suc (Suc m)" using False unfolding m_def by linarith
  have h: "find_header ?p = 0" and l: "length ?p = n"
    using n by (simp_all add: m frame_def)
  have "parse_body ?p = (NeedMore, 0)"
  proof (cases "n < 4")
    case True
    then show ?thesis by (simp add: parse_body_def l del: length_take)
  next
    case False
    then have "?p ! 2 = sid" and "?p ! 3 = 2 + of_nat (length data)"
      by (simp_all add: frame_def frame_body_def numeral_eq_Suc)
    then show ?thesis
      using ok n False by (simp add: parse_body_def l pl frame_ok_def del: length_take)
  qed
  then show ?thesis
    using parse_status_body [of ?p] False by (simp add: h l del: length_take)
qed

text \<open>
  Inversion: a packet is reported only for a well-formed frame of the buffer, and exactly the
  bytes up to its end are consumed.
\<close>

lemma parse_body_Parsed:
  assumes "parse_body xs = (Parsed p, c)" and "xs ! 0 = 0xFF" and "xs ! 1 = 0xFF"
  shows "\<exists>rest. xs = frame (pkt_id p) (pkt_error p) (pkt_data p) @ rest \<and>
    c = length (pkt_data p) + 6 \<and> frame_ok (pkt_id p) (pkt_data p)"
proof -
  have len: "unat (xs ! 3) + 4 \<le> length xs" and n: "2 \<le> unat (xs ! 3)"
    using assms(1) by (auto simp: parse_body_def split: if_splits)
  then obtain sid pl err ys where xs: "xs = 0xFF # 0xFF # sid # pl # err # ys"
    using assms(2,3) list_ge5 [of xs] by (auto simp: numeral_eq_Suc)
  define m where "m = unat pl - 2"
  have un: "unat pl = Suc (Suc m)" and ys: "m < length ys"
    using len n by (simp_all add: xs m_def)
  have sid: "sid \<noteq> 0xFF" "m + 6 \<le> 250" and sum: "fts_checksum (sid # pl # err # take m ys) = ys ! m"
    and p: "p = \<lparr>pkt_id = sid, pkt_error = err, pkt_data = take m ys\<rparr>" and c: "c = m + 6"
    using assms(1) by (auto simp: parse_body_def xs un numeral_3_eq_3 numeral_2_eq_2 split: if_splits)
  have "pl = of_nat (length (take m ys) + 2)"
    using un ys word_of_nat_unat_id [of pl] by (simp add: min_def)
  moreover have "ys = take m ys @ ys ! m # drop (Suc m) ys"
    using ys by (rule id_take_nth_drop)
  ultimately have "xs = frame sid err (take m ys) @ drop (Suc m) ys"
    using sum by (simp add: xs frame_def frame_body_def fts_checksum_eq)
  then show ?thesis
    using p c sid ys by (auto simp: frame_ok_def min_def)
qed

lemma parse_status_Parsed:
  assumes "fts_parse_status buf = (Parsed p, c)"
  shows "\<exists>junk rest. buf = junk @ frame (pkt_id p) (pkt_error p) (pkt_data p) @ rest \<and>
    c = length junk + length (pkt_data p) + 6 \<and> frame_ok (pkt_id p) (pkt_data p)"
proof -
  let ?i = "find_header buf"
  have i: "?i + 1 < length buf"
    using assms by (auto simp: fts_parse_status_def Let_def split: if_splits)
  from assms have b: "parse_body (drop ?i buf) = (Parsed p, c - ?i)" and c: "?i \<le> c"
    by (auto simp: parse_status_body [OF i] prod_eq_iff)
  obtain rest where r: "drop ?i buf = frame (pkt_id p) (pkt_error p) (pkt_data p) @ rest"
    and "c - ?i = length (pkt_data p) + 6" and "frame_ok (pkt_id p) (pkt_data p)"
    using parse_body_Parsed [OF b] find_header_found [OF i] i by (auto simp: nth_drop)
  moreover have "buf = take ?i buf @ frame (pkt_id p) (pkt_error p) (pkt_data p) @ rest"
    using append_take_drop_id [of ?i buf] unfolding r by simp
  moreover have "length (take ?i buf) = ?i" using i by simp
  ultimately show ?thesis
    using c by (metis add.assoc le_add_diff_inverse)
qed

text \<open>Every answer consumes at most the buffer, and an error consumes at least one byte.\<close>

lemma parse_body_consumed: "2 \<le> length xs \<Longrightarrow> snd (parse_body xs) \<le> length xs"
  by (auto simp: parse_body_def)

lemma parse_status_consumed:
  "snd (fts_parse_status buf) \<le> length buf"
proof (cases "find_header buf + 1 < length buf")
  case True
  then have "snd (parse_body (drop (find_header buf) buf)) \<le> length buf - find_header buf"
    using parse_body_consumed [of "drop (find_header buf) buf"] by simp
  with True show ?thesis
    by (simp add: parse_status_body)
next
  case False
  then show ?thesis by (simp add: fts_parse_status_def Let_def)
qed

lemma parse_status_err_progress:
  "fts_parse_status buf = (ParseErr e, c) \<Longrightarrow> 0 < c"
  by (auto simp: fts_parse_status_def Let_def split: if_splits)

text \<open>One damaged byte of the identifier, the error byte, the data or the checksum is noticed.\<close>

lemma parse_corrupted_frame:
  assumes ok: "frame_ok sid data" and k: "k = 2 \<or> 4 \<le> k" "k < length (frame sid err data)"
    and b: "b \<noteq> frame sid err data ! k"
  shows "fts_parse_status ((frame sid err data)[k := b] @ rest) =
    (if k = 2 \<and> b = 0xFF then (ParseErr FTS_ERR_BAD_PKT, 1) else (ParseErr FTS_ERR_CHECKSUM, 2))"
proof -
  let ?body = "frame_body sid err data" and ?chk = "NOT (sum_list (frame_body sid err data))"
  define j where "j = k - 2"
  let ?xs = "0xFF # 0xFF # (?body @ [?chk])[j := b] @ rest"
  have k': "k = Suc (Suc j)" using k by (auto simp: j_def)
  have xs: "(frame sid err data)[k := b] @ rest = ?xs"
    by (simp add: frame_def k')
  have pl: "unat (2 + of_nat (length data) :: u8) = length data + 2"
    using ok by (simp add: frame_ok_def unat_2_plus)
  have lenb: "length ?body = length data + 3" by (simp add: frame_body_def)
  have j: "j \<noteq> 1" "j < length data + 4" using k by (auto simp: k')
  have x3: "?xs ! 3 = 2 + of_nat (length data)"
    using j by (cases j; cases "j - 1") (simp_all add: frame_body_def numeral_3_eq_3)
  have x2: "?xs ! 2 = (if j = 0 then b else sid)"
    by (cases j) (simp_all add: frame_body_def numeral_2_eq_2)
  have sum: "fts_checksum (take (length data + 3) (drop 2 ?xs)) \<noteq> ?xs ! (length data + 5)"
  proof (cases "j < length data + 3")
    case True
    then have "take (length data + 3) (drop 2 ?xs) = ?body[j := b]"
      by (simp add: list_update_append lenb numeral_2_eq_2)
    moreover have "?xs ! (length data + 5) = fts_checksum ?body"
      using True by (simp add: list_update_append lenb nth_append numeral_eq_Suc fts_checksum_eq)
    moreover have "b \<noteq> ?body ! j"
      using b True by (simp add: frame_def k' nth_append lenb)
    ultimately show ?thesis
      using checksum_single_byte [of j ?body b] True lenb by metis
  next
    case False
    then have jn: "j = length data + 3" using j by linarith
    then have "take (length data + 3) (drop 2 ?xs) = ?body"
      by (simp add: list_update_append lenb numeral_2_eq_2)
    moreover have "?xs ! (length data + 5) = b"
      using jn by (simp add: list_update_append lenb nth_append numeral_eq_Suc)
    moreover have "b \<noteq> fts_checksum ?body"
      using b jn by (simp add: frame_def k' nth_append lenb fts_checksum_eq)
    ultimately show ?thesis by metis
  qed
  have len: "length data + 6 \<le> length ?xs" by (simp add: lenb)
  obtain ys where ys: "ys = ?xs" by blast
  have "parse_body ys = (if j = 0 \<and> b = 0xFF then (ParseErr FTS_ERR_BAD_PKT, 1)
      else (ParseErr FTS_ERR_CHECKSUM, 2))"
  proof -
    have u3: "unat (ys ! 3) = length data + 2" using x3 pl by (simp add: ys)
    then have n: "unat (ys ! 3) + 1 = length data + 3" "unat (ys ! 3) + 3 = length data + 5"
      by linarith+
    show ?thesis
      using ok sum len x2 unfolding ys [symmetric] parse_body_def n
      by (simp add: u3 frame_ok_def)
  qed
  then show ?thesis
    using parse_status_body [of ?xs] unfolding xs ys by (simp add: k')
qed

section \<open>Sign-magnitude registers\<close>

lemma decode_sm_eq:
  "sb < 16 \<Longrightarrow> fts_decode_sm raw sb = (if bit raw sb then - 1 else 1) * (uint raw mod 2 ^ sb)"
  by (simp add: fts_decode_sm_def Let_def push_bit_of_1 and_single_bit unsigned_take_bit_eq
      flip: mask_eq_exp_minus_1 take_bit_eq_mask take_bit_eq_mod)

lemma encode_sm_eq:
  assumes "sb < 16"
  shows "fts_encode_sm v sb = take_bit sb (word_of_int \<bar>v\<bar>) OR (if v < 0 then 2 ^ sb else 0)"
proof -
  have m: "(ucast (2 ^ sb :: u16) :: u32) = 2 ^ sb"
    using assms by (intro bit_word_eqI) (auto simp: bit_simps)
  have t: "(ucast (take_bit sb (word_of_int k :: u32)) :: u16) = take_bit sb (word_of_int k)" for k
    using assms by (intro bit_word_eqI) (auto simp: bit_simps)
  have p: "(ucast (2 ^ sb :: u32) :: u16) = 2 ^ sb"
    using assms by (intro bit_word_eqI) (auto simp: bit_simps)
  show ?thesis
    by (auto simp: fts_encode_sm_def Let_def m push_bit_of_1 unsigned_or_eq t t [of "- v", simplified] p
        simp flip: mask_eq_exp_minus_1 take_bit_eq_mask)
qed

lemma bit_encode_sm: "sb < 16 \<Longrightarrow> bit (fts_encode_sm v sb) sb = (v < 0)"
  by (auto simp: encode_sm_eq bit_simps)

lemma mag_encode_sm:
  assumes "sb < 16" and "\<bar>v\<bar> < 2 ^ sb"
  shows "uint (fts_encode_sm v sb) mod 2 ^ sb = \<bar>v\<bar>"
proof -
  have "take_bit sb (fts_encode_sm v sb) = take_bit sb (word_of_int \<bar>v\<bar>)"
    using assms(1) by (intro bit_word_eqI) (auto simp: encode_sm_eq bit_simps)
  then have "take_bit sb (uint (fts_encode_sm v sb)) = take_bit sb (uint (word_of_int \<bar>v\<bar> :: u16))"
    by (metis unsigned_take_bit_eq)
  also have "\<dots> = take_bit sb \<bar>v\<bar>"
    using assms(1) by (simp add: uint_word_of_int_eq)
  also have "\<dots> = \<bar>v\<bar>"
    using assms(2) by (simp add: take_bit_int_eq_self)
  finally show ?thesis by (simp add: take_bit_eq_mod)
qed

lemma decode_encode_sm:
  "sb < 16 \<Longrightarrow> \<bar>v\<bar> < 2 ^ sb \<Longrightarrow> fts_decode_sm (fts_encode_sm v sb) sb = v"
  by (simp add: decode_sm_eq bit_encode_sm mag_encode_sm)

lemma decode_sm_bounds: "sb < 16 \<Longrightarrow> \<bar>fts_decode_sm raw sb\<bar> < 2 ^ sb"
  by (simp add: decode_sm_eq abs_mult)

end
