(* ===== verification/Feetech_Bus.thy ===== *)
theory Feetech_Bus
  imports Feetech_Protocol
begin

text \<open>
  The bus layer of the driver (second part of \<^verbatim>\<open>driver/src/feetech.c\<close>): the \<open>fts_bus\<close> structure
  and every function that talks to the tty.

  The operating system is a record \<open>tty\<close> of scripts: what the following calls of \<open>poll\<close>,
  \<open>read\<close>, \<open>write\<close>, \<open>open\<close> answer, how far \<open>CLOCK_MONOTONIC\<close> advances between two readings
  (a natural number, so the clock never runs backwards), and logs of what the driver did
  (bytes accepted for transmission, waiting times given to \<open>poll\<close>, descriptors in use). Where a
  script is exhausted the device is dead: \<open>poll\<close> times out, \<open>read\<close>, \<open>write\<close> and \<open>open\<close> fail
  and the clock stands still. A negative descriptor answers as POSIX says: \<open>poll\<close> ignores it,
  \<open>read\<close> and \<open>write\<close> fail; input beyond the room the caller has stays for the next \<open>read\<close>. \<open>tcflush\<close> discards input no \<open>read\<close> has returned; the read script
  holds only what later calls return, so flushing changes no field. Every loop of the driver
  uses up a script entry or a buffered byte per round, which is its termination measure.

  \<open>rxbuf\<close> holds the first \<open>rxlen\<close> bytes of the C array, so \<open>rxlen\<close> is its length.
\<close>

section \<open>Operating system\<close>

datatype poll_ans = PollEINTR | PollError | PollTimeout | PollReady bool bool
datatype read_ans = ReadEINTR | ReadError | ReadBytes "u8 list"
datatype write_ans = WriteEINTR | WriteError | WriteBytes nat

datatype tio_flag =
    IGNBRK | BRKINT | PARMRK | ISTRIP | INLCR | IGNCR | ICRNL | IXON | IXOFF | IXANY
  | OPOST | ECHO | ECHONL | ICANON | ISIG | IEXTEN
  | CS8 | CSTOPB | PARENB | CRTSCTS | CLOCAL | CREAD

datatype speed = B1000000 | B500000 | B115200 | B57600 | B38400

record termios =
  tio_flags :: "tio_flag set"
  tio_vmin :: nat
  tio_vtime :: nat
  tio_ispeed :: "speed option"
  tio_ospeed :: "speed option"

text \<open>\<open>OpenFd fd attrs set_ok\<close>: \<open>open\<close> gives \<open>fd\<close>, \<open>tcgetattr\<close> gives \<open>attrs\<close> (or fails), \<open>tcsetattr\<close> succeeds iff \<open>set_ok\<close>.\<close>

datatype open_ans = OpenFail | OpenFd nat "termios option" bool

record tty =
  tty_now :: int
  tty_ticks :: "nat list"
  tty_polls :: "poll_ans list"
  tty_reads :: "read_ans list"
  tty_writes :: "write_ans list"
  tty_opens :: "open_ans list"
  tty_waits :: "int list"
  tty_wire :: "u8 list"
  tty_fds :: "nat set"
  tty_paths :: "string list"
  tty_tio :: "termios option"

definition now_ms :: "tty \<Rightarrow> int \<times> tty" where
  "now_ms w = (case tty_ticks w of
       [] \<Rightarrow> (tty_now w, w)
     | d # ds \<Rightarrow> (tty_now w + int d, w\<lparr>tty_now := tty_now w + int d, tty_ticks := ds\<rparr>))"

definition sys_poll :: "int \<Rightarrow> int \<Rightarrow> tty \<Rightarrow> poll_ans \<times> tty" where
  "sys_poll fd timeout w =
     (let w' = w\<lparr>tty_waits := tty_waits w @ [timeout]\<rparr> in
      if fd < 0 then (PollTimeout, w')
      else case tty_polls w of
          [] \<Rightarrow> (PollTimeout, w')
        | a # as \<Rightarrow> (a, w'\<lparr>tty_polls := as\<rparr>))"

definition sys_read :: "int \<Rightarrow> nat \<Rightarrow> tty \<Rightarrow> read_ans \<times> tty" where
  "sys_read fd cap w =
     (if fd < 0 then (ReadError, w)
      else case tty_reads w of
          [] \<Rightarrow> (ReadError, w)
        | ReadBytes bs # as \<Rightarrow>
            (ReadBytes (take cap bs),
             w\<lparr>tty_reads := (if length bs \<le> cap then as else ReadBytes (drop cap bs) # as)\<rparr>)
        | a # as \<Rightarrow> (a, w\<lparr>tty_reads := as\<rparr>))"

definition sys_write :: "int \<Rightarrow> u8 list \<Rightarrow> tty \<Rightarrow> write_ans \<times> tty" where
  "sys_write fd buf w =
     (if fd < 0 then (WriteError, w)
      else case tty_writes w of
          [] \<Rightarrow> (WriteError, w)
        | WriteBytes k # as \<Rightarrow>
            (WriteBytes (min k (length buf)),
             w\<lparr>tty_writes := as, tty_wire := tty_wire w @ take k buf\<rparr>)
        | a # as \<Rightarrow> (a, w\<lparr>tty_writes := as\<rparr>))"

definition sys_open :: "string \<Rightarrow> tty \<Rightarrow> open_ans \<times> tty" where
  "sys_open path w =
     (let w' = w\<lparr>tty_paths := tty_paths w @ [path]\<rparr> in
      case tty_opens w of
          [] \<Rightarrow> (OpenFail, w')
        | OpenFd fd attrs ok # as \<Rightarrow>
            (OpenFd fd attrs ok, w'\<lparr>tty_opens := as, tty_fds := insert fd (tty_fds w)\<rparr>)
        | OpenFail # as \<Rightarrow> (OpenFail, w'\<lparr>tty_opens := as\<rparr>))"

definition sys_close :: "nat \<Rightarrow> tty \<Rightarrow> tty" where
  "sys_close fd w = w\<lparr>tty_fds := tty_fds w - {fd}\<rparr>"

text \<open>\<open>cfmakeraw\<close> of the C library: raw input and output, 8 data bits, no parity.\<close>

definition cfmakeraw :: "termios \<Rightarrow> termios" where
  "cfmakeraw t = t\<lparr>tio_flags := insert CS8 (tio_flags t -
     {IGNBRK, BRKINT, PARMRK, ISTRIP, INLCR, IGNCR, ICRNL, IXON, OPOST,
      ECHO, ECHONL, ICANON, ISIG, IEXTEN, PARENB})\<rparr>"

section \<open>The bus structure\<close>

record fts_stats =
  tx_packets :: u32
  rx_ok :: u32
  timeouts :: u32
  checksum_errors :: u32
  bytes_discarded :: u32

record fts_bus =
  fd :: int
  timeout_ms :: int
  echo :: bool
  last_servo_error :: u8
  stats :: fts_stats
  rxbuf :: "u8 list"

definition bus_zero :: fts_bus where
  "bus_zero = \<lparr>fd = 0, timeout_ms = 0, echo = False, last_servo_error = 0,
     stats = \<lparr>tx_packets = 0, rx_ok = 0, timeouts = 0, checksum_errors = 0, bytes_discarded = 0\<rparr>,
     rxbuf = []\<rparr>"

definition count_tx :: "fts_bus \<Rightarrow> fts_bus" where
  "count_tx bus = bus\<lparr>stats := (stats bus)\<lparr>tx_packets := tx_packets (stats bus) + 1\<rparr>\<rparr>"

definition count_rx_ok :: "fts_bus \<Rightarrow> fts_bus" where
  "count_rx_ok bus = bus\<lparr>stats := (stats bus)\<lparr>rx_ok := rx_ok (stats bus) + 1\<rparr>\<rparr>"

definition count_timeout :: "fts_bus \<Rightarrow> fts_bus" where
  "count_timeout bus = bus\<lparr>stats := (stats bus)\<lparr>timeouts := timeouts (stats bus) + 1\<rparr>\<rparr>"

definition count_checksum :: "fts_bus \<Rightarrow> fts_bus" where
  "count_checksum bus = bus\<lparr>stats := (stats bus)\<lparr>checksum_errors := checksum_errors (stats bus) + 1\<rparr>\<rparr>"

definition count_discarded :: "nat \<Rightarrow> fts_bus \<Rightarrow> fts_bus" where
  "count_discarded n bus =
     bus\<lparr>stats := (stats bus)\<lparr>bytes_discarded := bytes_discarded (stats bus) + of_nat n\<rparr>\<rparr>"

section \<open>Opening and closing\<close>

definition baud_to_speed :: "int \<Rightarrow> speed option" where
  "baud_to_speed baud =
     (if baud = 1000000 then Some B1000000
      else if baud = 500000 then Some B500000
      else if baud = 115200 then Some B115200
      else if baud = 57600 then Some B57600
      else if baud = 38400 then Some B38400
      else None)"

definition raw_termios :: "speed \<Rightarrow> termios \<Rightarrow> termios" where
  "raw_termios spd t =
     (let t1 = cfmakeraw t;
          t2 = t1\<lparr>tio_flags := tio_flags t1 \<union> {CLOCAL, CREAD}\<rparr>;
          t3 = t2\<lparr>tio_flags := tio_flags t2 - {CSTOPB, PARENB, CRTSCTS}\<rparr>;
          t4 = t3\<lparr>tio_flags := tio_flags t3 - {IXON, IXOFF, IXANY}\<rparr>
      in t4\<lparr>tio_vmin := 0, tio_vtime := 0, tio_ispeed := Some spd, tio_ospeed := Some spd\<rparr>)"

definition fts_open :: "string \<Rightarrow> int \<Rightarrow> tty \<Rightarrow> fts_rc \<times> fts_bus \<times> tty" where
  "fts_open path baud w =
     (let bus = bus_zero\<lparr>fd := -1, timeout_ms := 10\<rparr> in
      case baud_to_speed baud of
        None \<Rightarrow> (FTS_ERR_ARG, bus, w)
      | Some spd \<Rightarrow>
          (case sys_open path w of
             (OpenFail, w) \<Rightarrow> (FTS_ERR_IO, bus, w)
           | (OpenFd n None ok, w) \<Rightarrow> (FTS_ERR_IO, bus, sys_close n w)
           | (OpenFd n (Some tio) ok, w) \<Rightarrow>
               (if \<not> ok then (FTS_ERR_IO, bus, sys_close n w)
                else (FTS_OK, bus\<lparr>fd := int n\<rparr>, w\<lparr>tty_tio := Some (raw_termios spd tio)\<rparr>))))"

definition fts_close :: "fts_bus \<Rightarrow> tty \<Rightarrow> fts_bus \<times> tty" where
  "fts_close bus w =
     (let w' = (if fd bus \<ge> 0 then sys_close (nat (fd bus)) w else w) in (bus\<lparr>fd := -1\<rparr>, w'))"

section \<open>Low-level I/O\<close>

lemma sys_write_script:
  "sys_write f buf w = (a, w') \<Longrightarrow> a \<noteq> WriteError \<Longrightarrow> length (tty_writes w') < length (tty_writes w)"
  by (auto simp: sys_write_def split: if_splits list.splits write_ans.splits)

function write_all :: "int \<Rightarrow> u8 list \<Rightarrow> tty \<Rightarrow> fts_rc \<times> tty" where
  "write_all f buf w =
     (if buf = [] then (FTS_OK, w)
      else case sys_write f buf w of
          (WriteEINTR, w') \<Rightarrow> write_all f buf w'
        | (WriteError, w') \<Rightarrow> (FTS_ERR_IO, w')
        | (WriteBytes k, w') \<Rightarrow> write_all f (drop k buf) w')"
  by pat_completeness auto
termination
  by (relation "measure (\<lambda>(f, buf, w). length (tty_writes w))") (auto dest: sys_write_script [OF sym])

text \<open>The time \<^verbatim>\<open>fill_rx\<close> waits in \<open>poll\<close>, and its guard against a full receive buffer.\<close>

definition poll_wait :: "int \<Rightarrow> int \<Rightarrow> int" where
  "poll_wait deadline now = (let remaining = deadline - now in if remaining < 0 then 0 else remaining)"

definition rx_room :: "fts_bus \<Rightarrow> fts_bus" where
  "rx_room bus =
     (if length (rxbuf bus) \<ge> FTS_RXBUF_SIZE
      then (count_discarded (length (rxbuf bus)) bus)\<lparr>rxbuf := []\<rparr> else bus)"

definition fill_rx :: "fts_bus \<Rightarrow> int \<Rightarrow> tty \<Rightarrow> fts_rc \<times> fts_bus \<times> tty" where
  "fill_rx bus deadline w =
     (let (now, w) = now_ms w
      in case sys_poll (fd bus) (poll_wait deadline now) w of
           (PollEINTR, w) \<Rightarrow> (FTS_OK, bus, w)
         | (PollError, w) \<Rightarrow> (FTS_ERR_IO, bus, w)
         | (PollTimeout, w) \<Rightarrow> (FTS_ERR_TIMEOUT, bus, w)
         | (PollReady pollin pollerr, w) \<Rightarrow>
             (if \<not> pollin \<and> pollerr then (FTS_ERR_IO, bus, w)
             else
               let bus = rx_room bus
               in case sys_read (fd bus) (FTS_RXBUF_SIZE - length (rxbuf bus)) w of
                    (ReadEINTR, w) \<Rightarrow> (FTS_OK, bus, w)
                  | (ReadError, w) \<Rightarrow> (FTS_ERR_IO, bus, w)
                  | (ReadBytes bs, w) \<Rightarrow>
                      if bs = [] then (FTS_ERR_IO, bus, w)
                      else (FTS_OK, bus\<lparr>rxbuf := rxbuf bus @ bs\<rparr>, w)))"

definition drop_rx :: "nat \<Rightarrow> fts_bus \<Rightarrow> fts_bus" where
  "drop_rx n bus =
     (if n \<ge> length (rxbuf bus) then bus\<lparr>rxbuf := []\<rparr> else bus\<lparr>rxbuf := drop n (rxbuf bus)\<rparr>)"

lemma now_ms_scripts:
  "now_ms w = (t, w') \<Longrightarrow> tty_polls w' = tty_polls w \<and> tty_reads w' = tty_reads w \<and>
     tty_writes w' = tty_writes w \<and> tty_wire w' = tty_wire w \<and> tty_opens w' = tty_opens w"
  by (auto simp: now_ms_def split: list.splits)

lemma sys_read_polls: "sys_read f cap w = (a, w') \<Longrightarrow> tty_polls w' = tty_polls w"
  by (auto simp: sys_read_def split: if_splits list.splits read_ans.splits)

lemma fill_rx_script:
  assumes "fill_rx bus deadline w = (FTS_OK, bus', w')"
  shows "length (tty_polls w') < length (tty_polls w)"
proof -
  obtain t w1 where t: "now_ms w = (t, w1)" by (cases "now_ms w")
  show ?thesis
    using assms now_ms_scripts [OF t]
    by (auto simp: fill_rx_def t sys_poll_def Let_def split: if_splits list.splits poll_ans.splits
        read_ans.splits prod.splits dest: sys_read_polls)
qed

text \<open>The echo loop of \<^verbatim>\<open>tx_packet\<close>: read until \<open>len\<close> bytes are buffered or the wait times out.\<close>

function echo_loop :: "fts_bus \<Rightarrow> int \<Rightarrow> nat \<Rightarrow> tty \<Rightarrow> fts_rc \<times> fts_bus \<times> tty" where
  "echo_loop bus deadline len w =
     (if length (rxbuf bus) < len
      then case fill_rx bus deadline w of
             (rc, bus', w') \<Rightarrow>
               if rc = FTS_ERR_TIMEOUT then (FTS_OK, bus', w')
               else if rc \<noteq> FTS_OK then (rc, bus', w')
               else echo_loop bus' deadline len w'
      else (FTS_OK, bus, w))"
  by pat_completeness auto
termination
  by (relation "measure (\<lambda>(bus, deadline, len, w). length (tty_polls w))") (auto dest: fill_rx_script [OF sym])

definition tx_packet :: "fts_bus \<Rightarrow> u8 list \<Rightarrow> tty \<Rightarrow> fts_rc \<times> fts_bus \<times> tty" where
  "tx_packet bus pkt w =
     (let bus = bus\<lparr>rxbuf := []\<rparr>; (rc, w) = write_all (fd bus) pkt w in
      if rc \<noteq> FTS_OK then (rc, bus, w)
      else
        let bus = count_tx bus in
        if echo bus then
          let (now, w) = now_ms w;
              (rc, bus, w) = echo_loop bus (now + timeout_ms bus) (length pkt) w
          in if rc \<noteq> FTS_OK then (rc, bus, w) else (FTS_OK, drop_rx (length pkt) bus, w)
        else (FTS_OK, bus, w))"

text \<open>
  The receive loop of \<^verbatim>\<open>rx_status\<close>. The second component of the result is what was copied to
  the caller's buffer (at most \<open>cap\<close> bytes).
\<close>

lemma drop_rx_length: "length (rxbuf (drop_rx n bus)) = length (rxbuf bus) - n"
  by (simp add: drop_rx_def)

lemmas bus_update_defs = count_tx_def count_rx_ok_def count_timeout_def count_checksum_def
  count_discarded_def drop_rx_def rx_room_def

lemma count_rxbuf [simp]:
  "rxbuf (count_tx bus) = rxbuf bus" "rxbuf (count_rx_ok bus) = rxbuf bus"
  "rxbuf (count_timeout bus) = rxbuf bus" "rxbuf (count_checksum bus) = rxbuf bus"
  "rxbuf (count_discarded n bus) = rxbuf bus"
  by (simp_all add: bus_update_defs)

lemma bus_fields [simp]:
  "fd (count_tx bus) = fd bus" "fd (count_rx_ok bus) = fd bus" "fd (count_timeout bus) = fd bus"
  "fd (count_checksum bus) = fd bus" "fd (count_discarded n bus) = fd bus"
  "fd (drop_rx n bus) = fd bus" "fd (rx_room bus) = fd bus"
  "timeout_ms (count_tx bus) = timeout_ms bus" "timeout_ms (count_rx_ok bus) = timeout_ms bus"
  "timeout_ms (count_timeout bus) = timeout_ms bus" "timeout_ms (count_checksum bus) = timeout_ms bus"
  "timeout_ms (count_discarded n bus) = timeout_ms bus" "timeout_ms (drop_rx n bus) = timeout_ms bus"
  "timeout_ms (rx_room bus) = timeout_ms bus"
  "echo (count_tx bus) = echo bus" "echo (count_rx_ok bus) = echo bus" "echo (count_timeout bus) = echo bus"
  "echo (count_checksum bus) = echo bus" "echo (count_discarded n bus) = echo bus"
  "echo (drop_rx n bus) = echo bus" "echo (rx_room bus) = echo bus"
  by (simp_all add: bus_update_defs)

lemma parse_err_shrinks:
  "fts_parse_status (rxbuf bus) = (ParseErr e, n) \<Longrightarrow> length (rxbuf bus) - n < length (rxbuf bus)"
  using parse_status_consumed [of "rxbuf bus"] parse_status_err_progress [of "rxbuf bus" e n] by simp

function rx_loop :: "fts_bus \<Rightarrow> u8 \<Rightarrow> nat \<Rightarrow> int \<Rightarrow> tty \<Rightarrow> fts_rc \<times> u8 list \<times> fts_bus \<times> tty" where
  "rx_loop bus expect_id cap deadline w =
     (case fts_parse_status (rxbuf bus) of
        (Parsed pkt, consumed) \<Rightarrow>
          (let bus = count_discarded (consumed - (length (pkt_data pkt) + 6)) bus in
           if pkt_id pkt \<noteq> expect_id then (FTS_ERR_ID, [], drop_rx consumed bus, w)
           else
             let bus = bus\<lparr>last_servo_error := pkt_error pkt\<rparr>;
                 bus = count_rx_ok (drop_rx consumed bus)
             in (FTS_OK, take cap (pkt_data pkt), bus, w))
      | (ParseErr e, consumed) \<Rightarrow>
          (let bus = (if e = FTS_ERR_CHECKSUM then count_checksum bus else bus);
               bus = drop_rx consumed (count_discarded consumed bus)
           in rx_loop bus expect_id cap deadline w)
      | (NeedMore, _) \<Rightarrow>
          (let (now, w) = now_ms w in
           if now > deadline then (FTS_ERR_TIMEOUT, [], count_timeout bus, w)
           else case fill_rx bus deadline w of
                  (rc, bus, w) \<Rightarrow>
                    if rc = FTS_ERR_TIMEOUT then (FTS_ERR_TIMEOUT, [], count_timeout bus, w)
                    else if rc \<noteq> FTS_OK then (rc, [], bus, w)
                    else rx_loop bus expect_id cap deadline w))"
  by pat_completeness auto
termination
  by (relation "measures [\<lambda>(bus, i, cap, d, w). length (tty_polls w),
                          \<lambda>(bus, i, cap, d, w). length (rxbuf bus)]")
    (auto simp: drop_rx_length dest!: fill_rx_script [OF sym] dest: now_ms_scripts [OF sym]
      parse_err_shrinks [OF sym])

definition rx_status :: "fts_bus \<Rightarrow> u8 \<Rightarrow> nat \<Rightarrow> tty \<Rightarrow> fts_rc \<times> u8 list \<times> fts_bus \<times> tty" where
  "rx_status bus expect_id cap w =
     (let (now, w) = now_ms w in rx_loop bus expect_id cap (now + timeout_ms bus) w)"

section \<open>Public API\<close>

text \<open>A pointer argument that the code compares with \<open>NULL\<close> is an option.\<close>

definition fts_ping :: "fts_bus \<Rightarrow> u8 \<Rightarrow> tty \<Rightarrow> fts_rc \<times> fts_bus \<times> tty" where
  "fts_ping bus sid w =
     (let (rc, bus, w) = tx_packet bus (fts_build_packet sid FTS_INST_PING []) w in
      if rc \<noteq> FTS_OK then (rc, bus, w)
      else let (rc, _, bus, w) = rx_status bus sid 0 w in (rc, bus, w))"

definition fts_read ::
    "fts_bus \<Rightarrow> u8 \<Rightarrow> u8 \<Rightarrow> u8 list option \<Rightarrow> u8 \<Rightarrow> tty \<Rightarrow> fts_rc \<times> u8 list option \<times> fts_bus \<times> tty" where
  "fts_read bus sid addr out len w =
     (case out of
        None \<Rightarrow> (FTS_ERR_ARG, out, bus, w)
      | Some buf \<Rightarrow>
          if len = 0 then (FTS_ERR_ARG, out, bus, w)
          else
            let (rc, bus, w) = tx_packet bus (fts_build_packet sid FTS_INST_READ [addr, len]) w in
            if rc \<noteq> FTS_OK then (rc, out, bus, w)
            else
              let (rc, got, bus, w) = rx_status bus sid (unat len) w in
              if rc \<noteq> FTS_OK then (rc, out, bus, w)
              else (if length got = unat len then FTS_OK else FTS_ERR_BAD_PKT,
                    Some (buf_write 0 got buf), bus, w))"

definition fts_write ::
    "fts_bus \<Rightarrow> u8 \<Rightarrow> u8 \<Rightarrow> u8 list option \<Rightarrow> u8 \<Rightarrow> tty \<Rightarrow> fts_rc \<times> fts_bus \<times> tty" where
  "fts_write bus sid addr data len w =
     (case data of
        None \<Rightarrow> (FTS_ERR_ARG, bus, w)
      | Some d \<Rightarrow>
          if len = 0 \<or> unat len + 7 > FTS_MAX_PKT then (FTS_ERR_ARG, bus, w)
          else
            let params = addr # take (unat len) d;
                (rc, bus, w) = tx_packet bus (fts_build_packet sid FTS_INST_WRITE params) w in
            if rc \<noteq> FTS_OK then (rc, bus, w)
            else if sid = FTS_BROADCAST_ID then (FTS_OK, bus, w)
            else let (rc, _, bus, w) = rx_status bus sid 0 w in (rc, bus, w))"

text \<open>The loop of \<^verbatim>\<open>fts_sync_read\<close> over the remaining servos, \<open>k\<close> being the index of the next one.\<close>

fun sync_read_loop ::
    "fts_bus \<Rightarrow> u8 list \<Rightarrow> nat \<Rightarrow> nat \<Rightarrow> u8 list \<Rightarrow> fts_rc \<Rightarrow> tty \<Rightarrow> fts_rc \<times> u8 list \<times> fts_bus \<times> tty" where
  "sync_read_loop bus [] k len out first_err w = (first_err, out, bus, w)"
| "sync_read_loop bus (i # ids) k len out first_err w =
     (let (rc, got, bus, w) = rx_status bus i len w;
          out = (if rc = FTS_OK then buf_write (k * len) got out else out);
          rc = (if rc = FTS_OK \<and> length got \<noteq> len then FTS_ERR_BAD_PKT else rc);
          first_err = (if rc \<noteq> FTS_OK \<and> first_err = FTS_OK then rc else first_err)
      in if rc = FTS_ERR_TIMEOUT then (first_err, out, bus, w)
         else sync_read_loop bus ids (Suc k) len out first_err w)"

definition fts_sync_read ::
    "fts_bus \<Rightarrow> u8 list \<Rightarrow> u8 \<Rightarrow> u8 \<Rightarrow> u8 list option \<Rightarrow> tty \<Rightarrow> fts_rc \<times> u8 list option \<times> fts_bus \<times> tty" where
  "fts_sync_read bus ids addr len out w =
     (case out of
        None \<Rightarrow> (FTS_ERR_ARG, out, bus, w)
      | Some buf \<Rightarrow>
          if ids = [] \<or> len = 0 \<or> length ids + 8 > FTS_MAX_PKT then (FTS_ERR_ARG, out, bus, w)
          else
            let (rc, bus, w) = tx_packet bus
                  (fts_build_packet FTS_BROADCAST_ID FTS_INST_SYNC_READ (addr # len # ids)) w in
            if rc \<noteq> FTS_OK then (rc, out, bus, w)
            else let (rc, buf, bus, w) = sync_read_loop bus ids 0 (unat len) buf FTS_OK w
                 in (rc, Some buf, bus, w))"

definition sync_write_params :: "u8 list \<Rightarrow> u8 \<Rightarrow> u8 \<Rightarrow> u8 list \<Rightarrow> u8 list" where
  "sync_write_params ids addr len data =
     addr # len # concat (map (\<lambda>k. ids ! k # take (unat len) (drop (k * unat len) data)) [0..<length ids])"

definition fts_sync_write ::
    "fts_bus \<Rightarrow> u8 list \<Rightarrow> u8 \<Rightarrow> u8 \<Rightarrow> u8 list option \<Rightarrow> tty \<Rightarrow> fts_rc \<times> fts_bus \<times> tty" where
  "fts_sync_write bus ids addr len data w =
     (let nparams = 2 + length ids * (unat len + 1) in
      case data of
        None \<Rightarrow> (FTS_ERR_ARG, bus, w)
      | Some d \<Rightarrow>
          if ids = [] \<or> len = 0 \<or> nparams + 6 > FTS_MAX_PKT then (FTS_ERR_ARG, bus, w)
          else tx_packet bus
            (fts_build_packet FTS_BROADCAST_ID FTS_INST_SYNC_WRITE (sync_write_params ids addr len d)) w)"

function raw_ping_loop :: "fts_bus \<Rightarrow> int \<Rightarrow> nat \<Rightarrow> u8 list \<Rightarrow> tty \<Rightarrow> u8 list \<times> tty" where
  "raw_ping_loop bus deadline cap raw w =
     (if length raw < cap then
        let (now, w) = now_ms w; rem = deadline - now in
        if rem \<le> 0 then (raw, w)
        else case sys_poll (fd bus) rem w of
               (PollReady pollin pollerr, w) \<Rightarrow>
                 (case sys_read (fd bus) (cap - length raw) w of
                    (ReadBytes bs, w) \<Rightarrow>
                      if bs = [] then (raw, w) else raw_ping_loop bus deadline cap (raw @ bs) w
                  | (_, w) \<Rightarrow> (raw, w))
             | (_, w) \<Rightarrow> (raw, w)
      else (raw, w))"
  by pat_completeness auto
termination
  by (relation "measure (\<lambda>(bus, d, cap, raw, w). length (tty_polls w))")
    (auto simp: sys_poll_def Let_def split: if_splits list.splits
      dest!: now_ms_scripts [OF sym] sys_read_polls [OF sym])

text \<open>The result is the transmitted ping and either an error or the raw bytes received.\<close>

definition fts_raw_ping ::
    "fts_bus \<Rightarrow> u8 \<Rightarrow> nat \<Rightarrow> int \<Rightarrow> tty \<Rightarrow> u8 list \<times> (fts_rc + u8 list) \<times> tty" where
  "fts_raw_ping bus sid cap wait_ms w =
     (let tx = fts_build_packet sid FTS_INST_PING []; (rc, w) = write_all (fd bus) tx w in
      if rc \<noteq> FTS_OK then (tx, Inl rc, w)
      else let (now, w) = now_ms w; (raw, w) = raw_ping_loop bus (now + wait_ms) cap [] w
           in (tx, Inr raw, w))"

declare write_all.simps [simp del] echo_loop.simps [simp del] rx_loop.simps [simp del]
  raw_ping_loop.simps [simp del]

end
