(* ===== verification/Feetech_Bus_Lemmas.thy ===== *)
theory Feetech_Bus_Lemmas
  imports Feetech_Bus
begin

text \<open>
  Lemmas on the bus layer: what every operation keeps of a port, what \<open>write_all\<close> puts on the
  wire, the deadline of the receive loop, and the reception of whole frames however the
  kernel cuts them into chunks.
\<close>

section \<open>What every bus operation keeps\<close>

text \<open>
  \<open>rx_fits\<close> is the array bound of \<open>rxbuf\<close>. \<open>port_ext\<close> relates a port before and after an
  operation: descriptor, timeout and echo setting are the caller's, the receive buffer stays
  within its array, the bytes on the wire are only extended, the clock does not run backwards
  and no descriptor is opened or closed.
\<close>

definition rx_fits :: "fts_bus \<Rightarrow> bool" where
  "rx_fits bus \<longleftrightarrow> length (rxbuf bus) \<le> FTS_RXBUF_SIZE"

definition same_settings :: "fts_bus \<Rightarrow> fts_bus \<Rightarrow> bool" where
  "same_settings bus bus' \<longleftrightarrow> fd bus' = fd bus \<and> timeout_ms bus' = timeout_ms bus \<and> echo bus' = echo bus"

definition tty_ext :: "tty \<Rightarrow> tty \<Rightarrow> bool" where
  "tty_ext w w' \<longleftrightarrow> tty_now w \<le> tty_now w' \<and> (\<exists>ys. tty_wire w' = tty_wire w @ ys) \<and>
     tty_fds w' = tty_fds w \<and> tty_opens w' = tty_opens w \<and> tty_paths w' = tty_paths w"

definition port_ext :: "fts_bus \<Rightarrow> tty \<Rightarrow> fts_bus \<Rightarrow> tty \<Rightarrow> bool" where
  "port_ext bus w bus' w' \<longleftrightarrow>
     same_settings bus bus' \<and> (rx_fits bus \<longrightarrow> rx_fits bus') \<and> tty_ext w w'"

lemma tty_ext_refl [simp, intro]: "tty_ext w w"
  by (simp add: tty_ext_def)

lemma tty_ext_trans [trans]: "tty_ext w w' \<Longrightarrow> tty_ext w' w'' \<Longrightarrow> tty_ext w w''"
  by (auto simp: tty_ext_def)

lemma port_ext_refl [simp, intro]: "port_ext bus w bus w"
  by (simp add: port_ext_def same_settings_def)

lemma port_ext_trans [trans]:
  "port_ext bus w bus' w' \<Longrightarrow> port_ext bus' w' bus'' w'' \<Longrightarrow> port_ext bus w bus'' w''"
  by (auto simp: port_ext_def same_settings_def intro: tty_ext_trans)

lemma port_ext_tty: "tty_ext w w' \<Longrightarrow> port_ext bus w bus w'"
  by (simp add: port_ext_def same_settings_def)

lemma rx_fits_simps [simp]:
  "rx_fits (count_tx bus) = rx_fits bus" "rx_fits (count_rx_ok bus) = rx_fits bus"
  "rx_fits (count_timeout bus) = rx_fits bus" "rx_fits (count_checksum bus) = rx_fits bus"
  "rx_fits (count_discarded n bus) = rx_fits bus" "rx_fits (bus\<lparr>last_servo_error := e\<rparr>) = rx_fits bus"
  "rx_fits (bus\<lparr>rxbuf := []\<rparr>)"
  by (simp_all add: rx_fits_def)

lemma rx_fits_drop [simp]: "rx_fits bus \<Longrightarrow> rx_fits (drop_rx n bus)"
  by (simp add: rx_fits_def drop_rx_length)

lemma rx_fits_room [simp]: "rx_fits bus \<Longrightarrow> rx_fits (rx_room bus)"
  by (simp add: rx_fits_def rx_room_def)

lemma port_ext_bus:
  "same_settings bus bus' \<Longrightarrow> (rx_fits bus \<Longrightarrow> rx_fits bus') \<Longrightarrow> port_ext bus w bus' w"
  by (simp add: port_ext_def)

lemma now_ms_ext: "now_ms w = (t, w') \<Longrightarrow> tty_ext w w' \<and> t = tty_now w'"
  by (auto simp: now_ms_def tty_ext_def split: list.splits)

lemma sys_poll_ext: "sys_poll f t w = (a, w') \<Longrightarrow> tty_ext w w'"
  by (auto simp: sys_poll_def tty_ext_def Let_def split: if_splits list.splits)

lemma sys_read_ext: "sys_read f cap w = (a, w') \<Longrightarrow> tty_ext w w'"
  by (auto simp: sys_read_def tty_ext_def split: if_splits list.splits read_ans.splits)

lemma sys_write_ext: "sys_write f buf w = (a, w') \<Longrightarrow> tty_ext w w'"
  by (auto simp: sys_write_def tty_ext_def split: if_splits list.splits write_ans.splits)

lemma write_all_ext: "write_all f buf w = (rc, w') \<Longrightarrow> tty_ext w w'"
proof (induction f buf w rule: write_all.induct)
  case (1 f buf w)
  obtain a w1 where s: "sys_write f buf w = (a, w1)" by (cases "sys_write f buf w")
  show ?case
    using "1.prems" "1.IH" s sys_write_ext [OF s]
    by (auto simp: write_all.simps [of f buf w] split: if_splits write_ans.splits
        intro: tty_ext_trans)
qed

lemma sys_read_length: "sys_read f cap w = (ReadBytes bs, w') \<Longrightarrow> length bs \<le> cap"
  by (auto simp: sys_read_def split: if_splits list.splits read_ans.splits)

lemma fill_rx_ready:
  assumes "now_ms w = (t, w1)" and "sys_poll (fd bus) (poll_wait deadline t) w1 = (PollReady pi pe, w2)"
    and "pi \<or> \<not> pe"
    and "sys_read (fd bus) (FTS_RXBUF_SIZE - length (rxbuf (rx_room bus))) w2 = (d, w3)"
  shows "fill_rx bus deadline w = (case d of
      ReadEINTR \<Rightarrow> (FTS_OK, rx_room bus, w3)
    | ReadError \<Rightarrow> (FTS_ERR_IO, rx_room bus, w3)
    | ReadBytes bs \<Rightarrow> if bs = [] then (FTS_ERR_IO, rx_room bus, w3)
        else (FTS_OK, (rx_room bus)\<lparr>rxbuf := rxbuf (rx_room bus) @ bs\<rparr>, w3))"
  using assms by (auto simp: fill_rx_def Let_def split: read_ans.splits)

lemma fill_rx_cases:
  assumes "fill_rx bus deadline w = (rc, bus', w')"
  obtains t w1 a w2 where "now_ms w = (t, w1)" "sys_poll (fd bus) (poll_wait deadline t) w1 = (a, w2)"
      "bus' = bus" "w' = w2" "rc = FTS_OK \<longleftrightarrow> a = PollEINTR" "rc = FTS_ERR_TIMEOUT \<longleftrightarrow> a = PollTimeout"
  | t w1 pi pe w2 bs where "now_ms w = (t, w1)"
      "sys_poll (fd bus) (poll_wait deadline t) w1 = (PollReady pi pe, w2)"
      "sys_read (fd bus) (FTS_RXBUF_SIZE - length (rxbuf (rx_room bus))) w2 = (ReadBytes bs, w')"
      "bs \<noteq> []" "rc = FTS_OK" "bus' = (rx_room bus)\<lparr>rxbuf := rxbuf (rx_room bus) @ bs\<rparr>"
  | t w1 pi pe w2 d where "now_ms w = (t, w1)"
      "sys_poll (fd bus) (poll_wait deadline t) w1 = (PollReady pi pe, w2)"
      "sys_read (fd bus) (FTS_RXBUF_SIZE - length (rxbuf (rx_room bus))) w2 = (d, w')"
      "rc = FTS_OK \<longleftrightarrow> d = ReadEINTR" "rc \<noteq> FTS_ERR_TIMEOUT" "bus' = rx_room bus"
      "\<forall>bs. d = ReadBytes bs \<longrightarrow> bs = []"
proof -
  obtain t w1 where t: "now_ms w = (t, w1)" by (cases "now_ms w")
  obtain a w2 where a: "sys_poll (fd bus) (poll_wait deadline t) w1 = (a, w2)"
    by (cases "sys_poll (fd bus) (poll_wait deadline t) w1")
  obtain d w3 where d: "sys_read (fd bus) (FTS_RXBUF_SIZE - length (rxbuf (rx_room bus))) w2 = (d, w3)"
    by (cases "sys_read (fd bus) (FTS_RXBUF_SIZE - length (rxbuf (rx_room bus))) w2")
  show ?thesis
  proof (cases a)
    case (PollReady pi pe)
    show ?thesis
    proof (cases "\<not> pi \<and> pe")
      case True
      then show ?thesis
        using assms PollReady by (intro that(1) [OF t a]) (simp_all add: fill_rx_def t a)
    next
      case False
      note a' = a [unfolded PollReady]
      have eq: "(rc, bus', w') = (case d of
          ReadEINTR \<Rightarrow> (FTS_OK, rx_room bus, w3) | ReadError \<Rightarrow> (FTS_ERR_IO, rx_room bus, w3)
        | ReadBytes bs \<Rightarrow> if bs = [] then (FTS_ERR_IO, rx_room bus, w3)
            else (FTS_OK, (rx_room bus)\<lparr>rxbuf := rxbuf (rx_room bus) @ bs\<rparr>, w3))"
        using fill_rx_ready [OF t a' _ d] False assms by simp
      show ?thesis
      proof (cases "\<exists>bs. d = ReadBytes bs \<and> bs \<noteq> []")
        case True
        then obtain bs where bs: "d = ReadBytes bs" "bs \<noteq> []" by blast
        show ?thesis using eq d bs by (intro that(2) [OF t a', of bs]) simp_all
      next
        case nobytes: False
        show ?thesis
          using eq d nobytes
          by (intro that(3) [OF t a', of d]) (auto split: read_ans.splits if_splits)
      qed
    qed
  qed (use assms in \<open>intro that(1) [OF t a]; simp add: fill_rx_def t a\<close>)+
qed

lemma fill_rx_ext:
  assumes "fill_rx bus deadline w = (rc, bus', w')"
  shows "port_ext bus w bus' w'"
  using assms
proof (cases rule: fill_rx_cases)
  case 1
  then show ?thesis by (auto dest: now_ms_ext sys_poll_ext intro: port_ext_tty tty_ext_trans)
next
  case 2
  then have "tty_ext w w'"
    by (auto dest!: now_ms_ext sys_poll_ext sys_read_ext intro: tty_ext_trans)
  moreover have "rx_fits bus'" if "rx_fits bus"
    using rx_fits_room [OF that] sys_read_length [OF 2(3)] 2(6) by (simp add: rx_fits_def)
  ultimately show ?thesis using 2(6) by (simp add: port_ext_def same_settings_def)
next
  case 3
  then have "tty_ext w w'"
    by (auto dest!: now_ms_ext sys_poll_ext sys_read_ext intro: tty_ext_trans)
  then show ?thesis using 3(6) by (simp add: port_ext_def same_settings_def)
qed

lemma echo_loop_ext: "echo_loop bus deadline len w = (rc, bus', w') \<Longrightarrow> port_ext bus w bus' w'"
proof (induction bus deadline len w rule: echo_loop.induct)
  case (1 bus deadline len w)
  obtain r b w1 where s: "fill_rx bus deadline w = (r, b, w1)" by (cases "fill_rx bus deadline w")
  show ?case
    using "1.prems" "1.IH" s fill_rx_ext [OF s]
    by (auto simp: echo_loop.simps [of bus deadline len w] split: if_splits intro: port_ext_trans)
qed

lemma tx_packet_ext: "tx_packet bus pkt w = (rc, bus', w') \<Longrightarrow> port_ext bus w bus' w'"
proof -
  assume tx: "tx_packet bus pkt w = (rc, bus', w')"
  let ?b = "bus\<lparr>rxbuf := []\<rparr>" and ?c = "count_tx (bus\<lparr>rxbuf := []\<rparr>)"
  obtain r w1 where wr: "write_all (fd bus) pkt w = (r, w1)" by (cases "write_all (fd bus) pkt w")
  obtain t w2 where t: "now_ms w1 = (t, w2)" by (cases "now_ms w1")
  obtain e b2 w3 where el: "echo_loop ?c (t + timeout_ms bus) (length pkt) w2 = (e, b2, w3)"
    by (cases "echo_loop ?c (t + timeout_ms bus) (length pkt) w2")
  have c: "timeout_ms ?c = timeout_ms bus" "echo ?c = echo bus" by (simp_all add: count_tx_def)
  have w1: "tty_ext w w1" and w2: "tty_ext w w2"
    using write_all_ext [OF wr] now_ms_ext [OF t] by (blast intro: tty_ext_trans)+
  have b: "port_ext bus w ?b w1" "port_ext bus w ?c w1" "port_ext bus w ?c w2"
    using w1 w2 by (simp_all add: port_ext_def same_settings_def)
  have d: "port_ext bus w b2 w3" using b(3) echo_loop_ext [OF el] by (rule port_ext_trans)
  then have "port_ext bus w (drop_rx (length pkt) b2) w3"
    by (rule port_ext_trans) (auto intro: port_ext_bus simp: same_settings_def)
  then show ?thesis
    using tx b d by (auto simp: tx_packet_def wr t c el Let_def split: if_splits)
qed

text \<open>One round of the receive loop per answer of the scanner, and its induction rule.\<close>

definition rx_resync :: "fts_rc \<Rightarrow> nat \<Rightarrow> fts_bus \<Rightarrow> fts_bus" where
  "rx_resync e n bus =
     drop_rx n (count_discarded n (if e = FTS_ERR_CHECKSUM then count_checksum bus else bus))"

definition rx_accept :: "fts_packet \<Rightarrow> nat \<Rightarrow> fts_bus \<Rightarrow> fts_bus" where
  "rx_accept pkt n bus = count_rx_ok (drop_rx n
     ((count_discarded (n - (length (pkt_data pkt) + 6)) bus)\<lparr>last_servo_error := pkt_error pkt\<rparr>))"

lemma rx_loop_Parsed:
  "fts_parse_status (rxbuf bus) = (Parsed pkt, n) \<Longrightarrow>
    rx_loop bus i cap deadline w =
      (if pkt_id pkt \<noteq> i
       then (FTS_ERR_ID, [], drop_rx n (count_discarded (n - (length (pkt_data pkt) + 6)) bus), w)
       else (FTS_OK, take cap (pkt_data pkt), rx_accept pkt n bus, w))"
  by (simp add: rx_loop.simps [of bus] rx_accept_def Let_def)

lemma rx_loop_Err:
  "fts_parse_status (rxbuf bus) = (ParseErr e, n) \<Longrightarrow>
    rx_loop bus i cap deadline w = rx_loop (rx_resync e n bus) i cap deadline w"
  by (simp add: rx_loop.simps [of bus] rx_resync_def Let_def)

lemma rx_loop_More:
  "fts_parse_status (rxbuf bus) = (NeedMore, n) \<Longrightarrow> now_ms w = (t, w1) \<Longrightarrow>
    fill_rx bus deadline w1 = (f, b, w2) \<Longrightarrow>
    rx_loop bus i cap deadline w =
      (if t > deadline then (FTS_ERR_TIMEOUT, [], count_timeout bus, w1)
       else if f = FTS_ERR_TIMEOUT then (FTS_ERR_TIMEOUT, [], count_timeout b, w2)
       else if f \<noteq> FTS_OK then (f, [], b, w2)
       else rx_loop b i cap deadline w2)"
  by (simp add: rx_loop.simps [of bus])

lemma rx_loop_rule [case_names Parsed Err More]:
  assumes "\<And>bus w pkt n. fts_parse_status (rxbuf bus) = (Parsed pkt, n) \<Longrightarrow> P bus w"
    and "\<And>bus w e n. fts_parse_status (rxbuf bus) = (ParseErr e, n) \<Longrightarrow>
           P (rx_resync e n bus) w \<Longrightarrow> P bus w"
    and "\<And>bus w n t w1 f b w2. fts_parse_status (rxbuf bus) = (NeedMore, n) \<Longrightarrow>
           now_ms w = (t, w1) \<Longrightarrow> fill_rx bus deadline w1 = (f, b, w2) \<Longrightarrow>
           (t \<le> deadline \<Longrightarrow> f = FTS_OK \<Longrightarrow> P b w2) \<Longrightarrow> P bus w"
  shows "P bus w"
proof (induction "(bus, w)" arbitrary: bus w
    rule: wf_induct_rule [OF wf_measures, of "[\<lambda>(bus, w). length (tty_polls w), \<lambda>(bus, w). length (rxbuf bus)]"])
  case 1
  obtain r n where p: "fts_parse_status (rxbuf bus) = (r, n)" by (cases "fts_parse_status (rxbuf bus)")
  show ?case
  proof (cases r)
    case (Parsed pkt)
    then show ?thesis using p assms(1) by blast
  next
    case (ParseErr e)
    then have "P (rx_resync e n bus) w"
      using parse_err_shrinks [of bus e n] p by (intro 1) (simp add: rx_resync_def drop_rx_length)
    then show ?thesis using p ParseErr assms(2) by blast
  next
    case NeedMore
    obtain t w1 where t: "now_ms w = (t, w1)" by (cases "now_ms w")
    obtain f b w2 where f: "fill_rx bus deadline w1 = (f, b, w2)" by (cases "fill_rx bus deadline w1")
    have "P b w2" if "f = FTS_OK"
      using fill_rx_script [of bus deadline w1 b w2] f that now_ms_scripts [OF t] by (intro 1) simp
    then show ?thesis using p NeedMore t f assms(3) by blast
  qed
qed

lemma rx_loop_ext:
  "rx_loop bus i cap deadline w = (rc, out, bus', w') \<Longrightarrow> port_ext bus w bus' w'"
proof (induction bus w rule: rx_loop_rule [where deadline = deadline])
  case (Parsed bus w pkt n)
  then show ?case
    by (auto simp: rx_loop_Parsed rx_accept_def port_ext_def same_settings_def split: if_splits)
next
  case (Err bus w e n)
  have "port_ext bus w (rx_resync e n bus) w" by (auto simp: rx_resync_def port_ext_def same_settings_def)
  with Err show ?case by (auto simp: rx_loop_Err intro: port_ext_trans)
next
  case (More bus w n t w1 f b w2)
  have e: "port_ext bus w bus w1" "port_ext bus w b w2"
    using now_ms_ext [OF More(2)] fill_rx_ext [OF More(3)] by (auto intro: port_ext_trans port_ext_tty)
  then have "port_ext bus w (count_timeout bus) w1" "port_ext bus w (count_timeout b) w2"
    by (auto simp: port_ext_def same_settings_def)
  with e More show ?case
    by (auto simp: rx_loop_More [OF More(1-3)] split: if_splits intro: port_ext_trans)
qed

lemma rx_status_ext: "rx_status bus i cap w = (rc, out, bus', w') \<Longrightarrow> port_ext bus w bus' w'"
  by (auto simp: rx_status_def split: prod.splits dest!: now_ms_ext rx_loop_ext
      intro: port_ext_trans port_ext_tty)

lemma sync_read_loop_ext:
  "sync_read_loop bus ids k len out fe w = (rc, out', bus', w') \<Longrightarrow> port_ext bus w bus' w'"
proof (induction ids arbitrary: bus k out fe w)
  case Nil
  then show ?case by simp
next
  case (Cons i ids)
  obtain r got b w1 where r: "rx_status bus i len w = (r, got, b, w1)" by (cases "rx_status bus i len w")
  show ?case
    using Cons.prems Cons.IH r rx_status_ext [OF r]
    by (auto simp: Let_def split: if_splits intro: port_ext_trans)
qed

lemma fts_sync_read_ext: "fts_sync_read bus ids addr len out w = (rc, out', bus', w') \<Longrightarrow> port_ext bus w bus' w'"
  by (auto simp: fts_sync_read_def Let_def split: option.splits if_splits prod.splits
      dest!: tx_packet_ext sync_read_loop_ext intro: port_ext_trans)

lemma fts_sync_write_ext: "fts_sync_write bus ids addr len data w = (rc, bus', w') \<Longrightarrow> port_ext bus w bus' w'"
  by (auto simp: fts_sync_write_def Let_def split: option.splits if_splits dest!: tx_packet_ext)

lemma fts_ping_ext: "fts_ping bus sid w = (rc, bus', w') \<Longrightarrow> port_ext bus w bus' w'"
  by (auto simp: fts_ping_def Let_def split: if_splits prod.splits
      dest!: tx_packet_ext rx_status_ext intro: port_ext_trans)

lemma fts_read_ext: "fts_read bus sid addr out len w = (rc, out', bus', w') \<Longrightarrow> port_ext bus w bus' w'"
  by (auto simp: fts_read_def Let_def split: option.splits if_splits prod.splits
      dest!: tx_packet_ext rx_status_ext intro: port_ext_trans)

lemma fts_write_ext: "fts_write bus sid addr data len w = (rc, bus', w') \<Longrightarrow> port_ext bus w bus' w'"
  by (auto simp: fts_write_def Let_def split: option.splits if_splits prod.splits
      dest!: tx_packet_ext rx_status_ext intro: port_ext_trans)

section \<open>Transmission\<close>

text \<open>\<open>write_all\<close> puts a prefix of the packet on the wire, the whole packet exactly when it succeeds.\<close>

lemma write_all_wire:
  "write_all f buf w = (rc, w') \<Longrightarrow>
    \<exists>n\<le>length buf. tty_wire w' = tty_wire w @ take n buf \<and> (rc = FTS_OK \<longleftrightarrow> n = length buf) \<and>
      (rc = FTS_OK \<or> rc = FTS_ERR_IO)"
proof (induction f buf w rule: write_all.induct)
  case (1 f buf w)
  show ?case
  proof (cases "buf = []")
    case True
    then show ?thesis using "1.prems" by (simp add: write_all.simps)
  next
    case False
    obtain a w1 where s: "sys_write f buf w = (a, w1)" by (cases "sys_write f buf w")
    show ?thesis
    proof (cases a)
      case WriteEINTR
      then have "tty_wire w1 = tty_wire w"
        using s by (auto simp: sys_write_def split: if_splits list.splits write_ans.splits)
      then show ?thesis
        using "1.IH"(1) [OF False s [symmetric] WriteEINTR] "1.prems" False s WriteEINTR
        by (simp add: write_all.simps [of f buf w])
    next
      case WriteError
      then have "tty_wire w1 = tty_wire w"
        using s by (auto simp: sys_write_def split: if_splits list.splits write_ans.splits)
      then show ?thesis
        using "1.prems" False s WriteError
        by (auto simp: write_all.simps [of f buf w] intro: exI [of _ 0])
    next
      case (WriteBytes k)
      then have k: "k \<le> length buf" "tty_wire w1 = tty_wire w @ take k buf"
        using s by (auto simp: sys_write_def min_def split: if_splits list.splits write_ans.splits)
      obtain n where n: "n \<le> length buf - k" "tty_wire w' = tty_wire w1 @ take n (drop k buf)"
        "rc = FTS_OK \<longleftrightarrow> n = length buf - k" "rc = FTS_OK \<or> rc = FTS_ERR_IO"
        using "1.IH"(2) [OF False s [symmetric] WriteBytes] "1.prems" False s WriteBytes
        by (auto simp: write_all.simps [of f buf w])
      show ?thesis
        using n k by (intro exI [of _ "k + n"]) (auto simp: take_add)
    qed
  qed
qed

lemma write_all_scripts:
  "write_all f buf w = (rc, w') \<Longrightarrow> tty_reads w' = tty_reads w \<and> tty_polls w' = tty_polls w \<and>
     tty_ticks w' = tty_ticks w \<and> tty_now w' = tty_now w"
proof (induction f buf w rule: write_all.induct)
  case (1 f buf w)
  obtain a w1 where s: "sys_write f buf w = (a, w1)" by (cases "sys_write f buf w")
  then have "tty_reads w1 = tty_reads w \<and> tty_polls w1 = tty_polls w \<and>
      tty_ticks w1 = tty_ticks w \<and> tty_now w1 = tty_now w"
    by (auto simp: sys_write_def split: if_splits list.splits write_ans.splits)
  then show ?case
    using "1.prems" "1.IH" s
    by (auto simp: write_all.simps [of f buf w] split: if_splits write_ans.splits)
qed

text \<open>On a closed port nothing is sent, nothing is awaited and the call fails at once.\<close>

lemma tx_packet_closed:
  "fd bus < 0 \<Longrightarrow> pkt \<noteq> [] \<Longrightarrow> tx_packet bus pkt w = (FTS_ERR_IO, bus\<lparr>rxbuf := []\<rparr>, w)"
  by (simp add: tx_packet_def write_all.simps [of _ pkt] sys_write_def)

lemma fill_rx_wire: "fill_rx bus deadline w = (rc, bus', w') \<Longrightarrow> tty_wire w' = tty_wire w"
  by (erule fill_rx_cases)
    (auto simp: sys_poll_def sys_read_def Let_def dest!: now_ms_scripts
      split: if_splits list.splits read_ans.splits)

lemma echo_loop_wire: "echo_loop bus deadline len w = (rc, bus', w') \<Longrightarrow> tty_wire w' = tty_wire w"
proof (induction bus deadline len w rule: echo_loop.induct)
  case (1 bus deadline len w)
  obtain r b w1 where s: "fill_rx bus deadline w = (r, b, w1)" by (cases "fill_rx bus deadline w")
  show ?case
    using "1.prems" "1.IH" s fill_rx_wire [OF s]
    by (auto simp: echo_loop.simps [of bus deadline len w] split: if_splits)
qed

lemma rx_loop_wire: "rx_loop bus i cap deadline w = (rc, out, bus', w') \<Longrightarrow> tty_wire w' = tty_wire w"
proof (induction bus w rule: rx_loop_rule [where deadline = deadline])
  case (Parsed bus w pkt n)
  then show ?case by (auto simp: rx_loop_Parsed split: if_splits)
next
  case (Err bus w e n)
  then show ?case by (simp add: rx_loop_Err)
next
  case (More bus w n t w1 f b w2)
  then show ?case
    using now_ms_scripts [OF More(2)] fill_rx_wire [OF More(3)]
    by (auto simp: rx_loop_More [OF More(1-3)] split: if_splits)
qed

lemma rx_status_wire: "rx_status bus i cap w = (rc, out, bus', w') \<Longrightarrow> tty_wire w' = tty_wire w"
  by (auto simp: rx_status_def split: prod.splits dest!: now_ms_scripts rx_loop_wire)

lemma sync_read_loop_wire:
  "sync_read_loop bus ids k len out fe w = (rc, out', bus', w') \<Longrightarrow> tty_wire w' = tty_wire w"
proof (induction ids arbitrary: bus k out fe w)
  case Nil
  then show ?case by simp
next
  case (Cons i ids)
  obtain r got b w1 where r: "rx_status bus i len w = (r, got, b, w1)" by (cases "rx_status bus i len w")
  show ?case
    using Cons.prems Cons.IH r rx_status_wire [OF r] by (auto simp: Let_def split: if_splits)
qed

lemma tx_packet_wire:
  assumes "tx_packet bus pkt w = (rc, bus', w')"
  shows "\<exists>n\<le>length pkt. tty_wire w' = tty_wire w @ take n pkt \<and> (rc = FTS_OK \<longrightarrow> n = length pkt)"
proof -
  obtain r w1 where wr: "write_all (fd bus) pkt w = (r, w1)" by (cases "write_all (fd bus) pkt w")
  obtain t w2 where t: "now_ms w1 = (t, w2)" by (cases "now_ms w1")
  from assms have "tty_wire w' = tty_wire w1" "rc = FTS_OK \<longrightarrow> r = FTS_OK"
    using now_ms_scripts [OF t]
    by (auto simp: tx_packet_def wr t Let_def split: if_splits prod.splits dest!: echo_loop_wire)
  then show ?thesis using write_all_wire [OF wr] by auto
qed

lemma fts_sync_write_wire:
  assumes "fts_sync_write bus ids addr len data w = (FTS_OK, bus', w')"
  shows "\<exists>d. data = Some d \<and> ids \<noteq> [] \<and> len \<noteq> 0 \<and> tty_wire w' = tty_wire w @
    fts_build_packet FTS_BROADCAST_ID FTS_INST_SYNC_WRITE (sync_write_params ids addr len d)"
  using assms
  by (auto simp: fts_sync_write_def Let_def split: option.splits if_splits dest!: tx_packet_wire)

section \<open>Reception\<close>

text \<open>
  \<open>delivers w chunks\<close>: the next \<open>length chunks\<close> calls of \<open>poll\<close> report input and the reads
  return the given non-empty pieces; \<open>horizon\<close> is the time at which the clock script ends.
\<close>

definition delivers :: "tty \<Rightarrow> u8 list list \<Rightarrow> bool" where
  "delivers w chunks \<longleftrightarrow>
     (\<exists>rs. tty_reads w = map ReadBytes chunks @ rs) \<and>
     (\<exists>pes ps. length pes = length chunks \<and> tty_polls w = map (PollReady True) pes @ ps) \<and>
     (\<forall>c\<in>set chunks. c \<noteq> [])"

definition horizon :: "tty \<Rightarrow> int" where
  "horizon w = tty_now w + int (sum_list (tty_ticks w))"

lemma now_ms_horizon: "now_ms w = (t, w') \<Longrightarrow> horizon w' = horizon w \<and> t = tty_now w' \<and> t \<le> horizon w"
  by (auto simp: now_ms_def horizon_def split: list.splits)

lemma delivers_scripts:
  "tty_reads w' = tty_reads w \<Longrightarrow> tty_polls w' = tty_polls w \<Longrightarrow> delivers w' chunks = delivers w chunks"
  by (simp add: delivers_def)

lemma now_ms_delivers: "now_ms w = (t, w') \<Longrightarrow> delivers w' chunks = delivers w chunks"
  using now_ms_scripts [of w t w'] by (simp add: delivers_def)

lemma fill_rx_delivers:
  assumes "delivers w (c # chunks)" and "fd bus \<ge> 0"
    and "length (rxbuf bus) + length c \<le> FTS_RXBUF_SIZE"
  shows "\<exists>w'. fill_rx bus deadline w = (FTS_OK, bus\<lparr>rxbuf := rxbuf bus @ c\<rparr>, w') \<and>
    delivers w' chunks \<and> horizon w' = horizon w \<and> tty_now w \<le> tty_now w'"
proof -
  obtain t w1 where t: "now_ms w = (t, w1)" by (cases "now_ms w")
  have d1: "delivers w1 (c # chunks)"
    using assms(1) now_ms_delivers [OF t] by blast
  then have c: "c \<noteq> []" by (simp add: delivers_def)
  from d1 obtain rs pe pes ps where r: "tty_reads w1 = ReadBytes c # map ReadBytes chunks @ rs"
    and p: "tty_polls w1 = PollReady True pe # map (PollReady True) pes @ ps" "length pes = length chunks"
    by (auto simp: delivers_def length_Suc_conv)
  define w2 where "w2 = w1\<lparr>tty_waits := tty_waits w1 @ [poll_wait deadline t],
    tty_polls := map (PollReady True) pes @ ps\<rparr>"
  define w3 where "w3 = w2\<lparr>tty_reads := map ReadBytes chunks @ rs\<rparr>"
  have poll: "sys_poll (fd bus) (poll_wait deadline t) w1 = (PollReady True pe, w2)"
    using assms(2) p by (simp add: sys_poll_def w2_def)
  have room: "rx_room bus = bus"
    using assms(3) c by (cases c) (auto simp: rx_room_def)
  have rd: "sys_read (fd bus) (FTS_RXBUF_SIZE - length (rxbuf (rx_room bus))) w2 = (ReadBytes c, w3)"
    using assms(2,3) r by (simp add: sys_read_def room w2_def w3_def)
  have "fill_rx bus deadline w = (FTS_OK, bus\<lparr>rxbuf := rxbuf bus @ c\<rparr>, w3)"
    using fill_rx_ready [OF t poll _ rd] c by (simp add: room)
  moreover have "delivers w3 chunks"
    using d1 p(2) by (auto simp: delivers_def w3_def w2_def)
  moreover have "horizon w3 = horizon w \<and> tty_now w \<le> tty_now w3"
    using now_ms_horizon [OF t] now_ms_ext [OF t] by (simp add: w3_def w2_def horizon_def tty_ext_def)
  ultimately show ?thesis by blast
qed

text \<open>
  \<open>port_holds bus w chunks bs\<close>: the bytes not yet consumed, buffered or still to be delivered,
  are \<open>bs\<close>, and they fit the receive buffer.
\<close>

definition port_holds :: "fts_bus \<Rightarrow> tty \<Rightarrow> u8 list list \<Rightarrow> u8 list \<Rightarrow> bool" where
  "port_holds bus w chunks bs \<longleftrightarrow>
     rxbuf bus @ concat chunks = bs \<and> length bs \<le> FTS_RXBUF_SIZE \<and> delivers w chunks \<and> fd bus \<ge> 0"

lemma port_holds_fill:
  assumes "port_holds bus w (c # chunks) bs"
  shows "\<exists>w'. fill_rx bus deadline w = (FTS_OK, bus\<lparr>rxbuf := rxbuf bus @ c\<rparr>, w') \<and>
    port_holds (bus\<lparr>rxbuf := rxbuf bus @ c\<rparr>) w' chunks bs \<and> horizon w' = horizon w \<and>
    tty_now w \<le> tty_now w'"
  using assms fill_rx_delivers [of w c chunks bus deadline]
  by (auto simp: port_holds_def)

lemma port_holds_now:
  "now_ms w = (t, w') \<Longrightarrow> port_holds bus w' chunks bs = port_holds bus w chunks bs"
  by (simp add: port_holds_def now_ms_delivers)

lemma port_holds_drop:
  assumes "port_holds bus w chunks (xs @ bs)" and "length xs \<le> length (rxbuf bus)"
    and "rxbuf bus' = drop (length xs) (rxbuf bus)" and "fd bus' = fd bus"
  shows "port_holds bus' w chunks bs"
proof -
  have "drop (length xs) (rxbuf bus @ concat chunks) = bs"
    using assms(1) by (simp add: port_holds_def)
  then show ?thesis
    using assms by (auto simp: port_holds_def)
qed

lemma rxbuf_drop_rx: "rxbuf (drop_rx n bus) = drop n (rxbuf bus)"
  by (simp add: drop_rx_def)

lemma port_holds_prefix:
  assumes "port_holds bus w chunks (xs @ bs)" and "length (rxbuf bus) < length xs"
  shows "rxbuf bus = take (length (rxbuf bus)) xs \<and> chunks \<noteq> []"
proof -
  have e: "rxbuf bus @ concat chunks = xs @ bs" using assms(1) by (simp add: port_holds_def)
  then have "take (length (rxbuf bus)) (xs @ bs) = rxbuf bus" by (metis append_eq_conv_conj)
  moreover have "chunks \<noteq> []" using e assms(2) by auto
  ultimately show ?thesis using assms(2) by simp
qed

lemma echo_loop_holds:
  assumes "port_holds bus w chunks (xs @ bs)"
  shows "\<exists>bus' w' chunks'. echo_loop bus deadline (length xs) w = (FTS_OK, bus', w') \<and>
    port_holds bus' w' chunks' (xs @ bs) \<and> length xs \<le> length (rxbuf bus') \<and>
    horizon w' = horizon w \<and> tty_now w \<le> tty_now w' \<and> same_settings bus bus'"
  using assms
proof (induction chunks arbitrary: bus w)
  case Nil
  then have "length xs \<le> length (rxbuf bus)" by (auto simp: port_holds_def)
  with Nil show ?case by (auto simp: echo_loop.simps [of bus] same_settings_def)
next
  case (Cons c chunks)
  show ?case
  proof (cases "length (rxbuf bus) < length xs")
    case True
    obtain w1 where w1: "fill_rx bus deadline w = (FTS_OK, bus\<lparr>rxbuf := rxbuf bus @ c\<rparr>, w1)"
      "port_holds (bus\<lparr>rxbuf := rxbuf bus @ c\<rparr>) w1 chunks (xs @ bs)" "horizon w1 = horizon w"
      "tty_now w \<le> tty_now w1"
      using port_holds_fill [OF Cons.prems] by blast
    obtain b2 w2 chunks2 where e: "echo_loop (bus\<lparr>rxbuf := rxbuf bus @ c\<rparr>) deadline (length xs) w1 = (FTS_OK, b2, w2)"
      "port_holds b2 w2 chunks2 (xs @ bs)" "length xs \<le> length (rxbuf b2)" "horizon w2 = horizon w1"
      "tty_now w1 \<le> tty_now w2" "same_settings (bus\<lparr>rxbuf := rxbuf bus @ c\<rparr>) b2"
      using Cons.IH [OF w1(2)] by blast
    have "echo_loop bus deadline (length xs) w = (FTS_OK, b2, w2)"
      using True w1(1) e(1) by (simp add: echo_loop.simps [of bus])
    moreover have "same_settings bus b2" using e(6) by (simp add: same_settings_def)
    ultimately show ?thesis
      using e(2-5) w1(3,4) by (intro exI [of _ b2] exI [of _ w2] exI [of _ chunks2]) simp
  next
    case False
    then show ?thesis
      using Cons.prems by (auto simp: echo_loop.simps [of bus] same_settings_def)
  qed
qed

text \<open>
  The next frame of the stream, from the expected servo, is received whole, however it is cut
  into pieces, as long as the clock does not pass the deadline; the rest stays in the stream.
\<close>

lemma rx_loop_buffered:
  assumes "port_holds bus w chunks (frame i err data @ bs)" and "frame_ok i data"
    and "rxbuf bus = frame i err data @ ys"
  shows "\<exists>bus'. rx_loop bus i cap deadline w = (FTS_OK, take cap data, bus', w) \<and>
    port_holds bus' w chunks bs \<and> last_servo_error bus' = err \<and> same_settings bus bus'"
proof -
  define b where "b = rx_accept \<lparr>pkt_id = i, pkt_error = err, pkt_data = data\<rparr> (length data + 6) bus"
  have "rx_loop bus i cap deadline w = (FTS_OK, take cap data, b, w)"
    using parse_frame [OF assms(2), of err ys] by (simp add: rx_loop_Parsed assms(3) b_def)
  moreover have "rxbuf b = drop (length (frame i err data)) (rxbuf bus)"
    by (simp add: b_def rx_accept_def rxbuf_drop_rx)
  then have "port_holds b w chunks bs"
    by (intro port_holds_drop [OF assms(1)]) (simp_all add: assms(3) b_def rx_accept_def)
  moreover have "last_servo_error b = err" "same_settings bus b"
    by (simp_all add: b_def rx_accept_def same_settings_def bus_update_defs)
  ultimately show ?thesis by blast
qed

lemma rx_loop_holds:
  assumes "port_holds bus w chunks (frame i err data @ bs)" and "frame_ok i data"
    and "horizon w \<le> deadline"
  shows "\<exists>bus' w' chunks'. rx_loop bus i cap deadline w = (FTS_OK, take cap data, bus', w') \<and>
    port_holds bus' w' chunks' bs \<and> last_servo_error bus' = err \<and>
    horizon w' = horizon w \<and> tty_now w \<le> tty_now w' \<and> same_settings bus bus'"
  using assms(1,3)
proof (induction chunks arbitrary: bus w)
  case Nil
  then have "rxbuf bus = frame i err data @ bs" by (simp add: port_holds_def)
  from rx_loop_buffered [OF Nil.prems(1) assms(2) this] show ?case by blast
next
  case (Cons c chunks)
  show ?case
  proof (cases "length (rxbuf bus) < length (frame i err data)")
    case False
    then obtain ys where "rxbuf bus = frame i err data @ ys"
      using Cons.prems(1) unfolding port_holds_def
      by (metis append_eq_append_conv_if append_take_drop_id linorder_not_less)
    from rx_loop_buffered [OF Cons.prems(1) assms(2) this] show ?thesis by blast
  next
    case True
    have more: "fts_parse_status (rxbuf bus) = (NeedMore, 0)"
      using port_holds_prefix [OF Cons.prems(1) True] parse_prefix [OF assms(2) True] by metis
    obtain t w1 where t: "now_ms w = (t, w1)" by (cases "now_ms w")
    have "port_holds bus w1 (c # chunks) (frame i err data @ bs)"
      using Cons.prems(1) port_holds_now [OF t] by blast
    from port_holds_fill [OF this] obtain w2 where
      w2: "fill_rx bus deadline w1 = (FTS_OK, bus\<lparr>rxbuf := rxbuf bus @ c\<rparr>, w2)"
      "port_holds (bus\<lparr>rxbuf := rxbuf bus @ c\<rparr>) w2 chunks (frame i err data @ bs)"
      "horizon w2 = horizon w1" "tty_now w1 \<le> tty_now w2" by blast
    have h: "horizon w1 = horizon w" "t \<le> deadline" "tty_now w \<le> tty_now w1"
      using now_ms_horizon [OF t] now_ms_ext [OF t] Cons.prems(2) by (auto simp: tty_ext_def)
    have step: "rx_loop bus i cap deadline w = rx_loop (bus\<lparr>rxbuf := rxbuf bus @ c\<rparr>) i cap deadline w2"
      using rx_loop_More [OF more t w2(1)] h(2) by simp
    have "horizon w2 \<le> deadline" using Cons.prems(2) w2(3) h by simp
    from Cons.IH [OF w2(2) this] show ?thesis
      using w2(3,4) h by (auto simp: step same_settings_def)
  qed
qed

lemma rx_status_holds:
  assumes "port_holds bus w chunks (frame i err data @ bs)" and "frame_ok i data"
    and "horizon w \<le> tty_now w + timeout_ms bus"
  shows "\<exists>bus' w' chunks'. rx_status bus i cap w = (FTS_OK, take cap data, bus', w') \<and>
    port_holds bus' w' chunks' bs \<and> last_servo_error bus' = err \<and>
    horizon w' \<le> tty_now w' + timeout_ms bus' \<and> same_settings bus bus'"
proof -
  obtain t w1 where t: "now_ms w = (t, w1)" by (cases "now_ms w")
  have h: "horizon w1 \<le> t + timeout_ms bus" "t = tty_now w1"
    using now_ms_horizon [OF t] now_ms_ext [OF t] assms(3) by (auto simp: tty_ext_def)
  have "port_holds bus w1 chunks (frame i err data @ bs)"
    using assms(1) port_holds_now [OF t] by blast
  from rx_loop_holds [OF this assms(2) h(1), of cap] show ?thesis
    using h by (fastforce simp: rx_status_def t same_settings_def)
qed

text \<open>A reply of a servo: identifier, error byte and data.\<close>

type_synonym reply = "u8 \<times> u8 \<times> u8 list"

definition reply_frames :: "reply list \<Rightarrow> u8 list" where
  "reply_frames rs = concat (map (\<lambda>(i, err, data). frame i err data) rs)"

definition reply_data :: "reply list \<Rightarrow> u8 list" where
  "reply_data rs = concat (map (\<lambda>(i, err, data). data) rs)"

definition replies_ok :: "nat \<Rightarrow> u8 list \<Rightarrow> reply list \<Rightarrow> bool" where
  "replies_ok len ids rs \<longleftrightarrow>
     map fst rs = ids \<and> (\<forall>(i, err, data)\<in>set rs. frame_ok i data \<and> length data = len)"

lemma length_reply_data: "replies_ok len ids rs \<Longrightarrow> length (reply_data rs) = length ids * len"
  by (induction rs arbitrary: ids) (auto simp: replies_ok_def reply_data_def)

lemma sync_read_loop_holds:
  assumes "port_holds bus w chunks (reply_frames rs @ bs)" and "replies_ok len ids rs"
    and "horizon w \<le> tty_now w + timeout_ms bus" and "length out = (k + length ids) * len"
  shows "\<exists>bus' w' chunks'. sync_read_loop bus ids k len out FTS_OK w =
      (FTS_OK, take (k * len) out @ reply_data rs, bus', w') \<and>
    port_holds bus' w' chunks' bs \<and> same_settings bus bus'"
  using assms
proof (induction rs arbitrary: bus w chunks ids k out)
  case Nil
  then show ?case
    by (auto simp: replies_ok_def reply_frames_def reply_data_def same_settings_def)
next
  case (Cons r rs)
  obtain i err data where r: "r = (i, err, data)" by (cases r)
  obtain ids' where ids: "ids = i # ids'" and ok: "replies_ok len ids' rs" "frame_ok i data" "length data = len"
    using Cons.prems(2) by (auto simp: replies_ok_def r)
  have "port_holds bus w chunks (frame i err data @ reply_frames rs @ bs)"
    using Cons.prems(1) by (simp add: reply_frames_def r)
  from rx_status_holds [OF this ok(2) Cons.prems(3), of len] obtain b1 w1 c1 where
    rx: "rx_status bus i len w = (FTS_OK, data, b1, w1)"
    and h1: "port_holds b1 w1 c1 (reply_frames rs @ bs)" "horizon w1 \<le> tty_now w1 + timeout_ms b1"
      "same_settings bus b1"
    using ok(3) by auto
  let ?out = "buf_write (k * len) data out"
  have out: "?out = take (k * len) out @ data @ drop (Suc k * len) out" "length ?out = (Suc k + length ids') * len"
    using Cons.prems(4) ok(3) by (simp_all add: buf_write_def ids algebra_simps)
  have "k * len \<le> length out" using Cons.prems(4) by (simp add: algebra_simps)
  then have "take (Suc k * len) ?out = take (k * len) out @ data"
    using ok(3) by (simp add: out(1))
  then show ?case
    using Cons.IH [OF h1(1) ok(1) h1(2) out(2)] rx ok(3) h1(3)
    by (fastforce simp: ids Let_def reply_data_def r same_settings_def)
qed

end
