(* ===== verification/Feetech_Bus_Stream.thy ===== *)
theory Feetech_Bus_Stream
  imports Feetech_Bus_Lemmas "HOL-Library.Sublist"
begin

text \<open>
  The bus layer against the byte stream of the port: what an operation that reports success has
  really received (soundness), that a conforming servo is heard however the kernel cuts the
  stream (delivery), how long the driver waits, and the life of the descriptor.
\<close>

section \<open>The input stream\<close>

text \<open>
  \<open>stream bus w\<close> are the bytes buffered or still to be read. No operation invents a byte or
  reorders the stream: each one drops a prefix of it.
\<close>

definition inputs :: "tty \<Rightarrow> u8 list" where
  "inputs w = concat (map (\<lambda>a. case a of ReadBytes bs \<Rightarrow> bs | _ \<Rightarrow> []) (tty_reads w))"

definition stream :: "fts_bus \<Rightarrow> tty \<Rightarrow> u8 list" where
  "stream bus w = rxbuf bus @ inputs w"

lemma now_ms_inputs: "now_ms w = (t, w') \<Longrightarrow> inputs w' = inputs w"
  using now_ms_scripts [of w t w'] by (simp add: inputs_def)

lemma sys_poll_inputs: "sys_poll f t w = (a, w') \<Longrightarrow> inputs w' = inputs w"
  by (auto simp: sys_poll_def inputs_def Let_def split: if_splits list.splits)

lemma sys_read_inputs:
  "sys_read f cap w = (a, w') \<Longrightarrow>
    inputs w = (case a of ReadBytes bs \<Rightarrow> bs | _ \<Rightarrow> []) @ inputs w'"
  by (auto simp: sys_read_def inputs_def split: if_splits list.splits read_ans.splits)

lemma suffix_room: "suffix (stream (rx_room bus) w) (stream bus w)"
  by (auto simp: stream_def rx_room_def suffix_def)

lemma stream_drop: "suffix (stream (drop_rx n bus) w) (stream bus w)"
  by (simp add: stream_def rxbuf_drop_rx suffix_drop)

lemma fill_rx_stream:
  assumes "fill_rx bus deadline w = (rc, bus', w')"
  shows "suffix (stream bus' w') (stream bus w)"
  using assms
proof (cases rule: fill_rx_cases)
  case 1
  then show ?thesis by (auto simp: stream_def dest!: now_ms_inputs sys_poll_inputs)
next
  case (2 t w1 pi pe w2 bs)
  then have "stream bus' w' = stream (rx_room bus) w"
    by (auto simp: stream_def dest!: now_ms_inputs sys_poll_inputs sys_read_inputs)
  then show ?thesis using suffix_room by simp
next
  case (3 t w1 pi pe w2 d)
  then have "stream bus' w' = stream (rx_room bus) w"
    by (cases d) (auto simp: stream_def dest!: now_ms_inputs sys_poll_inputs sys_read_inputs)
  then show ?thesis using suffix_room by simp
qed

lemma echo_loop_stream:
  "echo_loop bus deadline len w = (rc, bus', w') \<Longrightarrow> suffix (stream bus' w') (stream bus w)"
proof (induction bus deadline len w rule: echo_loop.induct)
  case (1 bus deadline len w)
  obtain r b w1 where s: "fill_rx bus deadline w = (r, b, w1)" by (cases "fill_rx bus deadline w")
  show ?case
    using "1.prems" "1.IH" s fill_rx_stream [OF s]
    by (auto simp: echo_loop.simps [of bus deadline len w] split: if_splits intro: suffix_order.trans)
qed

lemma write_all_inputs: "write_all f buf w = (rc, w') \<Longrightarrow> inputs w' = inputs w"
  using write_all_scripts [of f buf w rc w'] by (simp add: inputs_def)

lemma tx_packet_stream:
  assumes "tx_packet bus pkt w = (rc, bus', w')"
  shows "suffix (stream bus' w') (inputs w)"
proof -
  let ?c = "count_tx (bus\<lparr>rxbuf := []\<rparr>)"
  obtain r w1 where wr: "write_all (fd bus) pkt w = (r, w1)" by (cases "write_all (fd bus) pkt w")
  obtain t w2 where t: "now_ms w1 = (t, w2)" by (cases "now_ms w1")
  obtain e b2 w3 where el: "echo_loop ?c (t + timeout_ms bus) (length pkt) w2 = (e, b2, w3)"
    by (cases "echo_loop ?c (t + timeout_ms bus) (length pkt) w2")
  have i: "inputs w1 = inputs w" "inputs w2 = inputs w"
    using write_all_inputs [OF wr] now_ms_inputs [OF t] by simp_all
  have s: "suffix (stream b2 w3) (inputs w)"
    using echo_loop_stream [OF el] i by (simp add: stream_def)
  have "suffix (stream (drop_rx (length pkt) b2) w3) (inputs w)"
    using stream_drop s by (rule suffix_order.trans)
  with s i assms show ?thesis
    by (auto simp: tx_packet_def wr t el Let_def stream_def split: if_splits)
qed

text \<open>
  \<open>heard s i err data s'\<close>: the stream \<open>s\<close> holds a well-formed frame in one piece and \<open>s'\<close> is
  exactly what follows it.
\<close>

definition heard :: "u8 list \<Rightarrow> u8 \<Rightarrow> u8 \<Rightarrow> u8 list \<Rightarrow> u8 list \<Rightarrow> bool" where
  "heard s i err data s' \<longleftrightarrow> frame_ok i data \<and> suffix (frame i err data @ s') s"

lemma heard_suffix: "suffix s0 s \<Longrightarrow> heard s0 i err data s' \<Longrightarrow> heard s i err data s'"
  by (auto simp: heard_def intro: suffix_order.trans)

lemma rx_loop_sound:
  "rx_loop bus i cap deadline w = (FTS_OK, out, bus', w') \<Longrightarrow>
    \<exists>data. heard (stream bus w) i (last_servo_error bus') data (stream bus' w') \<and> out = take cap data"
proof (induction bus w rule: rx_loop_rule [where deadline = deadline])
  case (Parsed bus w pkt n)
  then have id: "pkt_id pkt = i" "out = take cap (pkt_data pkt)" "bus' = rx_accept pkt n bus" "w' = w"
    by (auto simp: rx_loop_Parsed split: if_splits)
  obtain junk rest where p: "rxbuf bus = junk @ frame i (pkt_error pkt) (pkt_data pkt) @ rest"
    "n = length junk + length (pkt_data pkt) + 6" "frame_ok i (pkt_data pkt)"
    using parse_status_Parsed [OF Parsed(1)] id by auto
  have "rxbuf bus' = rest"
    by (simp add: id rx_accept_def rxbuf_drop_rx p(1,2))
  moreover have "last_servo_error bus' = pkt_error pkt"
    by (simp add: id rx_accept_def bus_update_defs)
  ultimately show ?case using p id by (auto simp: stream_def heard_def suffix_def)
next
  case (Err bus w e n)
  have "suffix (stream (rx_resync e n bus) w) (stream bus w)"
    by (simp add: rx_resync_def stream_def rxbuf_drop_rx suffix_drop)
  with Err show ?case by (auto simp: rx_loop_Err intro: heard_suffix)
next
  case (More bus w n t w1 f b w2)
  have "suffix (stream b w2) (stream bus w)"
    using fill_rx_stream [OF More(3)] now_ms_inputs [OF More(2)] by (simp add: stream_def)
  with More show ?case
    by (auto simp: rx_loop_More [OF More(1-3)] split: if_splits intro: heard_suffix)
qed

lemma rx_status_sound:
  assumes "rx_status bus i cap w = (FTS_OK, out, bus', w')"
  shows "\<exists>data. heard (stream bus w) i (last_servo_error bus') data (stream bus' w') \<and> out = take cap data"
proof -
  obtain t w1 where t: "now_ms w = (t, w1)" by (cases "now_ms w")
  then have "stream bus w1 = stream bus w" using now_ms_inputs [OF t] by (simp add: stream_def)
  then show ?thesis
    using assms rx_loop_sound [of bus i cap "tty_now w1 + timeout_ms bus" w1 out bus' w']
      now_ms_ext [OF t] by (simp add: rx_status_def t)
qed

text \<open>\<open>heard_all s rs\<close>: the stream \<open>s\<close> holds the replies \<open>rs\<close>, each in one piece and in this order.\<close>

fun heard_all :: "u8 list \<Rightarrow> reply list \<Rightarrow> bool" where
  "heard_all s [] = True"
| "heard_all s ((i, err, data) # rs) = (\<exists>s'. heard s i err data s' \<and> heard_all s' rs)"

lemma heard_all_suffix: "suffix s0 s \<Longrightarrow> heard_all s0 rs \<Longrightarrow> heard_all s rs"
  by (cases rs) (auto, blast intro: heard_suffix)

lemma sync_read_loop_err:
  "sync_read_loop bus ids k len out fe w = (FTS_OK, out', bus', w') \<Longrightarrow> fe = FTS_OK"
  by (induction ids arbitrary: bus k out fe w) (auto simp: Let_def split: prod.splits if_splits)

lemma sync_read_loop_sound:
  assumes "sync_read_loop bus ids k len out FTS_OK w = (FTS_OK, out', bus', w')"
    and "length out = (k + length ids) * len"
  shows "\<exists>rs. map fst rs = ids \<and> heard_all (stream bus w) rs \<and>
    (\<forall>(i, err, data)\<in>set rs. len \<le> length data) \<and>
    out' = take (k * len) out @ concat (map (\<lambda>(i, err, data). take len data) rs)"
  using assms
proof (induction ids arbitrary: bus k out w)
  case Nil
  then show ?case by simp
next
  case (Cons i ids)
  obtain r got b w1 where r: "rx_status bus i len w = (r, got, b, w1)" by (cases "rx_status bus i len w")
  let ?out = "buf_write (k * len) got out"
  from Cons.prems(1) have rg: "r = FTS_OK" "length got = len"
    and rest: "sync_read_loop b ids (Suc k) len ?out FTS_OK w1 = (FTS_OK, out', bus', w')"
    by (auto simp: r Let_def split: if_splits dest: sync_read_loop_err)
  obtain data where d: "heard (stream bus w) i (last_servo_error b) data (stream b w1)" "got = take len data"
    using rx_status_sound r rg by blast
  have ld: "len \<le> length data" using rg(2) d(2) by simp
  have kl: "k * len \<le> length out" "length ?out = (Suc k + length ids) * len"
    using Cons.prems(2) rg(2) by (simp_all add: algebra_simps)
  then have tk: "take (Suc k * len) ?out = take (k * len) out @ got"
    using rg(2) by (simp add: buf_write_def)
  obtain rs where rs: "map fst rs = ids" "heard_all (stream b w1) rs"
    "\<forall>(i, err, data)\<in>set rs. len \<le> length data"
    "out' = take (Suc k * len) ?out @ concat (map (\<lambda>(i, err, data). take len data) rs)"
    using Cons.IH [OF rest kl(2)] by blast
  show ?case
    using rs d ld tk by (intro exI [of _ "(i, last_servo_error b, data) # rs"]) auto
qed

lemma length_sync_write_params:
  assumes "length data = length ids * unat len"
  shows "length (sync_write_params ids addr len data) = 2 + length ids * (unat len + 1)"
proof -
  have "map length (map (\<lambda>k. ids ! k # take (unat len) (drop (k * unat len) data)) [0..<length ids]) =
      map (\<lambda>k. unat len + 1) [0..<length ids]"
    using slice_bound [of _ "length ids" "unat len"] assms by (auto simp: min_def) fastforce
  then show ?thesis by (simp add: sync_write_params_def length_concat sum_list_triv del: map_map)
qed

section \<open>Delivery\<close>

text \<open>\<open>accepts ws n\<close>: the write script takes \<open>n\<close> bytes, in any pieces and with any interruptions, before it fails.\<close>

fun accepts :: "write_ans list \<Rightarrow> nat \<Rightarrow> bool" where
  "accepts ws 0 = True"
| "accepts [] (Suc n) = False"
| "accepts (WriteEINTR # ws) (Suc n) = accepts ws (Suc n)"
| "accepts (WriteError # ws) (Suc n) = False"
| "accepts (WriteBytes k # ws) (Suc n) = accepts ws (Suc n - k)"

lemma write_all_accepts:
  "f \<ge> 0 \<Longrightarrow> (fst (write_all f buf w) = FTS_OK) = accepts (tty_writes w) (length buf)"
proof (induction f buf w rule: write_all.induct)
  case (1 f buf w)
  show ?case
  proof (cases "buf = [] \<or> tty_writes w = []")
    case True
    then show ?thesis
      using "1.prems" by (cases buf) (auto simp: write_all.simps [of f _ w] sys_write_def)
  next
    case False
    then obtain a as b bs where ab: "tty_writes w = a # as" "buf = b # bs" by (meson neq_Nil_conv)
    show ?thesis
    proof (cases a)
      case (WriteBytes k)
      then have s: "sys_write f buf w = (WriteBytes (min k (length buf)),
          w\<lparr>tty_writes := as, tty_wire := tty_wire w @ take k buf\<rparr>)"
        using "1.prems" ab by (simp add: sys_write_def)
      have "length buf - min k (length buf) = length buf - k" by simp
      then show ?thesis
        using "1.IH"(2) [OF _ s [symmetric] refl "1.prems"] ab WriteBytes s
        by (simp add: write_all.simps [of f _ w])
    qed (use "1.prems" "1.IH"(1) ab in
        \<open>auto simp: write_all.simps [of f _ w] sys_write_def\<close>)
  qed
qed

lemma tx_packet_holds:
  assumes "fd bus \<ge> 0" and "accepts (tty_writes w) (length pkt)"
    and "delivers w chunks" and "concat chunks = (if echo bus then pkt else []) @ bs"
    and "length (concat chunks) \<le> FTS_RXBUF_SIZE" and "horizon w \<le> tty_now w + timeout_ms bus"
  shows "\<exists>bus' w' chunks'. tx_packet bus pkt w = (FTS_OK, bus', w') \<and> port_holds bus' w' chunks' bs \<and>
    same_settings bus bus' \<and> horizon w' \<le> tty_now w' + timeout_ms bus' \<and>
    tty_wire w' = tty_wire w @ pkt"
proof -
  let ?c = "count_tx (bus\<lparr>rxbuf := []\<rparr>)"
  obtain r w1 where wr: "write_all (fd bus) pkt w = (r, w1)" by (cases "write_all (fd bus) pkt w")
  have r: "r = FTS_OK" using write_all_accepts [OF assms(1), of pkt w] assms(2) wr by simp
  have same: "tty_reads w1 = tty_reads w" "tty_polls w1 = tty_polls w" "horizon w1 = horizon w"
    "tty_now w1 = tty_now w"
    using write_all_scripts [OF wr] by (simp_all add: horizon_def)
  have p1: "port_holds ?c w1 chunks ((if echo bus then pkt else []) @ bs)"
    using assms(1,3-5) delivers_scripts [OF same(1,2)] by (simp add: port_holds_def)
  show ?thesis
  proof (cases "echo bus")
    case False
    then have "tx_packet bus pkt w = (FTS_OK, ?c, w1)" by (simp add: tx_packet_def wr r Let_def)
    moreover have "tty_wire w1 = tty_wire w @ pkt" using write_all_wire [OF wr] r by auto
    moreover have "same_settings bus ?c" by (simp add: same_settings_def)
    ultimately show ?thesis
      using p1 False assms(6) same by (auto simp del: bus_fields simp: same_settings_def)
  next
    case True
    obtain t w2 where t: "now_ms w1 = (t, w2)" by (cases "now_ms w1")
    have "port_holds ?c w2 chunks (pkt @ bs)" using p1 True port_holds_now [OF t] by simp
    from echo_loop_holds [OF this, of "t + timeout_ms bus"] obtain b w3 chunks3 where
      e: "echo_loop ?c (t + timeout_ms bus) (length pkt) w2 = (FTS_OK, b, w3)"
      and b: "port_holds b w3 chunks3 (pkt @ bs)" "length pkt \<le> length (rxbuf b)"
        "horizon w3 = horizon w2" "tty_now w2 \<le> tty_now w3" "same_settings ?c b" by blast
    have "tx_packet bus pkt w = (FTS_OK, drop_rx (length pkt) b, w3)"
      using True e by (simp add: tx_packet_def wr r t Let_def)
    moreover have "port_holds (drop_rx (length pkt) b) w3 chunks3 bs"
      by (rule port_holds_drop [OF b(1,2)]) (simp_all add: rxbuf_drop_rx)
    moreover have "same_settings bus (drop_rx (length pkt) b)"
      using b(5) by (simp add: same_settings_def)
    moreover have "horizon w3 \<le> tty_now w3 + timeout_ms (drop_rx (length pkt) b)"
      using b(3-5) now_ms_horizon [OF t] now_ms_ext [OF t] same assms(6)
      by (simp add: same_settings_def tty_ext_def)
    moreover have "tty_wire w3 = tty_wire w @ pkt" using tx_packet_wire [OF calculation(1)] by auto
    ultimately show ?thesis by blast
  qed
qed

section \<open>Waiting\<close>

text \<open>\<open>waits_in lo hi w w'\<close>: every wait between \<open>w\<close> and \<open>w'\<close> was given a time in \<open>lo..hi\<close>.\<close>

definition waits_in :: "int \<Rightarrow> int \<Rightarrow> tty \<Rightarrow> tty \<Rightarrow> bool" where
  "waits_in lo hi w w' \<longleftrightarrow> (\<exists>ts. tty_waits w' = tty_waits w @ ts \<and> set ts \<subseteq> {lo..hi})"

lemma waits_in_refl: "tty_waits w' = tty_waits w \<Longrightarrow> waits_in lo hi w w'"
  by (simp add: waits_in_def)

lemma waits_in_trans: "waits_in lo hi w w' \<Longrightarrow> waits_in lo hi w' w'' \<Longrightarrow> waits_in lo hi w w''"
  by (auto simp: waits_in_def)

lemma now_ms_waits: "now_ms w = (t, w') \<Longrightarrow> tty_waits w' = tty_waits w"
  by (auto simp: now_ms_def split: list.splits)

lemma sys_poll_waits: "sys_poll f t w = (a, w') \<Longrightarrow> tty_waits w' = tty_waits w @ [t]"
  by (auto simp: sys_poll_def Let_def split: if_splits list.splits)

lemma sys_read_waits: "sys_read f cap w = (a, w') \<Longrightarrow> tty_waits w' = tty_waits w"
  by (auto simp: sys_read_def split: if_splits list.splits read_ans.splits)

lemma write_all_waits: "write_all f buf w = (rc, w') \<Longrightarrow> tty_waits w' = tty_waits w"
proof (induction f buf w rule: write_all.induct)
  case (1 f buf w)
  obtain a w1 where s: "sys_write f buf w = (a, w1)" by (cases "sys_write f buf w")
  then have "tty_waits w1 = tty_waits w"
    by (auto simp: sys_write_def split: if_splits list.splits write_ans.splits)
  then show ?case
    using "1.prems" "1.IH" s
    by (auto simp: write_all.simps [of f buf w] split: if_splits write_ans.splits)
qed

lemma poll_wait_bounds: "d \<le> t + n \<Longrightarrow> 0 \<le> n \<Longrightarrow> 0 \<le> poll_wait d t \<and> poll_wait d t \<le> n"
  by (auto simp: poll_wait_def Let_def)

lemma fill_rx_waits:
  assumes "fill_rx bus deadline w = (rc, bus', w')" and "deadline \<le> tty_now w + n" and "0 \<le> n"
  shows "waits_in 0 n w w'"
proof -
  obtain t w1 where t: "now_ms w = (t, w1)" by (cases "now_ms w")
  have "tty_waits w' = tty_waits w @ [poll_wait deadline t]"
    using assms(1)
    by (cases rule: fill_rx_cases) (use t in \<open>auto dest!: now_ms_waits sys_poll_waits sys_read_waits\<close>)
  moreover have "deadline \<le> t + n" using now_ms_ext [OF t] assms(2) by (auto simp: tty_ext_def)
  ultimately show ?thesis using poll_wait_bounds [of deadline t n] assms(3) by (simp add: waits_in_def)
qed

lemma echo_loop_waits:
  "echo_loop bus deadline len w = (rc, bus', w') \<Longrightarrow> deadline \<le> tty_now w + n \<Longrightarrow> 0 \<le> n \<Longrightarrow>
    waits_in 0 n w w'"
proof (induction bus deadline len w rule: echo_loop.induct)
  case (1 bus deadline len w)
  obtain r b w1 where s: "fill_rx bus deadline w = (r, b, w1)" by (cases "fill_rx bus deadline w")
  have "waits_in 0 n w w1" "deadline \<le> tty_now w1 + n"
    using fill_rx_waits [OF s "1.prems"(2,3)] fill_rx_ext [OF s] "1.prems"(2)
    by (auto simp: port_ext_def tty_ext_def)
  then show ?case
    using "1.prems" "1.IH" s
    by (auto simp: echo_loop.simps [of bus deadline len w] split: if_splits
        intro: waits_in_refl waits_in_trans)
qed

lemma tx_packet_waits:
  assumes "tx_packet bus pkt w = (rc, bus', w')" and "0 \<le> timeout_ms bus"
  shows "waits_in 0 (timeout_ms bus) w w'"
proof -
  let ?c = "count_tx (bus\<lparr>rxbuf := []\<rparr>)"
  obtain r w1 where wr: "write_all (fd bus) pkt w = (r, w1)" by (cases "write_all (fd bus) pkt w")
  obtain t w2 where t: "now_ms w1 = (t, w2)" by (cases "now_ms w1")
  obtain e b2 w3 where el: "echo_loop ?c (t + timeout_ms bus) (length pkt) w2 = (e, b2, w3)"
    by (cases "echo_loop ?c (t + timeout_ms bus) (length pkt) w2")
  have i: "tty_waits w1 = tty_waits w" "tty_waits w2 = tty_waits w" "t = tty_now w2"
    using write_all_waits [OF wr] now_ms_waits [OF t] now_ms_ext [OF t] by simp_all
  have "waits_in 0 (timeout_ms bus) w2 w3"
    using echo_loop_waits [OF el] assms(2) i by simp
  with i(1,2) assms show ?thesis
    by (auto simp: tx_packet_def wr t el Let_def waits_in_def split: if_splits)
qed

lemma rx_loop_waits:
  "rx_loop bus i cap deadline w = (rc, out, bus', w') \<Longrightarrow> deadline \<le> tty_now w + n \<Longrightarrow> 0 \<le> n \<Longrightarrow>
    waits_in 0 n w w'"
proof (induction bus w rule: rx_loop_rule [where deadline = deadline])
  case (Parsed bus w pkt n)
  then show ?case by (auto simp: rx_loop_Parsed split: if_splits intro: waits_in_refl)
next
  case (Err bus w e n)
  then show ?case by (simp add: rx_loop_Err)
next
  case (More bus w k t w1 f b w2)
  have d: "deadline \<le> tty_now w1 + n" "deadline \<le> tty_now w2 + n" "waits_in 0 n w w1"
    using now_ms_ext [OF More(2)] fill_rx_ext [OF More(3)] now_ms_waits [OF More(2)] More.prems(2)
    by (auto simp: port_ext_def tty_ext_def waits_in_refl)
  then have "waits_in 0 n w w2"
    using fill_rx_waits [OF More(3) d(1) More.prems(3)] by (blast intro: waits_in_trans)
  with d More show ?case
    by (auto simp: rx_loop_More [OF More(1-3)] split: if_splits intro: waits_in_trans)
qed

lemma rx_status_waits:
  assumes "rx_status bus i cap w = (rc, out, bus', w')" and "0 \<le> timeout_ms bus"
  shows "waits_in 0 (timeout_ms bus) w w'"
proof -
  obtain t w1 where t: "now_ms w = (t, w1)" by (cases "now_ms w")
  have "waits_in 0 (timeout_ms bus) w1 w'"
    using assms now_ms_ext [OF t]
    by (intro rx_loop_waits [of bus i cap "t + timeout_ms bus" w1 rc out bus' w'])
      (simp_all add: rx_status_def t)
  then show ?thesis using now_ms_waits [OF t] by (simp add: waits_in_def)
qed

lemma sync_read_loop_waits:
  "sync_read_loop bus ids k len out fe w = (rc, out', bus', w') \<Longrightarrow> timeout_ms bus = n \<Longrightarrow> 0 \<le> n \<Longrightarrow>
    waits_in 0 n w w'"
proof (induction ids arbitrary: bus k out fe w)
  case Nil
  then show ?case by (simp add: waits_in_refl)
next
  case (Cons i ids)
  obtain r got b w1 where r: "rx_status bus i len w = (r, got, b, w1)" by (cases "rx_status bus i len w")
  have w1: "waits_in 0 n w w1" "timeout_ms b = n"
    using rx_status_waits [OF r] rx_status_ext [OF r] Cons.prems(2,3)
    by (simp_all add: port_ext_def same_settings_def)
  show ?case
    using Cons.prems(1,3) Cons.IH w1 by (auto simp: r Let_def split: if_splits intro: waits_in_trans)
qed

end
