(* ===== verification/Feetech_Props.thy ===== *)
theory Feetech_Props
  imports Feetech_Bus_Stream
begin

text \<open>
  The properties of the servo driver, \<^verbatim>\<open>driver/src/feetech.c\<close>: framing, the receive path, the
  transmit path, the waiting time and the life of the port.
\<close>

section \<open>Receiving from several servos\<close>

text \<open>C10. A SYNC_READ whose servos answer is complete. If the port takes the request, in any pieces
  and with any number of interrupted writes, and the bytes that come back are the echo of the
  request (when the adapter echoes) followed by one well-formed reply of the requested length per
  servo in the order of the request, cut by the kernel into arbitrary non-empty chunks, all within
  the timeout, then \<open>fts_sync_read\<close> returns \<open>FTS_OK\<close>, the caller's buffer holds exactly the servos'
  data one after the other, and exactly the request went out on the wire.\<close>

theorem sync_read_delivered:
  assumes "fd bus \<ge> 0" and "ids \<noteq> []" and "len \<noteq> 0" and "length ids + 8 \<le> FTS_MAX_PKT"
    and "pkt = fts_build_packet FTS_BROADCAST_ID FTS_INST_SYNC_READ (addr # len # ids)"
    and "accepts (tty_writes w) (length pkt)"
    and "replies_ok (unat len) ids rs" and "delivers w chunks"
    and "concat chunks = (if echo bus then pkt else []) @ reply_frames rs"
    and "length (concat chunks) \<le> FTS_RXBUF_SIZE" and "horizon w \<le> tty_now w + timeout_ms bus"
    and "length buf = length ids * unat len"
  shows "\<exists>bus' w'. fts_sync_read bus ids addr len (Some buf) w =
      (FTS_OK, Some (reply_data rs), bus', w') \<and> tty_wire w' = tty_wire w @ pkt"
proof -
  obtain b1 w1 c1 where tx: "tx_packet bus pkt w = (FTS_OK, b1, w1)" "tty_wire w1 = tty_wire w @ pkt"
    and h: "port_holds b1 w1 c1 (reply_frames rs @ [])" "horizon w1 \<le> tty_now w1 + timeout_ms b1"
    using tx_packet_holds [OF assms(1,6,8,9,10,11)] by auto
  have "length buf = (0 + length ids) * unat len" using assms(12) by simp
  from sync_read_loop_holds [OF h(1) assms(7) h(2) this] obtain b2 w2 where
    sr: "sync_read_loop b1 ids 0 (unat len) buf FTS_OK w1 = (FTS_OK, reply_data rs, b2, w2)" by auto
  show ?thesis
    using assms(2-5) tx sr sync_read_loop_wire [OF sr] by (simp add: fts_sync_read_def Let_def)
qed

text \<open>Two servos behind an echoing adapter, the answer cut in the middle of the echo and of a frame.\<close>

definition sr_request :: "u8 list" where
  "sr_request = fts_build_packet FTS_BROADCAST_ID FTS_INST_SYNC_READ [56, 2, 1, 2]"

definition sr_replies :: "reply list" where
  "sr_replies = [(1, 0, [0x34, 0x12]), (2, 0, [0x00, 0x08])]"

definition sr_bytes :: "u8 list" where
  "sr_bytes = sr_request @ reply_frames sr_replies"

definition sr_bus :: fts_bus where
  "sr_bus = bus_zero\<lparr>fd := 3, timeout_ms := 10, echo := True\<rparr>"

definition sr_tty :: tty where
  "sr_tty = \<lparr>tty_now = 100, tty_ticks = [1, 0, 2], tty_polls = [PollReady True False, PollReady True False, PollReady True True],
     tty_reads = [ReadBytes (take 5 sr_bytes), ReadBytes (take 7 (drop 5 sr_bytes)), ReadBytes (drop 12 sr_bytes)],
     tty_writes = [WriteBytes 4, WriteEINTR, WriteBytes 6], tty_opens = [], tty_waits = [], tty_wire = [],
     tty_fds = {3}, tty_paths = [], tty_tio = None\<rparr>"

theorem sync_read_delivered_witness:
  "\<exists>bus' w'. fts_sync_read sr_bus [1, 2] 56 2 (Some [0, 0, 0, 0]) sr_tty =
      (FTS_OK, Some (reply_data sr_replies), bus', w') \<and> tty_wire w' = tty_wire sr_tty @ sr_request"
proof (rule sync_read_delivered [of sr_bus "[1, 2]" 2 sr_request 56 sr_tty sr_replies
      "[take 5 sr_bytes, take 7 (drop 5 sr_bytes), drop 12 sr_bytes]"])
  show "accepts (tty_writes sr_tty) (length sr_request)"
    by (simp add: sr_tty_def sr_request_def build_packet_frame eval_nat_numeral)
  show "delivers sr_tty [take 5 sr_bytes, take 7 (drop 5 sr_bytes), drop 12 sr_bytes]"
    unfolding delivers_def sr_tty_def
    by (intro conjI exI [of _ "[False, False, True]"] exI [of _ "[]"])
      (simp_all, simp_all add: sr_bytes_def sr_request_def build_packet_frame frame_def frame_body_def
        sr_replies_def reply_frames_def)
qed (simp_all add: sr_bus_def bus_zero_def sr_request_def build_packet_frame sr_tty_def horizon_def
    replies_ok_def sr_replies_def frame_ok_def sr_bytes_def reply_frames_def)

text \<open>C13. Nothing is received that was not sent. If \<open>fts_sync_read\<close> returns \<open>FTS_OK\<close> then the bytes the
  port delivered after the request was sent contain, each in one piece and in the order of the
  request, one frame with a correct checksum per servo, from that servo; each frame carries at
  least the requested number of bytes and the caller's buffer is exactly the first bytes of each.\<close>

theorem sync_read_sound:
  assumes "fts_sync_read bus ids addr len (Some buf) w = (FTS_OK, Some out, bus', w')"
    and "length buf = length ids * unat len"
  shows "\<exists>rs. map fst rs = ids \<and> heard_all (inputs w) rs \<and>
    (\<forall>(i, err, data)\<in>set rs. unat len \<le> length data) \<and>
    out = concat (map (\<lambda>(i, err, data). take (unat len) data) rs)"
proof -
  let ?pkt = "fts_build_packet FTS_BROADCAST_ID FTS_INST_SYNC_READ (addr # len # ids)"
  obtain rc b1 w1 where tx: "tx_packet bus ?pkt w = (rc, b1, w1)" by (cases "tx_packet bus ?pkt w")
  with assms(1) have sr: "sync_read_loop b1 ids 0 (unat len) buf FTS_OK w1 = (FTS_OK, out, bus', w')"
    by (auto simp: fts_sync_read_def Let_def split: if_splits prod.splits)
  have "length buf = (0 + length ids) * unat len" using assms(2) by simp
  from sync_read_loop_sound [OF sr this] tx_packet_stream [OF tx] show ?thesis
    by (auto intro: heard_all_suffix)
qed

theorem sync_read_sound_witness:
  "\<exists>rs. map fst rs = [1, 2] \<and> heard_all (inputs sr_tty) rs \<and>
    (\<forall>(i, err, data)\<in>set rs. unat (2 :: u8) \<le> length data) \<and>
    [0x34, 0x12, 0x00, 0x08] = concat (map (\<lambda>(i, err, data). take (unat (2 :: u8)) data) rs)"
proof -
  have "case fts_sync_read sr_bus [1, 2] 56 2 (Some [0, 0, 0, 0]) sr_tty of
      (rc, out, _) \<Rightarrow> rc = FTS_OK \<and> out = Some [0x34, 0x12, 0x00, 0x08]"
    by code_simp
  then obtain bus' w' where "fts_sync_read sr_bus [1, 2] 56 2 (Some [0, 0, 0, 0]) sr_tty =
      (FTS_OK, Some [0x34, 0x12, 0x00, 0x08], bus', w')"
    by (auto split: prod.splits)
  from sync_read_sound [OF this] show ?thesis by simp
qed

section \<open>Framing\<close>

text \<open>C22. Every packet \<open>fts_build_packet\<close> makes is found again by \<open>fts_parse_status\<close>, behind any bytes
  that hold no header byte and before any bytes whatever, with its identifier, third byte and
  parameters, and with exactly the junk and the packet consumed.\<close>

theorem parse_built_packet:
  assumes "sid \<noteq> 0xFF" and "length params + 6 \<le> FTS_MAX_PKT" and "0xFF \<notin> set junk"
  shows "fts_parse_status (junk @ fts_build_packet sid inst params @ rest) =
    (Parsed \<lparr>pkt_id = sid, pkt_error = inst, pkt_data = params\<rparr>, length junk + length params + 6)"
  using parse_frame_after_junk [OF _ assms(3), of sid params inst rest] assms(1,2)
  by (simp add: frame_ok_def build_packet_frame)

theorem parse_built_packet_witness:
  "fts_parse_status ([0x01, 0x00] @ fts_build_packet 4 0 [0x10, 0x0A] @ [0xFF, 0xFF, 0x05]) =
    (Parsed \<lparr>pkt_id = 4, pkt_error = 0, pkt_data = [0x10, 0x0A]\<rparr>, 10)"
  using parse_built_packet [of 4 "[0x10, 0x0A]" "[0x01, 0x00]" 0 "[0xFF, 0xFF, 0x05]"] by simp

text \<open>C36. A frame in which one byte other than the header and the length was changed in transit is
  never accepted: the scanner reports an error (a bad packet when the identifier became a header
  byte, else a checksum error) and drops only the header bytes, so that it can find a frame
  hidden behind them.\<close>

theorem corrupted_frame_rejected:
  assumes "sid \<noteq> 0xFF" and "length data + 6 \<le> FTS_MAX_PKT"
    and "k = 2 \<or> 4 \<le> k" and "k < length (fts_build_packet sid err data)"
    and "b \<noteq> fts_build_packet sid err data ! k"
  shows "fts_parse_status ((fts_build_packet sid err data)[k := b] @ rest) =
    (if k = 2 \<and> b = 0xFF then (ParseErr FTS_ERR_BAD_PKT, 1) else (ParseErr FTS_ERR_CHECKSUM, 2))"
  using assms parse_corrupted_frame [of sid data k err b rest]
  by (simp add: build_packet_frame frame_ok_def)

theorem corrupted_frame_rejected_witness:
  "fts_parse_status ((fts_build_packet 3 0 [0x10, 0x0A])[6 := 0x0B] @ []) = (ParseErr FTS_ERR_CHECKSUM, 2)"
proof -
  have "fts_parse_status ((fts_build_packet 3 0 [0x10, 0x0A])[6 := 0x0B] @ []) =
      (if 6 = (2 :: nat) \<and> (0x0B :: u8) = 0xFF then (ParseErr FTS_ERR_BAD_PKT, 1) else (ParseErr FTS_ERR_CHECKSUM, 2))"
    by (rule corrupted_frame_rejected) code_simp+
  then show ?thesis by simp
qed

text \<open>Resynchronisation always moves on: whatever is in the receive buffer, the scanner never
  consumes more than it was given, an error consumes at least one byte (so the receive loop ends),
  and a packet it reports stands in the buffer as a frame with a correct checksum, ending exactly
  where the consumed part ends.\<close>

theorem parse_status_spec:
  "case fts_parse_status buf of
     (Parsed p, c) \<Rightarrow> \<exists>junk rest. buf = junk @ frame (pkt_id p) (pkt_error p) (pkt_data p) @ rest \<and>
        c = length (junk @ frame (pkt_id p) (pkt_error p) (pkt_data p)) \<and>
        frame_ok (pkt_id p) (pkt_data p)
   | (ParseErr e, c) \<Rightarrow> 0 < c \<and> c \<le> length buf \<and> (e = FTS_ERR_CHECKSUM \<or> e = FTS_ERR_BAD_PKT)
   | (NeedMore, c) \<Rightarrow> c \<le> length buf"
proof -
  obtain r c where rc: "fts_parse_status buf = (r, c)" by (cases "fts_parse_status buf")
  show ?thesis
  proof (cases r)
    case (Parsed p)
    then show ?thesis using rc parse_status_Parsed [of buf p c] by (auto simp: rc)
  next
    case (ParseErr e)
    then show ?thesis
      using rc parse_status_consumed [of buf] parse_status_err_progress [of buf e c]
      by (auto simp: fts_parse_status_def Let_def split: if_splits)
  next
    case NeedMore
    then show ?thesis using rc parse_status_consumed [of buf] by simp
  qed
qed

text \<open>Sign-magnitude registers: every value whose magnitude fits below the sign bit survives
  encoding and decoding, and decoding any register gives a magnitude below the sign bit.\<close>

theorem sign_magnitude_roundtrip:
  assumes "sb < 16" and "\<bar>v\<bar> < 2 ^ sb"
  shows "fts_decode_sm (fts_encode_sm v sb) sb = v \<and> \<bar>fts_decode_sm raw sb\<bar> < 2 ^ sb"
  using assms decode_encode_sm decode_sm_bounds by blast

theorem sign_magnitude_roundtrip_witness:
  "fts_decode_sm (fts_encode_sm (- 345) 15) 15 = - 345 \<and> \<bar>fts_decode_sm 0x8005 15\<bar> < 2 ^ 15"
  using sign_magnitude_roundtrip [of 15 "- 345" "0x8005"] by simp

section \<open>Sending, waiting, opening\<close>

text \<open>C37. A SYNC_WRITE that reports success has put exactly one frame on the wire: broadcast identifier,
  SYNC_WRITE, the address, the length and one block per servo of its identifier and its slice of
  the data. A failed one leaves a proper prefix-or-whole of that frame and nothing else.\<close>

theorem sync_write_wire:
  assumes "fts_sync_write bus ids addr len (Some data) w = (rc, bus', w')"
    and "length data = length ids * unat len"
  shows "\<exists>n. tty_wire w' = tty_wire w @ take n (frame FTS_BROADCAST_ID FTS_INST_SYNC_WRITE
      (addr # len # concat (map (\<lambda>k. ids ! k # map (\<lambda>j. data ! (k * unat len + j)) [0..<unat len]) [0..<length ids])))
    \<and> (rc = FTS_OK \<longrightarrow> n = 8 + length ids * (unat len + 1))"
proof -
  let ?ps = "sync_write_params ids addr len data"
  have ps: "?ps = addr # len # concat (map (\<lambda>k. ids ! k # map (\<lambda>j. data ! (k * unat len + j)) [0..<unat len]) [0..<length ids])"
    using assms(2) by (auto simp: sync_write_params_def take_drop_map_nth slice_bound
        intro!: arg_cong [of _ _ concat] map_cong)
  note len = length_sync_write_params [OF assms(2), of addr]
  show ?thesis
  proof (cases "ids = [] \<or> len = 0 \<or> length ?ps + 6 > FTS_MAX_PKT")
    case True
    then show ?thesis
      using assms(1) len by (auto simp: fts_sync_write_def Let_def intro!: exI [of _ 0] split: if_splits)
  next
    case False
    then have "tx_packet bus (frame FTS_BROADCAST_ID FTS_INST_SYNC_WRITE ?ps) w = (rc, bus', w')"
      using assms(1) len by (simp add: fts_sync_write_def Let_def build_packet_frame split: if_splits)
    from tx_packet_wire [OF this] show ?thesis using len by (auto simp: ps)
  qed
qed

theorem sync_write_wire_witness:
  "\<exists>bus' w'. fts_sync_write sr_bus [1, 2] 40 1 (Some [1, 1]) (sr_tty\<lparr>tty_writes := [WriteBytes 99]\<rparr>) = (FTS_OK, bus', w')
    \<and> tty_wire w' = frame FTS_BROADCAST_ID FTS_INST_SYNC_WRITE [40, 1, 1, 1, 2, 1]"
proof -
  let ?w = "sr_tty\<lparr>tty_writes := [WriteBytes 99]\<rparr>"
  have "fst (fts_sync_write sr_bus [1, 2] 40 1 (Some [1, 1]) ?w) = FTS_OK" by code_simp
  then obtain bus' w' where r: "fts_sync_write sr_bus [1, 2] 40 1 (Some [1, 1]) ?w = (FTS_OK, bus', w')"
    by (cases "fts_sync_write sr_bus [1, 2] 40 1 (Some [1, 1]) ?w") auto
  moreover have "tty_wire ?w = []" by (simp add: sr_tty_def)
  ultimately show ?thesis
    using sync_write_wire [OF r] by (auto simp: numeral_2_eq_2)
qed

text \<open>C38. No wait of a SYNC_READ can outlast the bus timeout: every time given to \<open>poll\<close>, while the echo
  is swallowed and for every servo, lies between 0 and \<open>timeout_ms\<close>; the settings of the port are
  unchanged, the receive buffer stays within its array, the clock does not run backwards and no
  descriptor is opened or closed.\<close>

theorem sync_read_bounded:
  assumes "fts_sync_read bus ids addr len out w = (rc, out', bus', w')"
    and "0 \<le> timeout_ms bus" and "rx_fits bus"
  shows "waits_in 0 (timeout_ms bus) w w' \<and> same_settings bus bus' \<and> rx_fits bus' \<and>
    tty_now w \<le> tty_now w' \<and> tty_fds w' = tty_fds w"
proof -
  let ?pkt = "fts_build_packet FTS_BROADCAST_ID FTS_INST_SYNC_READ (addr # len # ids)"
  obtain r b1 w1 where tx: "tx_packet bus ?pkt w = (r, b1, w1)" by (cases "tx_packet bus ?pkt w")
  have tw: "waits_in 0 (timeout_ms bus) w w1" "timeout_ms b1 = timeout_ms bus"
    using tx_packet_waits [OF tx] tx_packet_ext [OF tx] assms(2)
    by (simp_all add: port_ext_def same_settings_def)
  have "waits_in 0 (timeout_ms bus) w w'"
    using assms(1,2) tw tx
    by (auto simp: fts_sync_read_def Let_def split: option.splits if_splits prod.splits
        intro: waits_in_refl waits_in_trans dest!: sync_read_loop_waits)
  with fts_sync_read_ext [OF assms(1)] assms(3) show ?thesis
    by (simp add: port_ext_def tty_ext_def)
qed

theorem sync_read_bounded_witness:
  "\<exists>rc out bus' w'. fts_sync_read sr_bus [1, 2] 56 2 (Some [0, 0, 0, 0]) sr_tty = (rc, out, bus', w') \<and>
     waits_in 0 10 sr_tty w' \<and> rx_fits bus'"
proof -
  obtain rc out bus' w' where r: "fts_sync_read sr_bus [1, 2] 56 2 (Some [0, 0, 0, 0]) sr_tty = (rc, out, bus', w')"
    by (cases "fts_sync_read sr_bus [1, 2] 56 2 (Some [0, 0, 0, 0]) sr_tty")
  have "timeout_ms sr_bus = 10" "rx_fits sr_bus" by (simp_all add: sr_bus_def bus_zero_def rx_fits_def)
  then show ?thesis using sync_read_bounded [OF r] r by auto
qed

text \<open>On a closed port every transaction with proper arguments fails with \<open>FTS_ERR_IO\<close> at once: nothing
  is put on the wire, nothing is waited for and the caller's buffer is untouched. The daemon relies
  on this while it retries a port that is gone.\<close>

theorem closed_port_fails:
  assumes "fd bus < 0" and "ids \<noteq> []" and "len \<noteq> 0" and "length ids * (unat len + 1) + 8 \<le> FTS_MAX_PKT"
    and "length data = length ids * unat len"
  shows "fts_sync_read bus ids addr len (Some buf) w = (FTS_ERR_IO, Some buf, bus\<lparr>rxbuf := []\<rparr>, w) \<and>
    fts_sync_write bus ids addr len (Some data) w = (FTS_ERR_IO, bus\<lparr>rxbuf := []\<rparr>, w) \<and>
    fts_ping bus sid w = (FTS_ERR_IO, bus\<lparr>rxbuf := []\<rparr>, w)"
proof -
  have "length ids * 1 \<le> length ids * (unat len + 1)" by (rule mult_le_mono2) simp
  then have "length ids + 8 \<le> FTS_MAX_PKT" using assms(4) by simp
  moreover have "fts_build_packet s i ps \<noteq> []" if "length ps + 6 \<le> FTS_MAX_PKT" for s i ps
    using build_packet_frame [OF that, of s i] by (simp add: frame_def)
  moreover have "length (sync_write_params ids addr len data) + 6 \<le> FTS_MAX_PKT"
    using length_sync_write_params [OF assms(5)] assms(4) by simp
  ultimately show ?thesis
    using assms
    by (simp add: fts_sync_read_def fts_sync_write_def fts_ping_def tx_packet_closed Let_def)
qed

theorem closed_port_fails_witness:
  "fts_sync_read (bus_zero\<lparr>fd := - 1\<rparr>) [1, 2] 56 2 (Some [7, 7, 7, 7]) sr_tty =
      (FTS_ERR_IO, Some [7, 7, 7, 7], bus_zero\<lparr>fd := - 1\<rparr>, sr_tty)"
  using closed_port_fails [of "bus_zero\<lparr>fd := - 1\<rparr>" "[1, 2]" 2 "[0, 0, 0, 0]" 56 "[7, 7, 7, 7]" sr_tty 1]
  by (simp add: bus_zero_def)

text \<open>Opening a port never leaks a descriptor and never leaves a half-configured one: on failure
  the set of open descriptors and the line settings are as before and the bus is closed; on success
  exactly the new descriptor is added and the line is raw, eight data bits, no parity, one stop
  bit, no hardware or software flow control, receiver on, reads that never block, at the speed
  asked for in both directions.\<close>

theorem open_port:
  assumes "fts_open path baud w = (rc, bus, w')"
    and "\<forall>n attrs ok. OpenFd n attrs ok \<in> set (tty_opens w) \<longrightarrow> n \<notin> tty_fds w"
  shows "if rc = FTS_OK then
      \<exists>t spd. tty_tio w' = Some t \<and> baud_to_speed baud = Some spd \<and>
        fd bus \<ge> 0 \<and> nat (fd bus) \<notin> tty_fds w \<and> tty_fds w' = insert (nat (fd bus)) (tty_fds w) \<and>
        tio_flags t \<inter> {CS8, CSTOPB, PARENB, CRTSCTS, CLOCAL, CREAD} = {CS8, CLOCAL, CREAD} \<and>
        tio_flags t \<inter> {ECHO, ICANON, ISIG, OPOST, IXON, IXOFF, IXANY, ICRNL, INLCR, ISTRIP} = {} \<and>
        tio_vmin t = 0 \<and> tio_vtime t = 0 \<and> tio_ispeed t = Some spd \<and> tio_ospeed t = Some spd
    else (rc = FTS_ERR_ARG \<or> rc = FTS_ERR_IO) \<and> fd bus = - 1 \<and> tty_fds w' = tty_fds w \<and> tty_tio w' = tty_tio w"
proof (cases "baud_to_speed baud")
  case None
  then show ?thesis using assms(1) by (auto simp: fts_open_def Let_def)
next
  case (Some spd)
  obtain a w1 where a: "sys_open path w = (a, w1)" by (cases "sys_open path w")
  show ?thesis
  proof (cases a)
    case OpenFail
    then show ?thesis
      using assms(1) Some a
      by (auto simp: fts_open_def sys_open_def Let_def split: list.splits open_ans.splits)
  next
    case (OpenFd n attrs ok)
    then have "n \<notin> tty_fds w" "tty_fds w1 = insert n (tty_fds w)" "tty_tio w1 = tty_tio w"
      using a assms(2) by (auto simp: sys_open_def Let_def split: list.splits open_ans.splits)
    then show ?thesis
      using assms(1) Some a OpenFd
      by (auto simp: fts_open_def Let_def sys_close_def raw_termios_def cfmakeraw_def
          split: option.splits if_splits)
  qed
qed

definition op_tty :: tty where
  "op_tty = sr_tty\<lparr>tty_opens := [OpenFd 5 (Some \<lparr>tio_flags = {ECHO, ICANON, PARENB}, tio_vmin = 1,
     tio_vtime = 0, tio_ispeed = None, tio_ospeed = None\<rparr>) True]\<rparr>"

theorem open_port_witness:
  "\<exists>bus w'. fts_open ''/dev/so101_follower'' 1000000 op_tty = (FTS_OK, bus, w') \<and>
     tty_fds w' = insert (nat (fd bus)) (tty_fds op_tty)"
proof -
  obtain rc bus w' where r: "fts_open ''/dev/so101_follower'' 1000000 op_tty = (rc, bus, w')"
    by (cases "fts_open ''/dev/so101_follower'' 1000000 op_tty")
  then have "rc = FTS_OK"
    by (simp add: fts_open_def baud_to_speed_def sys_open_def op_tty_def sr_tty_def Let_def)
  then show ?thesis
    using open_port [OF r] r by (auto simp: op_tty_def sr_tty_def)
qed

end
