(* ===== verification/Shm.thy ===== *)
theory Shm
  imports Prelude Complex_Main
begin

text \<open>
  The shared-memory contract, \<^verbatim>\<open>daemon/include/so101_shm.h\<close>: constants, the published sample, the
  mailbox, the memory block itself with its C layout, and the seqlock operations as one process
  sees them when no other interferes (the interleavings are in the seqlock theory).

  \<open>uint8_t\<close> flags that only hold 0 or 1 are \<open>bool\<close>; the arrays of one entry per joint are lists
  of length 6; a \<open>float\<close> is its rational value.
\<close>

section \<open>Constants\<close>

abbreviation (input) SO101_SHM_MAGIC :: u32 where "SO101_SHM_MAGIC \<equiv> 0x31303153"
abbreviation (input) SO101_SHM_VERSION :: u32 where "SO101_SHM_VERSION \<equiv> 2"
abbreviation (input) SO101_NJ :: nat where "SO101_NJ \<equiv> 6"

abbreviation (input) SO101_MODE_IDLE :: u32 where "SO101_MODE_IDLE \<equiv> 0"
abbreviation (input) SO101_MODE_TELEOP :: u32 where "SO101_MODE_TELEOP \<equiv> 1"
abbreviation (input) SO101_MODE_HOLD :: u32 where "SO101_MODE_HOLD \<equiv> 2"
abbreviation (input) SO101_MODE_ESTOP :: u32 where "SO101_MODE_ESTOP \<equiv> 3"

abbreviation (input) SO101_F_LEADER_COMM :: u32 where "SO101_F_LEADER_COMM \<equiv> 0x01"
abbreviation (input) SO101_F_FOLLOWER_COMM :: u32 where "SO101_F_FOLLOWER_COMM \<equiv> 0x02"
abbreviation (input) SO101_F_OVERTEMP :: u32 where "SO101_F_OVERTEMP \<equiv> 0x04"
abbreviation (input) SO101_F_VOLTAGE :: u32 where "SO101_F_VOLTAGE \<equiv> 0x08"
abbreviation (input) SO101_F_OVERRUN :: u32 where "SO101_F_OVERRUN \<equiv> 0x10"
abbreviation (input) SO101_F_STALL :: u32 where "SO101_F_STALL \<equiv> 0x20"
abbreviation (input) SO101_F_ESTOP :: u32 where "SO101_F_ESTOP \<equiv> 0x40"
abbreviation (input) SO101_F_TORQUE_REFUSED :: u32 where "SO101_F_TORQUE_REFUSED \<equiv> 0x80"

abbreviation (input) SO101_CMD_NONE :: u32 where "SO101_CMD_NONE \<equiv> 0"
abbreviation (input) SO101_CMD_SET_MODE :: u32 where "SO101_CMD_SET_MODE \<equiv> 1"
abbreviation (input) SO101_CMD_ESTOP :: u32 where "SO101_CMD_ESTOP \<equiv> 2"
abbreviation (input) SO101_CMD_RESET :: u32 where "SO101_CMD_RESET \<equiv> 3"
abbreviation (input) SO101_CMD_PING :: u32 where "SO101_CMD_PING \<equiv> 4"

abbreviation (input) SO101_RES_OK :: int where "SO101_RES_OK \<equiv> 0"
abbreviation (input) SO101_RES_BAD_CMD :: int where "SO101_RES_BAD_CMD \<equiv> - 1"
abbreviation (input) SO101_RES_REFUSED :: int where "SO101_RES_REFUSED \<equiv> - 2"

section \<open>Data\<close>

record so101_sample =
  s_cycle :: u64
  s_t_mono_ns :: int
  s_wake_lat_ns :: int
  s_exec_ns :: int
  s_bus_leader_ns :: int
  s_bus_follower_ns :: int
  s_faults :: u32
  s_mode :: u8
  s_leader_ok :: bool
  s_follower_ok :: bool
  s_torque_on :: bool
  s_leader_pos :: "int list"
  s_follower_goal :: "int list"
  s_follower_pos :: "int list"
  s_follower_vel :: "int list"
  s_follower_load :: "int list"
  s_follower_volt :: "u8 list"
  s_follower_temp :: "u8 list"
  s_leader_norm :: "rat list"
  s_follower_norm :: "rat list"
  s_overruns :: u32
  s_missed_slots :: u32
  s_leader_errs :: u32
  s_follower_errs :: u32
  s_max_wake_lat_ns :: int
  s_max_exec_ns :: int
  s_leader_streak :: u16
  s_follower_streak :: u16
  s_ramping :: u8

definition sample_zero :: so101_sample where
  "sample_zero = \<lparr>s_cycle = 0, s_t_mono_ns = 0, s_wake_lat_ns = 0, s_exec_ns = 0, s_bus_leader_ns = 0,
     s_bus_follower_ns = 0, s_faults = 0, s_mode = 0, s_leader_ok = False, s_follower_ok = False,
     s_torque_on = False, s_leader_pos = replicate 6 0, s_follower_goal = replicate 6 0,
     s_follower_pos = replicate 6 0, s_follower_vel = replicate 6 0, s_follower_load = replicate 6 0,
     s_follower_volt = replicate 6 0, s_follower_temp = replicate 6 0, s_leader_norm = replicate 6 0,
     s_follower_norm = replicate 6 0, s_overruns = 0, s_missed_slots = 0, s_leader_errs = 0,
     s_follower_errs = 0, s_max_wake_lat_ns = 0, s_max_exec_ns = 0, s_leader_streak = 0,
     s_follower_streak = 0, s_ramping = 0\<rparr>"

record so101_cmd =
  cmd_id :: u32
  cmd_cmd :: u32
  cmd_arg :: int
  cmd_client_pid :: int

record so101_ack =
  ack_id :: u32
  ack_result :: int

record so101_shm =
  shm_magic :: u32
  shm_version :: u32
  shm_size :: u32
  shm_daemon_pid :: int
  shm_period_ns :: u32
  shm_n_joints :: u32
  shm_joint_names :: "string list"
  shm_seq :: u32
  shm_s :: so101_sample
  shm_mode_req :: u32
  shm_faults :: u32
  shm_sup_beat :: u64
  shm_cmd :: so101_cmd
  shm_ack :: so101_ack

definition so101_mode_name :: "nat \<Rightarrow> string" where
  "so101_mode_name m = (if m < 4 then [''IDLE'', ''TELEOP'', ''HOLD'', ''ESTOP''] ! m else ''?'')"

section \<open>Seqlock operations\<close>

definition so101_shm_publish :: "so101_shm \<Rightarrow> so101_sample \<Rightarrow> so101_shm" where
  "so101_shm_publish shm src =
     (let q = shm_seq shm;
          shm = shm\<lparr>shm_seq := q + 1\<rparr>;
          shm = shm\<lparr>shm_s := src\<rparr>
      in shm\<lparr>shm_seq := q + 2\<rparr>)"

text \<open>
  The reader of a memory nobody changes meanwhile: the result is the number of retries and the
  snapshot, or nothing after \<open>max_tries\<close> attempts.
\<close>

fun shm_read_loop :: "so101_shm \<Rightarrow> nat \<Rightarrow> nat \<Rightarrow> (nat \<times> so101_sample) option" where
  "shm_read_loop shm k 0 = None"
| "shm_read_loop shm k (Suc tries) =
     (let q1 = shm_seq shm in
      if q1 AND 1 \<noteq> 0 then shm_read_loop shm (Suc k) tries
      else
        let dst = shm_s shm; q2 = shm_seq shm
        in if q1 = q2 then Some (k, dst) else shm_read_loop shm (Suc k) tries)"

definition so101_shm_read :: "so101_shm \<Rightarrow> nat \<Rightarrow> (nat \<times> so101_sample) option" where
  "so101_shm_read shm max_tries = shm_read_loop shm 0 max_tries"

section \<open>C layout\<close>

text \<open>
  The declarations of the structures, field by field: name, type and number of elements. An element is aligned
  as the ABIs of the platform align its type. \<open>offsets\<close> gives every field's offset and the end.
\<close>

datatype ctype = U8 | I16 | U16 | I32 | U32 | I64 | U64 | F32 | Struct nat nat

fun c_size :: "ctype \<Rightarrow> nat" where
  "c_size U8 = 1"
| "c_size I16 = 2"
| "c_size U16 = 2"
| "c_size I32 = 4"
| "c_size U32 = 4"
| "c_size I64 = 8"
| "c_size U64 = 8"
| "c_size F32 = 4"
| "c_size (Struct al sz) = sz"

fun c_align :: "ctype \<Rightarrow> nat" where
  "c_align (Struct al sz) = al"
| "c_align t = c_size t"

type_synonym cdecl = "(string \<times> ctype \<times> nat) list"

definition align_up :: "nat \<Rightarrow> nat \<Rightarrow> nat" where
  "align_up off a = (off + a - 1) div a * a"

fun offsets :: "nat \<Rightarrow> cdecl \<Rightarrow> (string \<times> nat) list \<times> nat" where
  "offsets off [] = ([], off)"
| "offsets off ((name, t, n) # fs) =
     (let o0 = align_up off (c_align t); (os, e) = offsets (o0 + c_size t * n) fs in ((name, o0) # os, e))"

fun struct_align :: "cdecl \<Rightarrow> nat" where
  "struct_align [] = 1"
| "struct_align ((_, t, _) # fs) = max (c_align t) (struct_align fs)"

definition struct_size :: "cdecl \<Rightarrow> nat" where
  "struct_size fs = align_up (snd (offsets 0 fs)) (struct_align fs)"

definition struct_of :: "cdecl \<Rightarrow> ctype" where
  "struct_of fs = Struct (struct_align fs) (struct_size fs)"

definition sample_fields :: cdecl where
  "sample_fields =
     [(''cycle'', U64, 1), (''t_mono_ns'', I64, 1), (''wake_lat_ns'', I32, 1), (''exec_ns'', I32, 1),
      (''bus_leader_ns'', I32, 1), (''bus_follower_ns'', I32, 1), (''faults'', U32, 1),
      (''mode'', U8, 1), (''leader_ok'', U8, 1), (''follower_ok'', U8, 1), (''torque_on'', U8, 1),
      (''leader_pos'', I16, SO101_NJ), (''follower_goal'', I16, SO101_NJ), (''follower_pos'', I16, SO101_NJ),
      (''follower_vel'', I16, SO101_NJ), (''follower_load'', I16, SO101_NJ), (''follower_volt'', U8, SO101_NJ),
      (''follower_temp'', U8, SO101_NJ), (''leader_norm'', F32, SO101_NJ), (''follower_norm'', F32, SO101_NJ),
      (''overruns'', U32, 1), (''missed_slots'', U32, 1), (''leader_errs'', U32, 1),
      (''follower_errs'', U32, 1), (''max_wake_lat_ns'', I32, 1), (''max_exec_ns'', I32, 1),
      (''leader_streak'', U16, 1), (''follower_streak'', U16, 1), (''ramping'', U8, 1), (''_pad1'', U8, 3)]"

definition cmd_fields :: cdecl where
  "cmd_fields = [(''id'', U32, 1), (''cmd'', U32, 1), (''arg'', I32, 1), (''client_pid'', I32, 1)]"

definition ack_fields :: cdecl where
  "ack_fields = [(''id'', U32, 1), (''result'', I32, 1)]"

definition shm_fields :: cdecl where
  "shm_fields =
     [(''magic'', U32, 1), (''version'', U32, 1), (''size'', U32, 1), (''daemon_pid'', I32, 1),
      (''period_ns'', U32, 1), (''n_joints'', U32, 1), (''joint_names'', U8, SO101_NJ * 16), (''seq'', U32, 1),
      (''_pad0'', U32, 1), (''s'', struct_of sample_fields, 1), (''mode_req'', U32, 1), (''faults'', U32, 1),
      (''sup_beat'', U64, 1), (''cmd'', struct_of cmd_fields, 1), (''ack'', struct_of ack_fields, 1)]"

definition shm_total_size :: nat where
  "shm_total_size = struct_size shm_fields"

section \<open>Properties\<close>

lemma shm_read_even: "\<not> bit (shm_seq shm) 0 \<Longrightarrow> so101_shm_read shm (Suc n) = Some (0, shm_s shm)"
  by (simp add: so101_shm_read_def and_one_eq odd_iff_mod_2_eq_one bit_0 even_iff_mod_2_eq_zero)

lemma publish_fields [simp]:
  "shm_s (so101_shm_publish shm src) = src" "shm_mode_req (so101_shm_publish shm src) = shm_mode_req shm"
  "shm_faults (so101_shm_publish shm src) = shm_faults shm" "shm_cmd (so101_shm_publish shm src) = shm_cmd shm"
  "shm_ack (so101_shm_publish shm src) = shm_ack shm" "shm_seq (so101_shm_publish shm src) = shm_seq shm + 2"
  "shm_sup_beat (so101_shm_publish shm src) = shm_sup_beat shm"
  by (simp_all add: so101_shm_publish_def Let_def)

lemma shm_total_size: "shm_total_size = 360"
  by code_simp

end
