(* ===== verification/Layout.thy ===== *)
theory Layout
  imports Shm
begin

text \<open>
  The memory block as bytes, read by both sides of the interface: a C program, at the offsets and with the types
  of the declarations in \<^verbatim>\<open>daemon/include/so101_shm.h\<close>, and the Python client \<^verbatim>\<open>clients/python/so101.py\<close>, with the
  \<open>struct\<close> formats, offsets and variable names written down there. The theorem: they read the same values,
  whatever the bytes. Python's \<open>struct\<close> in its standard little-endian mode is a function on byte lists.
\<close>

section \<open>Values in memory\<close>

text \<open>A float is its bit pattern, which both sides hand to the same processor.\<close>

datatype cval =
    VInt int
  | VFloat u32

fun le_nat :: "u8 list \<Rightarrow> nat" where
  "le_nat [] = 0"
| "le_nat (b # bs) = unat b + 256 * le_nat bs"

definition load :: "ctype \<Rightarrow> u8 list \<Rightarrow> cval" where
  "load t bs =
     (let n = int (le_nat bs); w = 8 * c_size t
      in if t = F32 then VFloat (of_nat (le_nat bs))
         else if t \<in> {I16, I32, I64} \<and> n \<ge> 2 ^ (w - 1) then VInt (n - 2 ^ w)
         else VInt n)"

type_synonym slot = "ctype \<times> nat"

definition load_at :: "u8 list \<Rightarrow> slot \<Rightarrow> cval" where
  "load_at bs s = load (fst s) (take (c_size (fst s)) (drop (snd s) bs))"

section \<open>C\<close>

text \<open>The elements of every field of a structure at an address: their types and places, and their values.\<close>

definition c_slots :: "cdecl \<Rightarrow> nat \<Rightarrow> (string \<times> slot list) list" where
  "c_slots fs base =
     map2 (\<lambda>(f, t, n) (_, off). (f, map (\<lambda>k. (t, base + off + c_size t * k)) [0..<n])) fs (fst (offsets 0 fs))"

definition c_struct :: "cdecl \<Rightarrow> nat \<Rightarrow> u8 list \<Rightarrow> (string \<times> cval list) list" where
  "c_struct fs base bs = map (\<lambda>(f, ss). (f, map (load_at bs) ss)) (c_slots fs base)"

definition shm_off :: "string \<Rightarrow> nat" where
  "shm_off f = the (map_of (fst (offsets 0 shm_fields)) f)"

section \<open>Python\<close>

definition code_type :: "char \<Rightarrow> ctype option" where
  "code_type ch = map_of
     [(CHR ''Q'', U64), (CHR ''q'', I64), (CHR ''I'', U32), (CHR ''i'', I32), (CHR ''H'', U16), (CHR ''h'', I16), (CHR ''B'', U8), (CHR ''f'', F32)] ch"

definition count_of :: "char \<Rightarrow> nat option" where
  "count_of ch = map_of (zip ''0123456789'' [0..<10]) ch"

text \<open>A format as one code per element; a repeat count has one digit here. \<open>x\<close> is a byte of padding.\<close>

fun codes :: "string \<Rightarrow> string" where
  "codes [] = []"
| "codes [c] = [c]"
| "codes (c # d # cs) = (case count_of c of Some n \<Rightarrow> replicate n d @ codes cs | None \<Rightarrow> c # codes (d # cs))"

definition code_size :: "char \<Rightarrow> nat" where
  "code_size ch = (case code_type ch of Some t \<Rightarrow> c_size t | None \<Rightarrow> 1)"

definition calcsize :: "string \<Rightarrow> nat" where
  "calcsize fmt = sum_list (map code_size (codes fmt))"

text \<open>\<open>struct.unpack\<close>: the elements one after the other without alignment; a buffer of another size is an error.\<close>

fun unpack_codes :: "string \<Rightarrow> u8 list \<Rightarrow> cval list option" where
  "unpack_codes [] bs = (if bs = [] then Some [] else None)"
| "unpack_codes (ch # cs) bs =
     (if length bs < code_size ch then None
      else case code_type ch of
        None \<Rightarrow> unpack_codes cs (drop 1 bs)
      | Some t \<Rightarrow> map_option ((#) (load t (take (c_size t) bs))) (unpack_codes cs (drop (c_size t) bs)))"

definition unpack_from :: "string \<Rightarrow> u8 list \<Rightarrow> nat \<Rightarrow> cval list option" where
  "unpack_from fmt bs off = unpack_codes (codes fmt) (take (calcsize fmt) (drop off bs))"

abbreviation (input) OFF_NAMES :: nat where "OFF_NAMES \<equiv> 24"
abbreviation (input) OFF_SEQ :: nat where "OFF_SEQ \<equiv> 120"
abbreviation (input) OFF_SAMPLE :: nat where "OFF_SAMPLE \<equiv> 128"
abbreviation (input) OFF_MODE_REQ :: nat where "OFF_MODE_REQ \<equiv> 320"
abbreviation (input) OFF_FAULTS :: nat where "OFF_FAULTS \<equiv> 324"
abbreviation (input) OFF_SUP_BEAT :: nat where "OFF_SUP_BEAT \<equiv> 328"
abbreviation (input) OFF_CMD :: nat where "OFF_CMD \<equiv> 336"
abbreviation (input) OFF_ACK :: nat where "OFF_ACK \<equiv> 352"
abbreviation (input) SHM_SIZE :: nat where "SHM_SIZE \<equiv> 360"

definition HEADER :: string where "HEADER = ''IIIiII''"
definition CMD :: string where "CMD = ''IIii''"
definition ACK :: string where "ACK = ''Ii''"

definition SAMPLE :: string where
  "SAMPLE = ''Qq'' @ ''iiii'' @ ''I'' @ ''BBBB'' @ ''6h6h6h6h6h'' @ ''6B6B'' @ ''6f6f'' @ ''IIII'' @ ''ii'' @ ''HHB3x''"

text \<open>The variables that \<open>read\<close> unpacks the tuple into, with the number of elements each takes.\<close>

definition py_vars :: "(string \<times> nat) list" where
  "py_vars =
     [(''cycle'', 1), (''t_ns'', 1), (''wake'', 1), (''exe'', 1), (''bus_l'', 1), (''bus_f'', 1), (''faults'', 1), (''mode'', 1), (''l_ok'', 1), (''f_ok'', 1), (''torque'', 1),
      (''l_pos'', 6), (''f_goal'', 6), (''f_pos'', 6), (''f_vel'', 6), (''f_load'', 6), (''f_volt'', 6), (''f_temp'', 6), (''l_norm'', 6), (''f_norm'', 6),
      (''overruns'', 1), (''missed'', 1), (''l_errs'', 1), (''f_errs'', 1), (''max_wake'', 1), (''max_exec'', 1), (''l_st'', 1), (''f_st'', 1), (''ramping'', 1)]"

fun take_vars :: "(string \<times> nat) list \<Rightarrow> 'a list \<Rightarrow> (string \<times> 'a list) list" where
  "take_vars [] v = []"
| "take_vars ((x, n) # xs) v = (x, take n v) # take_vars xs (drop n v)"

definition py_read :: "u8 list \<Rightarrow> (string \<times> cval list) list option" where
  "py_read bs = map_option (take_vars py_vars) (unpack_from SAMPLE bs OFF_SAMPLE)"

text \<open>What each variable is meant to be: the field of \<open>so101_sample_t\<close> its dictionary entry is documented as.\<close>

definition py_meaning :: "(string \<times> string) list" where
  "py_meaning =
     [(''cycle'', ''cycle''), (''t_ns'', ''t_mono_ns''), (''wake'', ''wake_lat_ns''), (''exe'', ''exec_ns''), (''bus_l'', ''bus_leader_ns''),
      (''bus_f'', ''bus_follower_ns''), (''faults'', ''faults''), (''mode'', ''mode''), (''l_ok'', ''leader_ok''), (''f_ok'', ''follower_ok''),
      (''torque'', ''torque_on''), (''l_pos'', ''leader_pos''), (''f_goal'', ''follower_goal''), (''f_pos'', ''follower_pos''),
      (''f_vel'', ''follower_vel''), (''f_load'', ''follower_load''), (''f_volt'', ''follower_volt''), (''f_temp'', ''follower_temp''),
      (''l_norm'', ''leader_norm''), (''f_norm'', ''follower_norm''), (''overruns'', ''overruns''), (''missed'', ''missed_slots''),
      (''l_errs'', ''leader_errs''), (''f_errs'', ''follower_errs''), (''max_wake'', ''max_wake_lat_ns''), (''max_exec'', ''max_exec_ns''),
      (''l_st'', ''leader_streak''), (''f_st'', ''follower_streak''), (''ramping'', ''ramping'')]"

section \<open>Lemmas\<close>

text \<open>Where \<open>unpack\<close> finds its elements, which does not depend on the bytes.\<close>

fun py_slots :: "string \<Rightarrow> nat \<Rightarrow> slot list" where
  "py_slots [] off = []"
| "py_slots (ch # cs) off = (case code_type ch of None \<Rightarrow> [] | Some t \<Rightarrow> [(t, off)]) @ py_slots cs (off + code_size ch)"

lemma code_size_type: "code_type ch = Some t \<Longrightarrow> code_size ch = c_size t" "code_type ch = None \<Longrightarrow> code_size ch = 1"
  by (simp_all add: code_size_def)

lemma unpack_slots:
  "off + sum_list (map code_size cs) \<le> length bs \<Longrightarrow>
    unpack_codes cs (take (sum_list (map code_size cs)) (drop off bs)) = Some (map (load_at bs) (py_slots cs off))"
proof (induction cs arbitrary: off)
  case Nil
  then show ?case by simp
next
  case (Cons ch cs)
  then have "unpack_codes cs (take (sum_list (map code_size cs)) (drop (off + code_size ch) bs)) =
      Some (map (load_at bs) (py_slots cs (off + code_size ch)))" by simp
  then show ?case
    using Cons.prems
    by (cases "code_type ch") (auto simp: code_size_type drop_take load_at_def add.commute min_def)
qed

lemma unpack_from_slots:
  "off + calcsize fmt \<le> length bs \<Longrightarrow> unpack_from fmt bs off = Some (map (load_at bs) (py_slots (codes fmt) off))"
  unfolding unpack_from_def calcsize_def by (rule unpack_slots)

lemma take_vars_map: "take_vars xs (map f v) = map (\<lambda>(x, ss). (x, map f ss)) (take_vars xs v)"
  by (induction xs v rule: take_vars.induct) (simp_all add: take_map drop_map)

lemma concat_struct: "concat (map snd (c_struct fs base bs)) = map (load_at bs) (concat (map snd (c_slots fs base)))"
  by (simp add: c_struct_def map_concat case_prod_unfold comp_def)

lemma map_of_snd: "map_of (map (\<lambda>(x, ss). (x, g ss)) xs) k = map_option g (map_of xs k)"
  by (induction xs) auto

text \<open>Both sides look in the same places.\<close>

definition renamed :: "(string \<times> 'a) list \<Rightarrow> (string \<times> 'a) list" where
  "renamed xs = map2 (\<lambda>(_, f) (_, x). (f, x)) py_meaning xs"

lemma renamed_map: "renamed (map (\<lambda>(v, ss). (v, g ss)) xs) = map (\<lambda>(f, ss). (f, g ss)) (renamed xs)"
  by (simp add: renamed_def zip_map2 case_prod_unfold comp_def)

lemma sample_slots:
  "map fst (take_vars py_vars (py_slots (codes SAMPLE) OFF_SAMPLE)) = map fst py_meaning"
  "renamed (take_vars py_vars (py_slots (codes SAMPLE) OFF_SAMPLE)) = butlast (c_slots sample_fields OFF_SAMPLE)"
  "fst (last (c_slots sample_fields OFF_SAMPLE)) = ''_pad1''"
  by code_simp+

lemma block_slots:
  "py_slots (codes HEADER) 0 = concat (map snd (take 6 (c_slots shm_fields 0)))"
  "py_slots (codes CMD) OFF_CMD = concat (map snd (c_slots cmd_fields OFF_CMD))"
  "py_slots (codes ACK) OFF_ACK = concat (map snd (c_slots ack_fields OFF_ACK))"
  by code_simp+

lemma sizes: "struct_size sample_fields = calcsize SAMPLE" "shm_total_size = SHM_SIZE"
  "calcsize SAMPLE = 192" "calcsize HEADER = 24" "calcsize CMD = 16" "calcsize ACK = 8"
  by code_simp+

lemma block_offsets:
  "fst (offsets 0 shm_fields) =
   [(''magic'', 0), (''version'', 4), (''size'', 8), (''daemon_pid'', 12), (''period_ns'', 16), (''n_joints'', 20), (''joint_names'', OFF_NAMES),
     (''seq'', OFF_SEQ), (''_pad0'', 124), (''s'', OFF_SAMPLE), (''mode_req'', OFF_MODE_REQ), (''faults'', OFF_FAULTS), (''sup_beat'', OFF_SUP_BEAT),
     (''cmd'', OFF_CMD), (''ack'', OFF_ACK)]"
  by code_simp

section \<open>Property\<close>

text \<open>C40. The Python client decodes what the C compiler lays out. For every content of the memory block, the list of variables
  that \<open>read\<close> unpacks with its format string is, renamed to the fields they stand for, exactly the list of fields of
  \<open>so101_sample_t\<close> without the padding at the end, each with the values a C program loads from the same bytes, signs
  and array elements included; so are the six words of the header, the command and the answer; and the offsets
  and sizes the client writes down are those of the C structure.\<close>

theorem shm_layout:
  assumes "length bs = shm_total_size"
  shows "(\<exists>xs. py_read bs = Some xs \<and> map fst xs = map fst py_meaning \<and>
      map2 (\<lambda>(_, f) (_, x). (f, x)) py_meaning xs = butlast (c_struct sample_fields (shm_off ''s'') bs)) \<and>
    unpack_from HEADER bs 0 = Some (concat (map snd (take 6 (c_struct shm_fields 0 bs)))) \<and>
    unpack_from CMD bs OFF_CMD = Some (concat (map snd (c_struct cmd_fields (shm_off ''cmd'') bs))) \<and>
    unpack_from ACK bs OFF_ACK = Some (concat (map snd (c_struct ack_fields (shm_off ''ack'') bs))) \<and>
    calcsize SAMPLE = struct_size sample_fields \<and> SHM_SIZE = shm_total_size \<and>
    map shm_off [''joint_names'', ''seq'', ''mode_req'', ''faults'', ''sup_beat''] = [OFF_NAMES, OFF_SEQ, OFF_MODE_REQ, OFF_FAULTS, OFF_SUP_BEAT]"
proof -
  have off: "shm_off ''s'' = OFF_SAMPLE" "shm_off ''cmd'' = OFF_CMD" "shm_off ''ack'' = OFF_ACK"
    "map shm_off [''joint_names'', ''seq'', ''mode_req'', ''faults'', ''sup_beat''] = [OFF_NAMES, OFF_SEQ, OFF_MODE_REQ, OFF_FAULTS, OFF_SUP_BEAT]"
    by (simp_all add: shm_off_def block_offsets)
  have len: "length bs = 360" using assms by (simp add: sizes)
  let ?ss = "take_vars py_vars (py_slots (codes SAMPLE) OFF_SAMPLE)"
  let ?xs = "map (\<lambda>(v, ss). (v, map (load_at bs) ss)) ?ss"
  have "py_read bs = Some ?xs" using unpack_from_slots [of OFF_SAMPLE SAMPLE bs] len by (simp add: py_read_def sizes take_vars_map)
  moreover have "map fst ?xs = map fst py_meaning" by (simp add: comp_def case_prod_unfold flip: sample_slots(1))
  moreover have "renamed ?xs = butlast (c_struct sample_fields OFF_SAMPLE bs)"
    by (simp add: renamed_map sample_slots(2) c_struct_def map_butlast)
  moreover have "unpack_from HEADER bs 0 = Some (concat (map snd (take 6 (c_struct shm_fields 0 bs))))"
    using unpack_from_slots [of 0 HEADER bs] len
    by (simp add: sizes block_slots c_struct_def take_map map_concat case_prod_unfold comp_def)
  moreover have "unpack_from CMD bs OFF_CMD = Some (concat (map snd (c_struct cmd_fields OFF_CMD bs)))"
    using unpack_from_slots [of OFF_CMD CMD bs] len by (simp add: sizes block_slots concat_struct)
  moreover have "unpack_from ACK bs OFF_ACK = Some (concat (map snd (c_struct ack_fields OFF_ACK bs)))"
    using unpack_from_slots [of OFF_ACK ACK bs] len by (simp add: sizes block_slots concat_struct)
  ultimately show ?thesis unfolding off renamed_def using sizes(1,2) by metis
qed

theorem shm_layout_witness:
  "\<exists>xs. py_read (replicate 130 0 @ [7] @ replicate 229 0) = Some xs \<and>
     map2 (\<lambda>(_, f) (_, x). (f, x)) py_meaning xs = butlast (c_struct sample_fields (shm_off ''s'') (replicate 130 0 @ [7] @ replicate 229 0))"
  using shm_layout [of "replicate 130 0 @ [7] @ replicate 229 0"] by (auto simp: shm_total_size)

end
