(* ===== verification/Seqlock.thy ===== *)
theory Seqlock
  imports Prelude
begin

text \<open>
  The seqlock of \<^verbatim>\<open>so101_shm.h\<close> under interleaving: one writer (the control thread in
  \<^verbatim>\<open>so101_shm_publish\<close>) and one reader (any client or the supervisor in \<^verbatim>\<open>so101_shm_read\<close>), whose
  loads and stores of the 32-bit counter and of the single memory cells of the sample interleave
  arbitrarily; either \<open>memcpy\<close> may copy the cells in any order. Steps are atomic and sequentially
  consistent, which is what the fences of the code are there to give; readers do not write, so
  several readers are several copies of this system.

  \<open>sl_hist\<close> (every sample published so far, the initial memory first) and the counter of writer
  stores since the reader loaded \<open>q1\<close> are ghost state: no guard reads them.
\<close>

section \<open>The step relation\<close>

datatype 'a wr =
    WIdle
  | WLoaded u32 "'a list"
  | WCopy u32 "'a list" "nat set"

datatype 'a rd =
    RIdle
  | RTry nat
  | RCopy nat u32 "'a list" "nat set" nat
  | RCheck nat u32 "'a list" nat
  | RDone nat "'a list" nat
  | RFail

record 'a seqlock =
  sl_seq :: u32
  sl_cells :: "'a list"
  sl_wr :: "'a wr"
  sl_rd :: "'a rd"
  sl_hist :: "'a list list"

text \<open>A store to the counter, seen by the ghost counter of a reader in progress.\<close>

fun rd_tick :: "'a rd \<Rightarrow> 'a rd" where
  "rd_tick (RCopy k q1 dst todo n) = RCopy k q1 dst todo (Suc n)"
| "rd_tick (RCheck k q1 dst n) = RCheck k q1 dst (Suc n)"
| "rd_tick r = r"

inductive sl_step :: "nat \<Rightarrow> 'a seqlock \<Rightarrow> 'a seqlock \<Rightarrow> bool" for max_tries :: nat where
  w_load: "sl_wr s = WIdle \<Longrightarrow> length src = length (sl_cells s) \<Longrightarrow>
    sl_step max_tries s (s\<lparr>sl_wr := WLoaded (sl_seq s) src\<rparr>)"
| w_odd: "sl_wr s = WLoaded q src \<Longrightarrow>
    sl_step max_tries s (s\<lparr>sl_seq := q + 1, sl_wr := WCopy q src {..<length src}, sl_rd := rd_tick (sl_rd s)\<rparr>)"
| w_cell: "sl_wr s = WCopy q src todo \<Longrightarrow> i \<in> todo \<Longrightarrow>
    sl_step max_tries s (s\<lparr>sl_cells := (sl_cells s)[i := src ! i], sl_wr := WCopy q src (todo - {i})\<rparr>)"
| w_even: "sl_wr s = WCopy q src {} \<Longrightarrow>
    sl_step max_tries s (s\<lparr>sl_seq := q + 2, sl_wr := WIdle, sl_hist := sl_hist s @ [src], sl_rd := rd_tick (sl_rd s)\<rparr>)"
| r_start: "sl_rd s = RIdle \<Longrightarrow> sl_step max_tries s (s\<lparr>sl_rd := RTry 0\<rparr>)"
| r_give_up: "sl_rd s = RTry k \<Longrightarrow> k \<ge> max_tries \<Longrightarrow> sl_step max_tries s (s\<lparr>sl_rd := RFail\<rparr>)"
| r_busy: "sl_rd s = RTry k \<Longrightarrow> k < max_tries \<Longrightarrow> sl_seq s AND 1 \<noteq> 0 \<Longrightarrow>
    sl_step max_tries s (s\<lparr>sl_rd := RTry (Suc k)\<rparr>)"
| r_load: "sl_rd s = RTry k \<Longrightarrow> k < max_tries \<Longrightarrow> sl_seq s AND 1 = 0 \<Longrightarrow> length dst = length (sl_cells s) \<Longrightarrow>
    sl_step max_tries s (s\<lparr>sl_rd := RCopy k (sl_seq s) dst {..<length dst} 0\<rparr>)"
| r_cell: "sl_rd s = RCopy k q1 dst todo n \<Longrightarrow> i \<in> todo \<Longrightarrow>
    sl_step max_tries s (s\<lparr>sl_rd := RCopy k q1 (dst[i := sl_cells s ! i]) (todo - {i}) n\<rparr>)"
| r_copied: "sl_rd s = RCopy k q1 dst {} n \<Longrightarrow> sl_step max_tries s (s\<lparr>sl_rd := RCheck k q1 dst n\<rparr>)"
| r_same: "sl_rd s = RCheck k q1 dst n \<Longrightarrow> sl_seq s = q1 \<Longrightarrow> sl_step max_tries s (s\<lparr>sl_rd := RDone k dst n\<rparr>)"
| r_raced: "sl_rd s = RCheck k q1 dst n \<Longrightarrow> sl_seq s \<noteq> q1 \<Longrightarrow> sl_step max_tries s (s\<lparr>sl_rd := RTry (Suc k)\<rparr>)"

definition sl_init :: "'a list \<Rightarrow> 'a seqlock" where
  "sl_init m = \<lparr>sl_seq = 0, sl_cells = m, sl_wr = WIdle, sl_rd = RIdle, sl_hist = [m]\<rparr>"

inductive_cases sl_stepE: "sl_step max_tries s s'"

section \<open>Invariant\<close>

definition wr_inv :: "'a seqlock \<Rightarrow> bool" where
  "wr_inv s \<longleftrightarrow> sl_hist s \<noteq> [] \<and> (case sl_wr s of
     WIdle \<Rightarrow> even (sl_seq s) \<and> sl_cells s = last (sl_hist s)
   | WLoaded q src \<Rightarrow> q = sl_seq s \<and> even q \<and> sl_cells s = last (sl_hist s) \<and> length src = length (sl_cells s)
   | WCopy q src todo \<Rightarrow> even q \<and> sl_seq s = q + 1 \<and> length src = length (sl_cells s) \<and>
       todo \<subseteq> {..<length src} \<and> (\<forall>i<length src. i \<notin> todo \<longrightarrow> sl_cells s ! i = src ! i))"

text \<open>A reader that saw an even counter and no store since has copied cells of the last sample.\<close>

definition rd_inv :: "'a seqlock \<Rightarrow> bool" where
  "rd_inv s \<longleftrightarrow> (case sl_rd s of
     RCopy k q1 dst todo n \<Rightarrow> even q1 \<and> sl_seq s = q1 + of_nat n \<and> length dst = length (sl_cells s) \<and>
       todo \<subseteq> {..<length dst} \<and>
       (n = 0 \<longrightarrow> (\<forall>i<length dst. i \<notin> todo \<longrightarrow> dst ! i = last (sl_hist s) ! i))
   | RCheck k q1 dst n \<Rightarrow> even q1 \<and> sl_seq s = q1 + of_nat n \<and> length dst = length (sl_cells s) \<and>
       (n = 0 \<longrightarrow> dst = last (sl_hist s))
   | RDone k dst n \<Rightarrow> n < 2 ^ 32 \<longrightarrow> dst \<in> set (sl_hist s)
   | _ \<Rightarrow> True)"

definition sl_inv :: "'a seqlock \<Rightarrow> bool" where
  "sl_inv s \<longleftrightarrow> wr_inv s \<and> rd_inv s \<and> length (sl_cells s) = length (last (sl_hist s))"

lemma sl_inv_init: "sl_inv (sl_init m)"
  by (simp add: sl_inv_def sl_init_def wr_inv_def rd_inv_def)

lemma even_and_one: "(x AND 1 = 0) = even (x :: 'a::len word)"
  by (simp add: and_one_eq even_iff_mod_2_eq_zero)

lemma odd_u32_succ: "even q \<Longrightarrow> odd (q + 1 :: u32)"
  by simp

lemma wrap_zero: "of_nat n = (0 :: u32) \<Longrightarrow> n < 2 ^ 32 \<Longrightarrow> n = 0"
  using word_of_nat_eq_0_iff [where 'a = 32, of n] by (auto dest!: dvd_imp_le)

lemma cells_last_even:
  assumes "wr_inv s" and "even (sl_seq s)"
  shows "sl_cells s = last (sl_hist s)"
  using assms by (auto simp: wr_inv_def split: wr.splits)

lemma wr_inv_step: "sl_step max_tries s s' \<Longrightarrow> sl_inv s \<Longrightarrow> wr_inv s'"
proof (induction rule: sl_step.induct)
  case (w_cell s q src todo i)
  then show ?case by (auto simp: sl_inv_def wr_inv_def nth_list_update)
next
  case (w_even s q src)
  then have "sl_cells s = src" by (auto simp: sl_inv_def wr_inv_def intro: nth_equalityI)
  with w_even show ?case by (simp add: sl_inv_def wr_inv_def)
qed (auto simp: sl_inv_def wr_inv_def split: wr.splits)

lemma rd_tick_inv:
  assumes "rd_inv s" and "sl_seq s' = sl_seq s + 1" and "sl_rd s' = rd_tick (sl_rd s)"
    and "length (sl_cells s') = length (sl_cells s)" and "set (sl_hist s) \<subseteq> set (sl_hist s')"
  shows "rd_inv s'"
  using assms by (cases "sl_rd s") (auto simp: rd_inv_def)

lemma rd_inv_step: "sl_step max_tries s s' \<Longrightarrow> sl_inv s \<Longrightarrow> rd_inv s'"
proof (induction rule: sl_step.induct)
  case (w_odd s q src)
  show ?case by (rule rd_tick_inv [of s]) (use w_odd in \<open>auto simp: sl_inv_def wr_inv_def\<close>)
next
  case (w_even s q src)
  show ?case by (rule rd_tick_inv [of s]) (use w_even in \<open>auto simp: sl_inv_def wr_inv_def\<close>)
next
  case (r_cell s k q1 dst todo n i)
  then have inv: "even q1" "sl_seq s = q1 + of_nat n" "length dst = length (sl_cells s)" "todo \<subseteq> {..<length dst}"
    "n = 0 \<longrightarrow> (\<forall>i<length dst. i \<notin> todo \<longrightarrow> dst ! i = last (sl_hist s) ! i)"
    by (auto simp: sl_inv_def rd_inv_def)
  moreover have "sl_cells s = last (sl_hist s)" if "n = 0"
    using cells_last_even [of s] r_cell.prems inv(1,2) that by (simp add: sl_inv_def)
  ultimately show ?case using r_cell.hyps by (auto simp: rd_inv_def nth_list_update)
next
  case (r_copied s k q1 dst n)
  then show ?case by (auto simp: sl_inv_def rd_inv_def intro: nth_equalityI)
next
  case (r_same s k q1 dst n)
  then have "n < 2 ^ 32 \<longrightarrow> dst = last (sl_hist s)" "sl_hist s \<noteq> []"
    using wrap_zero [of n] by (auto simp: sl_inv_def rd_inv_def wr_inv_def)
  then show ?case by (auto simp: rd_inv_def)
qed (auto simp: sl_inv_def rd_inv_def even_and_one split: rd.splits)

lemma sl_inv_step: "sl_step max_tries s s' \<Longrightarrow> sl_inv s \<Longrightarrow> sl_inv s'"
proof -
  assume st: "sl_step max_tries s s'" and inv: "sl_inv s"
  from st inv have "length (sl_cells s') = length (last (sl_hist s'))"
    by (cases rule: sl_step.cases) (auto simp: sl_inv_def wr_inv_def)
  then show ?thesis using wr_inv_step [OF st inv] rd_inv_step [OF st inv] by (simp add: sl_inv_def)
qed

lemma sl_inv_reachable: "(sl_step max_tries)\<^sup>*\<^sup>* (sl_init m) s \<Longrightarrow> sl_inv s"
  by (induction rule: rtranclp_induct) (auto intro: sl_inv_init sl_inv_step)

section \<open>Properties\<close>

text \<open>C11. A snapshot is never torn. In every interleaving of the writer's and the reader's memory accesses, a
  read that reports success returns one of the samples the control thread published (or the initial
  memory), whole, even if the 32-bit counter wrapped around, as long as fewer than two to the 32
  stores to the counter (two per published sample) happened during that one attempt.\<close>

theorem seqlock_consistent:
  assumes "(sl_step max_tries)\<^sup>*\<^sup>* (sl_init m) s" and "sl_rd s = RDone k dst n" and "n < 2 ^ 32"
  shows "dst \<in> set (sl_hist s)"
  using sl_inv_reachable [OF assms(1)] assms(2,3) by (simp add: sl_inv_def rd_inv_def)

text \<open>A sample of one cell is published while a reader waits, then read at the second attempt.\<close>

lemma seqlock_run:
  "(sl_step 3)\<^sup>*\<^sup>* (sl_init [7 :: nat])
     \<lparr>sl_seq = 2, sl_cells = [8], sl_wr = WIdle, sl_rd = RDone 1 [8] 0, sl_hist = [[7], [8]]\<rparr>"
proof -
  define S where "S q c w r h = \<lparr>sl_seq = q, sl_cells = c, sl_wr = w, sl_rd = r, sl_hist = h\<rparr>"
    for q c and w :: "nat wr" and r h
  have "sl_step 3 (S 0 [7] WIdle RIdle [[7]]) (S 0 [7] (WLoaded 0 [8]) RIdle [[7]])"
    using sl_step.w_load [of "S 0 [7] WIdle RIdle [[7]]" "[8]" 3] by (simp add: S_def)
  moreover have "sl_step 3 (S 0 [7] (WLoaded 0 [8]) RIdle [[7]]) (S 1 [7] (WCopy 0 [8] {0}) RIdle [[7]])"
    using sl_step.w_odd [of "S 0 [7] (WLoaded 0 [8]) RIdle [[7]]" 0 "[8]" 3] by (simp add: S_def lessThan_Suc)
  moreover have "sl_step 3 (S 1 [7] (WCopy 0 [8] {0}) RIdle [[7]]) (S 1 [7] (WCopy 0 [8] {0}) (RTry 0) [[7]])"
    using sl_step.r_start [of "S 1 [7] (WCopy 0 [8] {0}) RIdle [[7]]" 3] by (simp add: S_def)
  moreover have "sl_step 3 (S 1 [7] (WCopy 0 [8] {0}) (RTry 0) [[7]]) (S 1 [7] (WCopy 0 [8] {0}) (RTry 1) [[7]])"
    using sl_step.r_busy [of "S 1 [7] (WCopy 0 [8] {0}) (RTry 0) [[7]]" 0 3] by (simp add: S_def)
  moreover have "sl_step 3 (S 1 [7] (WCopy 0 [8] {0}) (RTry 1) [[7]]) (S 1 [8] (WCopy 0 [8] {}) (RTry 1) [[7]])"
    using sl_step.w_cell [of "S 1 [7] (WCopy 0 [8] {0}) (RTry 1) [[7]]" 0 "[8]" "{0}" 0 3] by (simp add: S_def)
  moreover have "sl_step 3 (S 1 [8] (WCopy 0 [8] {}) (RTry 1) [[7]]) (S 2 [8] WIdle (RTry 1) [[7], [8]])"
    using sl_step.w_even [of "S 1 [8] (WCopy 0 [8] {}) (RTry 1) [[7]]" 0 "[8]" 3] by (simp add: S_def)
  moreover have "sl_step 3 (S 2 [8] WIdle (RTry 1) [[7], [8]]) (S 2 [8] WIdle (RCopy 1 2 [0] {0} 0) [[7], [8]])"
    using sl_step.r_load [of "S 2 [8] WIdle (RTry 1) [[7], [8]]" 1 3 "[0]"]
    by (simp add: S_def lessThan_Suc even_and_one)
  moreover have "sl_step 3 (S 2 [8] WIdle (RCopy 1 2 [0] {0} 0) [[7], [8]]) (S 2 [8] WIdle (RCopy 1 2 [8] {} 0) [[7], [8]])"
    using sl_step.r_cell [of "S 2 [8] WIdle (RCopy 1 2 [0] {0} 0) [[7], [8]]" 1 2 "[0]" "{0}" 0 0 3]
    by (simp add: S_def)
  moreover have "sl_step 3 (S 2 [8] WIdle (RCopy 1 2 [8] {} 0) [[7], [8]]) (S 2 [8] WIdle (RCheck 1 2 [8] 0) [[7], [8]])"
    using sl_step.r_copied [of "S 2 [8] WIdle (RCopy 1 2 [8] {} 0) [[7], [8]]" 1 2 "[8]" 0 3] by (simp add: S_def)
  moreover have "sl_step 3 (S 2 [8] WIdle (RCheck 1 2 [8] 0) [[7], [8]]) (S 2 [8] WIdle (RDone 1 [8] 0) [[7], [8]])"
    using sl_step.r_same [of "S 2 [8] WIdle (RCheck 1 2 [8] 0) [[7], [8]]" 1 2 "[8]" 0 3] by (simp add: S_def)
  ultimately have "(sl_step 3)\<^sup>*\<^sup>* (S 0 [7] WIdle RIdle [[7]]) (S 2 [8] WIdle (RDone 1 [8] 0) [[7], [8]])"
    by (meson converse_rtranclp_into_rtranclp rtranclp.rtrancl_refl)
  then show ?thesis by (simp add: S_def sl_init_def)
qed

theorem seqlock_consistent_witness:
  "\<exists>s. (sl_step 3)\<^sup>*\<^sup>* (sl_init [7 :: nat]) s \<and> sl_rd s = RDone 1 [8] 0 \<and> [8] \<in> set (sl_hist s)"
proof (intro exI conjI)
  show "(sl_step 3)\<^sup>*\<^sup>* (sl_init [7 :: nat])
      \<lparr>sl_seq = 2, sl_cells = [8], sl_wr = WIdle, sl_rd = RDone 1 [8] 0, sl_hist = [[7], [8]]\<rparr>"
    by (rule seqlock_run)
  show "[8] \<in> set (sl_hist \<lparr>sl_seq = 2, sl_cells = [8 :: nat], sl_wr = WIdle, sl_rd = RDone 1 [8] 0, sl_hist = [[7], [8]]\<rparr>)"
    by (rule seqlock_consistent [OF seqlock_run, of 1 "[8]" 0]) simp_all
qed simp

end
