(* ===== verification/Float32.thy ===== *)
theory Float32
  imports Complex_Main "HOL-Library.Log_Nat"
begin

text \<open>
  IEEE 754 binary32 arithmetic as the calibration code uses it (C \<open>float\<close>, compiled with
  \<^verbatim>\<open>-std=c11\<close>, so without contraction or extra precision). A finite float is its rational value;
  every operation is the exact one followed by \<open>rnd32\<close>, rounding to nearest, ties to even, with
  24 bits of significand and gradual underflow. Infinities, NaN and the sign of zero are not
  represented: the program's values stay far below the overflow threshold and no denominator is
  zero where the theorems apply. The definitions compute.
\<close>

section \<open>Rounding\<close>

text \<open>\<open>flog2 x\<close> is the exponent of the binade of \<open>x > 0\<close>.\<close>

definition flog2 :: "rat \<Rightarrow> int" where
  "flog2 x = (let (p, q) = quotient_of x; e = bitlen p - bitlen q
              in if 2 powi e \<le> x then e else e - 1)"

definition rne :: "rat \<Rightarrow> int" where
  "rne x = (let k = \<lfloor>x\<rfloor>; d = x - of_int k
            in if d < 1 / 2 then k else if 1 / 2 < d then k + 1 else if even k then k else k + 1)"

definition quantum :: "rat \<Rightarrow> int" where
  "quantum x = max (flog2 \<bar>x\<bar> - 23) (- 149)"

definition rnd32 :: "rat \<Rightarrow> rat" where
  "rnd32 x = (if x = 0 then 0 else of_int (rne (x / 2 powi quantum x)) * 2 powi quantum x)"

text \<open>The same rounding for binary64, which the period of the control loop uses.\<close>

definition rnd64 :: "rat \<Rightarrow> rat" where
  "rnd64 x = (if x = 0 then 0 else
     let q = max (flog2 \<bar>x\<bar> - 52) (- 1074) in of_int (rne (x / 2 powi q)) * 2 powi q)"

definition f_of_int :: "int \<Rightarrow> rat" where
  "f_of_int n = rnd32 (of_int n)"

definition f_add :: "rat \<Rightarrow> rat \<Rightarrow> rat" where
  "f_add x y = rnd32 (x + y)"

definition f_sub :: "rat \<Rightarrow> rat \<Rightarrow> rat" where
  "f_sub x y = rnd32 (x - y)"

definition f_mul :: "rat \<Rightarrow> rat \<Rightarrow> rat" where
  "f_mul x y = rnd32 (x * y)"

definition f_div :: "rat \<Rightarrow> rat \<Rightarrow> rat" where
  "f_div x y = rnd32 (x / y)"

text \<open>Conversion to an integer type truncates towards zero.\<close>

definition f_trunc :: "rat \<Rightarrow> int" where
  "f_trunc x = (if 0 \<le> x then \<lfloor>x\<rfloor> else \<lceil>x\<rceil>)"

section \<open>Lemmas\<close>

lemma bitlen_powi:
  assumes "0 < p"
  shows "(2 :: rat) powi (bitlen p - 1) \<le> of_int p" and "(of_int p :: rat) < 2 powi bitlen p"
proof -
  have pos: "0 < bitlen p" using assms by (metis bitlen_eq_zero_iff bitlen_nonneg order_le_less not_le)
  have powi: "(2 :: rat) powi n = of_int (2 ^ nat n)" if "0 \<le> n" for n
    using that by (simp add: power_int_def)
  note b = bitlen_bounds [OF assms]
  show "(2 :: rat) powi (bitlen p - 1) \<le> of_int p"
    using b pos by (simp only: powi of_int_le_iff)
  show "(of_int p :: rat) < 2 powi bitlen p"
    using b pos by (simp only: powi of_int_less_iff)
qed

lemma flog2_bounds:
  assumes "0 < x"
  shows "2 powi flog2 x \<le> x \<and> x < 2 powi (flog2 x + 1)"
proof -
  obtain p q where pq: "quotient_of x = (p, q)" by (cases "quotient_of x")
  have q: "0 < q" using quotient_of_denom_pos [OF pq] .
  have x: "x = of_int p / of_int q" using quotient_of_div [OF pq] .
  have p: "0 < p" using assms q x by (simp add: zero_less_divide_iff)
  have "(of_int p :: rat) < 2 powi (bitlen p - bitlen q + 1) * 2 powi (bitlen q - 1)"
    using bitlen_powi(2) [OF p] by (simp add: power_int_add [symmetric])
  also have "\<dots> \<le> 2 powi (bitlen p - bitlen q + 1) * of_int q"
    using bitlen_powi(1) [OF q] by (intro mult_left_mono) simp_all
  finally have up: "x < 2 powi (bitlen p - bitlen q + 1)"
    using q by (simp add: x pos_divide_less_eq)
  have "2 powi (bitlen p - bitlen q - 1) * of_int q \<le> 2 powi (bitlen p - bitlen q - 1) * (2 :: rat) powi bitlen q"
    using bitlen_powi(2) [OF q] by (intro mult_left_mono) simp_all
  also have "\<dots> \<le> of_int p"
    using bitlen_powi(1) [OF p] by (simp add: power_int_add [symmetric])
  finally have lo: "2 powi (bitlen p - bitlen q - 1) \<le> x"
    using q by (simp add: x pos_le_divide_eq)
  show ?thesis
    using up lo by (simp add: flog2_def pq Let_def)
qed

lemma rne_error: "\<bar>of_int (rne x) - x\<bar> \<le> 1 / 2"
proof -
  have "of_int \<lfloor>x\<rfloor> \<le> x" "x < of_int \<lfloor>x\<rfloor> + 1" by linarith+
  then show ?thesis by (auto simp: rne_def Let_def abs_le_iff field_simps)
qed

lemma rne_le: "x \<le> of_int k \<Longrightarrow> rne x \<le> k"
proof -
  assume le: "x \<le> of_int k"
  consider "\<lfloor>x\<rfloor> < k" | "\<lfloor>x\<rfloor> = k" "x = of_int k"
    using le by (metis antisym floor_mono floor_of_int of_int_floor_le order_le_less)
  then show ?thesis by cases (auto simp: rne_def Let_def)
qed

lemma rne_ge: "of_int k \<le> x \<Longrightarrow> k \<le> rne x"
proof -
  assume "of_int k \<le> x"
  then have "k \<le> \<lfloor>x\<rfloor>" by (simp add: le_floor_iff)
  then show ?thesis by (auto simp: rne_def Let_def)
qed

lemma rne_of_int: "rne (of_int k) = k"
  by (simp add: rne_def)

text \<open>\<open>f32_val f\<close>: \<open>f\<close> has a significand of at most 24 bits above the smallest quantum.\<close>

definition f32_val :: "rat \<Rightarrow> bool" where
  "f32_val f \<longleftrightarrow> (\<exists>m k. f = of_int m * 2 powi k \<and> \<bar>m\<bar> < 2 ^ 24 \<and> - 149 \<le> k)"

lemma powi_pos [simp]: "0 < (2 :: rat) powi k"
  by simp

lemma multiple_of_quantum:
  assumes "k \<ge> q"
  shows "of_int m * 2 powi k = (of_int (m * 2 ^ nat (k - q)) :: rat) * 2 powi q"
proof -
  have "(2 :: rat) powi k = 2 powi (k - q) * 2 powi q" by (simp add: power_int_add [symmetric])
  then show ?thesis using assms by (simp add: power_int_def)
qed

lemma rnd32_le_multiple:
  assumes "x \<noteq> 0" and "x \<le> of_int k * 2 powi quantum x"
  shows "rnd32 x \<le> of_int k * 2 powi quantum x"
proof -
  have "x / 2 powi quantum x \<le> of_int k" using assms(2) by (simp add: pos_divide_le_eq)
  then have "(of_int (rne (x / 2 powi quantum x)) :: rat) \<le> of_int k" by (simp add: rne_le)
  then show ?thesis using assms(1) by (simp add: rnd32_def mult_right_mono)
qed

text \<open>Rounding never passes a representable number.\<close>

lemma rnd32_le:
  assumes f: "f32_val f" and le: "x \<le> f"
  shows "rnd32 x \<le> f"
proof (cases "x = 0")
  case True
  then show ?thesis using le by (simp add: rnd32_def)
next
  case False
  obtain m k where mk: "f = of_int m * 2 powi k" "\<bar>m\<bar> < 2 ^ 24" "- 149 \<le> k"
    using f by (auto simp: f32_val_def)
  show ?thesis
  proof (cases "quantum x \<le> k")
    case True
    then show ?thesis
      using rnd32_le_multiple [OF False, of "m * 2 ^ nat (k - quantum x)"] le
      by (simp add: mk(1) multiple_of_quantum [OF True])
  next
    case kq: False
    let ?e = "flog2 \<bar>x\<bar>"
    have q: "quantum x = ?e - 23" "k \<le> ?e - 24" using kq mk(3) by (auto simp: quantum_def max_def split: if_splits)
    have e: "2 powi ?e \<le> \<bar>x\<bar>" using flog2_bounds [of "\<bar>x\<bar>"] False by simp
    have "(of_int \<bar>m\<bar> :: rat) < of_int (2 ^ 24)" using mk(2) by (simp only: of_int_less_iff)
    then have "\<bar>f\<bar> < 2 ^ 24 * 2 powi k" by (simp add: mk(1) abs_mult)
    also have "\<dots> \<le> 2 ^ 24 * 2 powi (?e - 24)"
      using q(2) by (intro mult_left_mono power_int_increasing) simp_all
    also have "\<dots> = 2 powi ?e" by (simp add: power_int_diff)
    finally have fe: "\<bar>f\<bar> < 2 powi ?e" .
    then have "x \<le> - (2 powi ?e)" using e le by linarith
    moreover have m: "- (2 powi ?e) = (of_int (- (2 ^ 23)) :: rat) * 2 powi quantum x"
      unfolding q(1) by (simp add: power_int_diff)
    ultimately have "rnd32 x \<le> - (2 powi ?e)"
      using rnd32_le_multiple [OF False, of "- (2 ^ 23)"] by simp
    then show ?thesis using fe by linarith
  qed
qed

lemma rne_uminus: "rne (- x) = - rne x"
proof -
  define k d where "k = \<lfloor>x\<rfloor>" and "d = x - of_int k"
  have x: "x = of_int k + d" by (simp add: d_def)
  have d: "0 \<le> d" "d < 1" unfolding d_def k_def by linarith+
  have "\<lfloor>- x\<rfloor> = (if d = 0 then - k else - k - 1)"
    using d by (auto simp: x floor_eq_iff)
  moreover have "\<lfloor>d\<rfloor> = 0" using d by (simp add: floor_eq_iff)
  ultimately show ?thesis
    using d by (auto simp: rne_def Let_def k_def [symmetric] d_def [symmetric] x)
qed

lemma rnd32_uminus: "rnd32 (- x) = - rnd32 x"
  by (simp add: rnd32_def quantum_def rne_uminus)

lemma f32_val_uminus: "f32_val f \<Longrightarrow> f32_val (- f)"
  unfolding f32_val_def
proof (elim exE conjE)
  fix m k
  assume "f = of_int m * 2 powi k" "\<bar>m\<bar> < 2 ^ 24" "- 149 \<le> k"
  then show "\<exists>m k. - f = of_int m * 2 powi k \<and> \<bar>m\<bar> < 2 ^ 24 \<and> - 149 \<le> k"
    by (intro exI [of _ "- m"] exI [of _ k]) simp
qed

lemma rnd32_ge: "f32_val f \<Longrightarrow> f \<le> x \<Longrightarrow> f \<le> rnd32 x"
  using rnd32_le [OF f32_val_uminus, of f "- x"] by (simp add: rnd32_uminus)

lemma rnd32_exact: "f32_val f \<Longrightarrow> rnd32 f = f"
  by (simp add: antisym rnd32_le rnd32_ge)

lemma f32_val_int: "\<bar>n\<bar> < 2 ^ 24 \<Longrightarrow> f32_val (of_int n)"
  unfolding f32_val_def by (intro exI [of _ n] exI [of _ 0]) simp

lemma f32_val_numeral: "\<bar>numeral n :: int\<bar> < 2 ^ 24 \<Longrightarrow> f32_val (numeral n)"
  using f32_val_int [of "numeral n"] by simp

lemma f32_val_consts: "f32_val 0" "f32_val 1" "f32_val 100" "f32_val (- 100)" "f32_val 200"
  using f32_val_int [of 0] f32_val_int [of 1] f32_val_int [of 100] f32_val_int [of "- 100"]
    f32_val_int [of 200] by simp_all

lemma f_of_int_exact: "\<bar>n\<bar> < 2 ^ 24 \<Longrightarrow> f_of_int n = of_int n"
  by (simp add: f_of_int_def rnd32_exact f32_val_int)

text \<open>The error of one operation, from a bound on its exact result.\<close>

lemma rnd32_error:
  assumes "\<bar>x\<bar> \<le> 2 powi n" and "- 126 \<le> n"
  shows "\<bar>rnd32 x - x\<bar> \<le> 2 powi (n - 24)"
proof (cases "x = 0")
  case False
  have "2 powi flog2 \<bar>x\<bar> \<le> \<bar>x\<bar>" using flog2_bounds [of "\<bar>x\<bar>"] False by simp
  then have "(2 :: rat) powi flog2 \<bar>x\<bar> \<le> 2 powi n" using assms(1) by linarith
  then have "flog2 \<bar>x\<bar> \<le> n"
    using power_int_strict_increasing [of n "flog2 \<bar>x\<bar>" "2 :: rat"] by (cases "n < flog2 \<bar>x\<bar>") simp_all
  then have q: "quantum x \<le> n - 23" using assms(2) by (simp add: quantum_def)
  let ?u = "(2 :: rat) powi quantum x"
  have "rnd32 x - x = (of_int (rne (x / ?u)) - x / ?u) * ?u"
    using False by (simp add: rnd32_def left_diff_distrib)
  then have "\<bar>rnd32 x - x\<bar> = \<bar>of_int (rne (x / ?u)) - x / ?u\<bar> * ?u"
    by (simp add: abs_mult)
  also have "\<dots> \<le> 1 / 2 * ?u" by (intro mult_right_mono rne_error) simp
  also have "\<dots> \<le> 1 / 2 * 2 powi (n - 23)"
    using q by (intro mult_left_mono power_int_increasing) simp_all
  also have "\<dots> = 2 powi (n - 24)" by (simp add: power_int_diff)
  finally show ?thesis .
qed (simp add: rnd32_def)

lemma rnd32_err:
  assumes "\<bar>x\<bar> \<le> 2 ^ n"
  shows "\<bar>rnd32 x - x\<bar> \<le> 2 ^ n / 16777216"
proof -
  have "\<bar>rnd32 x - x\<bar> \<le> 2 powi (int n - 24)" using assms by (intro rnd32_error) simp_all
  then show ?thesis by (simp add: power_int_diff)
qed

section \<open>Double precision\<close>

lemma rnd64_nonneg: "0 \<le> x \<Longrightarrow> 0 \<le> rnd64 x"
proof (cases "x = 0")
  case False
  assume "0 \<le> x"
  then have "0 \<le> rne (x / 2 powi max (flog2 \<bar>x\<bar> - 52) (- 1074))" by (intro rne_ge) simp
  then show ?thesis using False by (simp add: rnd64_def Let_def)
qed (simp add: rnd64_def)

lemma rnd64_ge_one: "1 \<le> x \<Longrightarrow> 1 \<le> rnd64 x"
proof -
  assume x: "1 \<le> x"
  let ?e = "flog2 x"
  have b: "2 powi ?e \<le> x" "x < 2 powi (?e + 1)" using flog2_bounds [of x] x by simp_all
  have "0 \<le> ?e"
  proof (rule ccontr)
    assume "\<not> 0 \<le> ?e"
    then have "(2 :: rat) powi (?e + 1) \<le> 2 powi 0" by (intro power_int_increasing) simp_all
    then show False using b(2) x by simp
  qed
  then have q: "max (flog2 \<bar>x\<bar> - 52) (- 1074) = ?e - 52" using x by simp
  have "(of_int (2 ^ 52) :: rat) = 2 powi ?e / 2 powi (?e - 52)" by (simp add: power_int_diff)
  also have "\<dots> \<le> x / 2 powi (?e - 52)" using b(1) by (intro divide_right_mono) simp_all
  finally have "2 ^ 52 \<le> rne (x / 2 powi (?e - 52))" by (rule rne_ge)
  then have "(of_int (2 ^ 52) :: rat) \<le> of_int (rne (x / 2 powi (?e - 52)))" by (simp only: of_int_le_iff)
  then have "of_int (2 ^ 52) * 2 powi (?e - 52) \<le> (of_int (rne (x / 2 powi (?e - 52))) :: rat) * 2 powi (?e - 52)"
    by (intro mult_right_mono) simp_all
  moreover have "of_int (2 ^ 52) * 2 powi (?e - 52) = (2 :: rat) powi ?e" by (simp add: power_int_diff)
  moreover have "(1 :: rat) \<le> 2 powi ?e" using power_int_increasing [OF \<open>0 \<le> ?e\<close>, of "2 :: rat"] by simp
  ultimately have "1 \<le> of_int (rne (x / 2 powi (?e - 52))) * (2 :: rat) powi (?e - 52)" by linarith
  then show ?thesis using x q by (simp add: rnd64_def Let_def)
qed

text \<open>Rounding to double never passes a number with at most 53 bits.\<close>

lemma rnd64_le:
  assumes "0 < x" and "x \<le> of_int m * 2 powi p" and "m < 2 ^ 53" and "- 1074 \<le> p"
  shows "rnd64 x \<le> of_int m * 2 powi p"
proof -
  let ?q = "max (flog2 \<bar>x\<bar> - 52) (- 1074)"
  have q: "?q \<le> p"
  proof (rule ccontr)
    assume "\<not> ?q \<le> p"
    then have "p + 53 \<le> flog2 x" using assms(1,4) by auto
    then have "(2 :: rat) powi (p + 53) \<le> 2 powi flog2 x" by (intro power_int_increasing) simp_all
    also have "\<dots> \<le> of_int m * 2 powi p" using flog2_bounds [OF assms(1)] assms(2) by linarith
    finally have "(2 :: rat) ^ 53 \<le> of_int m" by (simp add: power_int_add)
    then have "of_int (2 ^ 53) \<le> (of_int m :: rat)" by simp
    then show False using assms(3) by (simp only: of_int_le_iff)
  qed
  have "x / 2 powi ?q \<le> of_int (m * 2 ^ nat (p - ?q))"
    using assms(2) unfolding multiple_of_quantum [OF q] by (simp add: pos_divide_le_eq)
  then have "(of_int (rne (x / 2 powi ?q)) :: rat) \<le> of_int (m * 2 ^ nat (p - ?q))"
    by (simp only: of_int_le_iff rne_le)
  then have "of_int (rne (x / 2 powi ?q)) * 2 powi ?q \<le> (of_int (m * 2 ^ nat (p - ?q)) :: rat) * 2 powi ?q"
    by (intro mult_right_mono) simp_all
  then show ?thesis using assms(1) unfolding multiple_of_quantum [OF q] by (simp add: rnd64_def Let_def)
qed

text \<open>A double above 10^9 is at least 2^-23 above it, so its quotient into 10^9 stays below 1 when it is rounded.\<close>

lemma double_above_giga:
  assumes "1000000000 < f" and "rnd64 f = f"
  shows "1000000000 + 2 powi - 23 \<le> f"
proof -
  let ?q = "max (flog2 \<bar>f\<bar> - 52) (- 1074)"
  have "29 \<le> flog2 f"
  proof (rule ccontr)
    assume "\<not> 29 \<le> flog2 f"
    then have "(2 :: rat) powi (flog2 f + 1) \<le> 2 powi 29" by (intro power_int_increasing) simp_all
    then show False using flog2_bounds [of f] assms(1) by simp
  qed
  then have q: "- 23 \<le> ?q" using assms(1) by simp
  have "of_int (rne (f / 2 powi ?q)) * 2 powi ?q = f" using assms by (simp add: rnd64_def Let_def)
  then obtain k where "f = of_int k * 2 powi ?q" by metis
  then obtain m where m: "f = of_int m * 2 powi - 23" unfolding multiple_of_quantum [OF q] by blast
  have "(of_int (1000000000 * 2 ^ 23) :: rat) < of_int m" using assms(1) by (simp add: m power_int_minus field_simps)
  then have "1000000000 * 2 ^ 23 + 1 \<le> m" by (simp only: of_int_less_iff)
  then have "(of_int (1000000000 * 2 ^ 23 + 1) :: rat) \<le> of_int m" by (simp only: of_int_le_iff)
  then show ?thesis by (simp add: m power_int_minus field_simps)
qed

lemma giga_quotient_zero:
  assumes "1000000000 < f" and "rnd64 f = f"
  shows "f_trunc (rnd64 (1000000000 / f)) = 0"
proof -
  let ?x = "1000000000 / f"
  have f: "1000000000 + 1 / 8388608 \<le> f" using double_above_giga [OF assms] by (simp add: power_int_minus)
  have x: "0 < ?x" using assms(1) by simp
  have "?x \<le> of_int (2 ^ 53 - 1) * 2 powi - 53"
    using f assms(1) by (simp add: power_int_minus pos_divide_le_eq)
  from rnd64_le [OF x this] have "rnd64 ?x < 1" by (simp add: power_int_minus)
  then show ?thesis using rnd64_nonneg [of ?x] x by (simp add: f_trunc_def floor_eq_iff)
qed

text \<open>The index of a percentile, \<open>(long)(n * q)\<close> in C, and why it stays inside the array.\<close>

definition pct_index :: "nat \<Rightarrow> rat \<Rightarrow> nat" where
  "pct_index n q = nat (f_trunc (rnd64 (of_nat n * rnd64 q)))"

lemma pct_index_less:
  assumes "0 < n" and "n < 2 ^ 43" and "0 < rnd64 q" and "rnd64 q \<le> 1023 / 1024"
  shows "pct_index n q < n"
proof -
  let ?x = "of_nat n * rnd64 q"
  have "?x \<le> of_nat n * (1023 / 1024)" using assms(4) by (intro mult_left_mono) simp_all
  also have "\<dots> = of_nat n - of_nat n / 1024" by simp
  also have "\<dots> \<le> of_nat n - 1 / 1024" using assms(1) by simp
  also have "\<dots> = of_int (1024 * int n - 1) * 2 powi - 10" by (simp add: power_int_def field_simps)
  finally have le: "?x \<le> of_int (1024 * int n - 1) * 2 powi - 10" .
  have "int n < 2 ^ 43" using assms(2) by (metis of_nat_less_iff of_nat_numeral of_nat_power)
  then have "1024 * int n - 1 < 2 ^ 53" by simp
  from rnd64_le [OF _ le this] have "rnd64 ?x \<le> of_int (1024 * int n - 1) * 2 powi - 10" using assms(1,3) by simp
  also have "\<dots> < of_nat n" by (simp add: power_int_def field_simps)
  finally have "rnd64 ?x < of_nat n" .
  moreover have "0 \<le> rnd64 ?x" using assms(3) by (intro rnd64_nonneg) simp
  ultimately have "f_trunc (rnd64 ?x) < int n" by (simp add: f_trunc_def floor_less_iff)
  then show ?thesis using assms(1) by (simp add: pct_index_def nat_less_iff) 
qed

lemma pct_quantiles:
  "0 < rnd64 (99 / 100) \<and> rnd64 (99 / 100) \<le> 1023 / 1024" "0 < rnd64 (999 / 1000) \<and> rnd64 (999 / 1000) \<le> 1023 / 1024"
  by code_simp+

end
