(* ===== verification/Calib.thy ===== *)
theory Calib
  imports Prelude Float32
begin

text \<open>
  Calibration, \<^verbatim>\<open>daemon/src/calib.c\<close>: the scanner for LeRobot's calibration files and the
  mapping between raw servo ticks and normalised joint positions. The file system is a
  parameter: the bytes of the file, or nothing when it cannot be opened. The string functions
  of the C library that the scanner calls are written out.
\<close>

section \<open>C strings\<close>

abbreviation (input) NUL :: char where "NUL \<equiv> CHR 0x00"

definition c_str :: "string \<Rightarrow> string" where
  "c_str bs = takeWhile (\<lambda>c. c \<noteq> NUL) bs"

fun strstr :: "string \<Rightarrow> string \<Rightarrow> string option" where
  "strstr [] pat = (if pat = [] then Some [] else None)"
| "strstr (c # cs) pat = (if take (length pat) (c # cs) = pat then Some (c # cs) else strstr cs pat)"

fun strchr :: "string \<Rightarrow> char \<Rightarrow> string option" where
  "strchr [] d = None"
| "strchr (c # cs) d = (if c = d then Some (c # cs) else strchr cs d)"

definition isspace :: "char \<Rightarrow> bool" where
  "isspace c \<longleftrightarrow> c \<in> {CHR '' '', CHR 0x09, CHR 0x0A, CHR 0x0B, CHR 0x0C, CHR 0x0D}"

definition digit_val :: "char \<Rightarrow> int option" where
  "digit_val c = (let n = of_char c :: int in if 48 \<le> n \<and> n \<le> 57 then Some (n - 48) else None)"

fun digits :: "int \<Rightarrow> string \<Rightarrow> int" where
  "digits acc [] = acc"
| "digits acc (c # cs) = (case digit_val c of None \<Rightarrow> acc | Some d \<Rightarrow> digits (10 * acc + d) cs)"

text \<open>\<open>strtol\<close> in base 10 on a 64-bit \<open>long\<close>: it saturates; no conversion is \<open>None\<close>.\<close>

definition strtol :: "string \<Rightarrow> int option" where
  "strtol p =
     (let p = dropWhile isspace p;
          (neg, p) = (case p of CHR ''-'' # q \<Rightarrow> (True, q) | CHR ''+'' # q \<Rightarrow> (False, q) | _ \<Rightarrow> (False, p))
      in case p of
           [] \<Rightarrow> None
         | c # cs \<Rightarrow>
             if digit_val c = None then None
             else let v = digits 0 p; v = (if neg then - v else v)
                  in Some (max (- (2 ^ 63)) (min (2 ^ 63 - 1) v)))"

section \<open>Calibration files\<close>

abbreviation (input) CALIB_NJ :: nat where "CALIB_NJ \<equiv> 6"

definition calib_joint_names :: "string list" where
  "calib_joint_names = [''shoulder_pan'', ''shoulder_lift'', ''elbow_flex'',
     ''wrist_flex'', ''wrist_roll'', ''gripper'']"

record calib_joint =
  joint_id :: u8
  drive_mode :: int
  homing_offset :: int
  range_min :: int
  range_max :: int
  is_gripper :: bool

type_synonym calib_arm = "calib_joint list"

definition quoted :: "string \<Rightarrow> string" where
  "quoted key = take 47 (CHR 0x22 # key @ [CHR 0x22])"

definition get_int :: "string \<Rightarrow> string \<Rightarrow> int option" where
  "get_int obj key =
     (let pat = quoted key in
      case strstr obj pat of
        None \<Rightarrow> None
      | Some p \<Rightarrow>
          (case dropWhile isspace (drop (length pat) p) of
             CHR '':'' # q \<Rightarrow> map_option to_i32 (strtol q)
           | _ \<Rightarrow> None))"

text \<open>The error of a failed load: the return code and the message, cut to the caller's \<open>errlen\<close> bytes.\<close>

definition calib_error :: "nat \<Rightarrow> int \<Rightarrow> string \<Rightarrow> int \<times> string" where
  "calib_error errlen code msg = (code, take (errlen - 1) msg)"

definition load_joint :: "string \<Rightarrow> nat \<Rightarrow> string \<Rightarrow> nat \<Rightarrow> string \<Rightarrow> (int \<times> string) + calib_joint" where
  "load_joint path errlen buf k name =
     (let open_brace = Option.bind (strstr buf (quoted name)) (\<lambda>p. strchr p (CHR ''{''));
          close_brace = Option.bind open_brace (\<lambda>q. strchr q (CHR ''}''))
      in case (open_brace, close_brace) of
           (Some ob, Some cb) \<Rightarrow>
             (let len = length ob - length cb;
                  len = (if len \<ge> 512 then 511 else len);
                  obj = take len ob
              in case (get_int obj ''id'', get_int obj ''drive_mode'', get_int obj ''homing_offset'',
                       get_int obj ''range_min'', get_int obj ''range_max'') of
                   (Some i, Some dm, Some ho, Some rmin, Some rmax) \<Rightarrow>
                     if i < 0 \<or> i > 253 \<or> rmax \<le> rmin
                     then Inl (calib_error errlen (- 2) (path @ '': '' @ [CHR 0x27] @ name @ [CHR 0x27] @ '' has invalid id/range''))
                     else Inr \<lparr>joint_id = of_int i, drive_mode = dm, homing_offset = ho, range_min = rmin,
                               range_max = rmax, is_gripper = (k = CALIB_NJ - 1)\<rparr>
                 | _ \<Rightarrow> Inl (calib_error errlen (- 2) (path @ '': '' @ [CHR 0x27] @ name @ [CHR 0x27] @ '' has a missing field'')))
         | _ \<Rightarrow> Inl (calib_error errlen (- 2) (path @ '': joint '' @ [CHR 0x27] @ name @ [CHR 0x27] @ '' not found'')))"

fun load_joints :: "string \<Rightarrow> nat \<Rightarrow> string \<Rightarrow> nat \<Rightarrow> string list \<Rightarrow> (int \<times> string) + calib_arm" where
  "load_joints path errlen buf k [] = Inr []"
| "load_joints path errlen buf k (name # names) =
     (case load_joint path errlen buf k name of
        Inl e \<Rightarrow> Inl e
      | Inr j \<Rightarrow> map_sum id (\<lambda>js. j # js) (load_joints path errlen buf (Suc k) names))"

definition calib_load :: "(string \<Rightarrow> string option) \<Rightarrow> string \<Rightarrow> nat \<Rightarrow> (int \<times> string) + calib_arm" where
  "calib_load files path errlen =
     (case files path of
        None \<Rightarrow> Inl (calib_error errlen (- 1) (''cannot open '' @ path))
      | Some bytes \<Rightarrow> load_joints path errlen (c_str (take 16383 bytes)) 0 calib_joint_names)"

section \<open>Mapping\<close>

definition calib_normalize :: "calib_joint \<Rightarrow> int \<Rightarrow> rat" where
  "calib_normalize j raw =
     (let lo = f_of_int (range_min j); hi = f_of_int (range_max j);
          v = f_of_int raw;
          v = (if v < lo then lo else v);
          v = (if v > hi then hi else v);
          u = f_div (f_sub v lo) (f_sub hi lo)
      in if is_gripper j
         then let n = f_mul u 100 in if drive_mode j \<noteq> 0 then f_sub 100 n else n
         else let n = f_sub (f_mul u 200) 100 in if drive_mode j \<noteq> 0 then - n else n)"

text \<open>The fraction of the range that \<^verbatim>\<open>calib_unnormalize\<close> computes first.\<close>

definition unnorm_frac :: "calib_joint \<Rightarrow> rat \<Rightarrow> rat" where
  "unnorm_frac j nrm =
     (if is_gripper j then
        let nrm = (if drive_mode j \<noteq> 0 then f_sub 100 nrm else nrm);
            nrm = (if nrm < 0 then 0 else nrm);
            nrm = (if nrm > 100 then 100 else nrm)
        in f_div nrm 100
      else
        let nrm = (if drive_mode j \<noteq> 0 then - nrm else nrm);
            nrm = (if nrm < - 100 then - 100 else nrm);
            nrm = (if nrm > 100 then 100 else nrm)
        in f_div (f_add nrm 100) 200)"

definition calib_unnormalize :: "calib_joint \<Rightarrow> rat \<Rightarrow> int" where
  "calib_unnormalize j nrm =
     to_i32 (f_trunc (f_add (f_mul (unnorm_frac j nrm) (f_of_int (to_i32 (range_max j - range_min j))))
       (f_of_int (range_min j))))"

section \<open>Lemmas\<close>

text \<open>\<open>range_ok\<close>: a proper range whose ends and width a float represents exactly (a servo has 0..4095).\<close>

definition range_ok :: "calib_joint \<Rightarrow> bool" where
  "range_ok j \<longleftrightarrow> range_min j < range_max j \<and> \<bar>range_min j\<bar> < 2 ^ 23 \<and> \<bar>range_max j\<bar> < 2 ^ 23"

abbreviation (input) width :: "calib_joint \<Rightarrow> rat" where
  "width j \<equiv> of_int (range_max j - range_min j)"

definition clamp_raw :: "calib_joint \<Rightarrow> int \<Rightarrow> int" where
  "clamp_raw j raw = (if raw < range_min j then range_min j else if raw > range_max j then range_max j else raw)"

text \<open>The exact position of a raw value in its range, the normalised position and back, as the
  comment of \<^verbatim>\<open>calib.h\<close> gives them.\<close>

definition frac_ideal :: "calib_joint \<Rightarrow> int \<Rightarrow> rat" where
  "frac_ideal j raw = of_int (clamp_raw j raw - range_min j) / width j"

definition norm_ideal :: "calib_joint \<Rightarrow> int \<Rightarrow> rat" where
  "norm_ideal j raw =
     (if is_gripper j
      then if drive_mode j \<noteq> 0 then 100 - frac_ideal j raw * 100 else frac_ideal j raw * 100
      else if drive_mode j \<noteq> 0 then - (frac_ideal j raw * 200 - 100) else frac_ideal j raw * 200 - 100)"

lemma clamp_raw_range: "range_ok j \<Longrightarrow> range_min j \<le> clamp_raw j raw \<and> clamp_raw j raw \<le> range_max j"
  by (auto simp: clamp_raw_def range_ok_def)

lemma frac_ideal_range:
  assumes "range_ok j"
  shows "0 \<le> frac_ideal j raw" "frac_ideal j raw \<le> 1"
proof -
  have "(of_int (clamp_raw j raw - range_min j) :: rat) \<le> width j" "0 < width j"
    using clamp_raw_range [OF assms, of raw] assms by (simp_all add: range_ok_def)
  then show "0 \<le> frac_ideal j raw" "frac_ideal j raw \<le> 1"
    using clamp_raw_range [OF assms, of raw] by (simp_all add: frac_ideal_def)
qed

text \<open>What \<^verbatim>\<open>calib_normalize\<close> divides, for a raw value of an \<open>int16_t\<close>.\<close>

lemma normalize_frac:
  assumes "range_ok j" and "\<bar>raw\<bar> < 2 ^ 23"
  shows "calib_normalize j raw =
    (let u = rnd32 (frac_ideal j raw) in
     if is_gripper j
     then let n = f_mul u 100 in if drive_mode j \<noteq> 0 then f_sub 100 n else n
     else let n = f_sub (f_mul u 200) 100 in if drive_mode j \<noteq> 0 then - n else n)"
proof -
  let ?v = "clamp_raw j raw"
  have ex: "f_of_int (range_min j) = of_int (range_min j)" "f_of_int (range_max j) = of_int (range_max j)"
    "f_of_int raw = of_int raw"
    using assms by (simp_all add: range_ok_def f_of_int_exact)
  have "rnd32 (of_int (?v - range_min j)) = of_int (?v - range_min j)"
    "rnd32 (width j) = width j"
    using assms clamp_raw_range [OF assms(1), of raw]
    by (intro rnd32_exact f32_val_int; simp add: range_ok_def; linarith)+
  then have "f_div (f_sub (of_int ?v) (of_int (range_min j))) (f_sub (of_int (range_max j)) (of_int (range_min j)))
      = rnd32 (frac_ideal j raw)"
    by (simp add: f_div_def f_sub_def frac_ideal_def)
  moreover have "(if (if (of_int raw :: rat) < of_int (range_min j) then of_int (range_min j) else of_int raw) > (of_int (range_max j) :: rat)
      then of_int (range_max j) else if (of_int raw :: rat) < of_int (range_min j) then of_int (range_min j) else of_int raw) = (of_int ?v :: rat)"
    using assms(1) by (simp add: clamp_raw_def range_ok_def)
  ultimately show ?thesis by (simp add: calib_normalize_def ex Let_def)
qed

lemma frac_rnd_range:
  assumes "0 \<le> x" and "x \<le> 1"
  shows "0 \<le> rnd32 x" "rnd32 x \<le> 1"
  using assms by (simp_all add: rnd32_le rnd32_ge f32_val_consts)

lemma normalize_range:
  assumes "range_ok j" and "\<bar>raw\<bar> < 2 ^ 23"
  shows "(if is_gripper j then 0 else - 100) \<le> calib_normalize j raw \<and> calib_normalize j raw \<le> 100"
proof -
  define u where "u = rnd32 (frac_ideal j raw)"
  have u: "0 \<le> u" "u \<le> 1"
    unfolding u_def using frac_rnd_range frac_ideal_range [OF assms(1)] by blast+
  have g: "0 \<le> f_mul u 100" "f_mul u 100 \<le> 100"
    unfolding f_mul_def using u by (simp_all add: rnd32_le rnd32_ge f32_val_consts)
  have g': "0 \<le> f_sub 100 (f_mul u 100)" "f_sub 100 (f_mul u 100) \<le> 100"
    unfolding f_sub_def using g by (simp_all add: rnd32_le rnd32_ge f32_val_consts)
  have b: "0 \<le> f_mul u 200" "f_mul u 200 \<le> 200"
    unfolding f_mul_def using u by (simp_all add: rnd32_le rnd32_ge f32_val_consts)
  have b': "- 100 \<le> f_sub (f_mul u 200) 100" "f_sub (f_mul u 200) 100 \<le> 100"
    unfolding f_sub_def using b by (simp_all add: rnd32_le rnd32_ge f32_val_consts)
  show ?thesis
    using g g' b' by (simp add: normalize_frac [OF assms] u_def [symmetric] Let_def)
qed

lemma unnorm_frac_range:
  shows "0 \<le> unnorm_frac j x" "unnorm_frac j x \<le> 1"
proof -
  have g: "0 \<le> f_div y 100 \<and> f_div y 100 \<le> 1" if "0 \<le> y" "y \<le> 100" for y
    unfolding f_div_def using that by (simp add: rnd32_le rnd32_ge f32_val_consts)
  have b: "0 \<le> f_div (f_add y 100) 200 \<and> f_div (f_add y 100) 200 \<le> 1" if y: "- 100 \<le> y" "y \<le> 100" for y
  proof -
    have "0 \<le> rnd32 (y + 100)" "rnd32 (y + 100) \<le> 200"
      using y by (simp_all add: rnd32_le rnd32_ge f32_val_consts)
    then show ?thesis unfolding f_div_def f_add_def by (simp add: rnd32_le rnd32_ge f32_val_consts)
  qed
  show "0 \<le> unnorm_frac j x" "unnorm_frac j x \<le> 1"
    unfolding unnorm_frac_def Let_def using g b by simp_all
qed

text \<open>The value before truncation, for a proper range.\<close>

definition unnorm_value :: "calib_joint \<Rightarrow> rat \<Rightarrow> rat" where
  "unnorm_value j x = rnd32 (rnd32 (unnorm_frac j x * width j) + of_int (range_min j))"

lemma unnorm_value_range:
  assumes "range_ok j"
  shows "of_int (range_min j) \<le> unnorm_value j x" "unnorm_value j x \<le> of_int (range_max j)"
proof -
  have w: "0 < width j" "f32_val (width j)" "f32_val (of_int (range_min j))" "f32_val (of_int (range_max j))"
    using assms by (simp add: range_ok_def, (intro f32_val_int; simp add: range_ok_def; linarith)+)
  have "0 \<le> unnorm_frac j x * width j" "unnorm_frac j x * width j \<le> width j"
    using unnorm_frac_range [where j = j and x = x] w(1) by (simp_all add: mult_left_le_one_le del: of_int_diff)
  then have p: "0 \<le> rnd32 (unnorm_frac j x * width j)" "rnd32 (unnorm_frac j x * width j) \<le> width j"
    using w(2) by (simp_all add: rnd32_le rnd32_ge f32_val_consts del: of_int_diff)
  show "of_int (range_min j) \<le> unnorm_value j x" "unnorm_value j x \<le> of_int (range_max j)"
    unfolding unnorm_value_def using p w(3,4) by (intro rnd32_ge rnd32_le; simp)+
qed

lemma f_trunc_range:
  assumes "of_int a \<le> x" and "x \<le> of_int b"
  shows "a \<le> f_trunc x \<and> f_trunc x \<le> b"
  using assms by (auto simp: f_trunc_def le_floor_iff floor_le_iff ceiling_le_iff le_ceiling_iff; linarith)

lemma unnormalize_value:
  assumes "range_ok j"
  shows "calib_unnormalize j x = f_trunc (unnorm_value j x)"
proof -
  have "to_i32 (range_max j - range_min j) = range_max j - range_min j"
    using assms by (intro to_i32_id; simp add: range_ok_def; linarith)
  moreover have "f_of_int (range_max j - range_min j) = width j"
    using assms by (intro f_of_int_exact; simp add: range_ok_def; linarith)
  moreover have "f_of_int (range_min j) = of_int (range_min j)"
    using assms by (intro f_of_int_exact; simp add: range_ok_def; linarith)
  ultimately have "calib_unnormalize j x = to_i32 (f_trunc (unnorm_value j x))"
    by (simp add: calib_unnormalize_def unnorm_value_def f_add_def f_mul_def)
  moreover have "- 2147483648 \<le> f_trunc (unnorm_value j x)" "f_trunc (unnorm_value j x) \<le> 2147483647"
    using f_trunc_range [OF unnorm_value_range [OF assms], of x] assms by (simp_all add: range_ok_def; linarith)+
  ultimately show ?thesis by (simp add: to_i32_id)
qed

lemma unnormalize_range:
  assumes "range_ok j"
  shows "range_min j \<le> calib_unnormalize j x \<and> calib_unnormalize j x \<le> range_max j"
  using f_trunc_range [OF unnorm_value_range [OF assms]] by (simp add: unnormalize_value [OF assms])

text \<open>Rounding errors of the two mappings against the exact formulas.\<close>

lemma normalize_error:
  assumes "range_ok j" and "\<bar>raw\<bar> < 2 ^ 23"
  shows "\<bar>calib_normalize j raw - norm_ideal j raw\<bar> \<le> 1 / 16384"
proof -
  define t where "t = frac_ideal j raw"
  define u where "u = rnd32 t"
  have t: "0 \<le> t" "t \<le> 1" unfolding t_def using frac_ideal_range [OF assms(1)] by blast+
  have u: "0 \<le> u" "u \<le> 1" unfolding u_def using frac_rnd_range t by blast+
  have e1: "\<bar>u - t\<bar> \<le> 1 / 16777216"
    unfolding u_def using rnd32_err [of t 0] t by simp
  have e2: "\<bar>f_mul u 100 - u * 100\<bar> \<le> 128 / 16777216" "\<bar>f_mul u 200 - u * 200\<bar> \<le> 256 / 16777216"
    unfolding f_mul_def using rnd32_err [of "u * 100" 7] rnd32_err [of "u * 200" 8] u by simp_all
  have b: "0 \<le> f_mul u 100" "f_mul u 100 \<le> 100" "0 \<le> f_mul u 200" "f_mul u 200 \<le> 200"
    unfolding f_mul_def using u by (simp_all add: rnd32_le rnd32_ge f32_val_consts)
  have e3: "\<bar>f_sub 100 (f_mul u 100) - (100 - f_mul u 100)\<bar> \<le> 128 / 16777216"
    "\<bar>f_sub (f_mul u 200) 100 - (f_mul u 200 - 100)\<bar> \<le> 128 / 16777216"
    unfolding f_sub_def
    using rnd32_err [of "100 - f_mul u 100" 7] rnd32_err [of "f_mul u 200 - 100" 7] b by simp_all
  show ?thesis
    unfolding normalize_frac [OF assms] norm_ideal_def t_def [symmetric] u_def [symmetric] Let_def
    using e1 e2 e3 unfolding abs_le_iff
    by (cases "is_gripper j"; cases "drive_mode j = 0"; simp; linarith)
qed

definition frac_of_norm :: "calib_joint \<Rightarrow> rat \<Rightarrow> rat" where
  "frac_of_norm j x =
     (if is_gripper j then (if drive_mode j \<noteq> 0 then 100 - x else x) / 100
      else ((if drive_mode j \<noteq> 0 then - x else x) + 100) / 200)"

lemma frac_of_norm_ideal: "frac_of_norm j (norm_ideal j raw) = frac_ideal j raw"
  by (simp add: frac_of_norm_def norm_ideal_def)

lemma frac_of_norm_lipschitz: "\<bar>frac_of_norm j x - frac_of_norm j y\<bar> \<le> \<bar>x - y\<bar> / 100"
  by (auto simp: frac_of_norm_def abs_if field_simps)

lemma unnorm_frac_error:
  assumes "(if is_gripper j then 0 else - 100) \<le> x" and "x \<le> 100"
  shows "\<bar>unnorm_frac j x - frac_of_norm j x\<bar> \<le> 4 / 16777216"
proof -
  have d: "\<bar>f_div y 100 - y / 100\<bar> \<le> 1 / 16777216" if "0 \<le> y" "y \<le> 100" for y
    unfolding f_div_def using rnd32_err [of "y / 100" 0] that by simp
  have g: "\<bar>f_sub 100 x - (100 - x)\<bar> \<le> 128 / 16777216" "0 \<le> f_sub 100 x" "f_sub 100 x \<le> 100" if "0 \<le> x"
    unfolding f_sub_def using rnd32_err [of "100 - x" 7] that assms(2)
    by (simp_all add: rnd32_le rnd32_ge f32_val_consts)
  have b: "\<bar>f_div (f_add y 100) 200 - (y + 100) / 200\<bar> \<le> 4 / 16777216" if y: "- 100 \<le> y" "y \<le> 100" for y
  proof -
    have a: "0 \<le> f_add y 100" "f_add y 100 \<le> 200" "\<bar>f_add y 100 - (y + 100)\<bar> \<le> 256 / 16777216"
      unfolding f_add_def using rnd32_err [of "y + 100" 8] y
      by (simp_all add: rnd32_le rnd32_ge f32_val_consts)
    have "\<bar>f_div (f_add y 100) 200 - f_add y 100 / 200\<bar> \<le> 1 / 16777216"
      unfolding f_div_def using rnd32_err [of "f_add y 100 / 200" 0] a by simp
    then show ?thesis using a(3) unfolding abs_le_iff by (auto simp: field_simps)
  qed
  show ?thesis
  proof (cases "is_gripper j")
    case True
    then have x: "0 \<le> x" using assms(1) by simp
    have "\<bar>f_div (f_sub 100 x) 100 - (100 - x) / 100\<bar> \<le> 4 / 16777216"
      using d [OF g(2,3) [OF x]] g(1) [OF x] unfolding abs_le_iff by (auto simp: field_simps)
    then show ?thesis
      using True x assms(2) d [OF x assms(2)] g [OF x] by (simp add: unnorm_frac_def frac_of_norm_def Let_def)
  next
    case False
    then show ?thesis
      using assms b [of x] b [of "- x"] by (simp add: unnorm_frac_def frac_of_norm_def Let_def)
  qed
qed

text \<open>The same arm: raw ticks survive normalisation and back up to the truncation of one tick.\<close>

lemma unnorm_value_error:
  assumes "range_ok j" and "0 \<le> range_min j" and "range_max j \<le> 4096"
    and "range_min j \<le> raw" and "raw \<le> range_max j"
  shows "\<bar>unnorm_value j (calib_normalize j raw) - of_int raw\<bar> < 1"
proof -
  let ?n = "calib_normalize j raw" and ?w = "width j"
  have r: "\<bar>raw\<bar> < 2 ^ 23" using assms by simp
  define f where "f = unnorm_frac j ?n"
  have w: "0 < ?w" "?w \<le> 4096" using assms by (simp_all add: range_ok_def)
  have "\<bar>f - frac_of_norm j ?n\<bar> \<le> 4 / 16777216"
    unfolding f_def using unnorm_frac_error normalize_range [OF assms(1) r] by blast
  moreover have "\<bar>frac_of_norm j ?n - frac_ideal j raw\<bar> \<le> 1 / 1638400"
    using frac_of_norm_lipschitz [of j ?n "norm_ideal j raw"] normalize_error [OF assms(1) r]
    by (simp add: frac_of_norm_ideal)
  ultimately have "\<bar>f - frac_ideal j raw\<bar> \<le> 1 / 100000" by linarith
  then have "\<bar>f - frac_ideal j raw\<bar> * ?w \<le> 1 / 100000 * 4096"
    using w by (intro mult_mono) simp_all
  moreover have "frac_ideal j raw * ?w = of_int (raw - range_min j)"
    using assms w by (simp add: frac_ideal_def clamp_raw_def)
  moreover have "\<bar>f - frac_ideal j raw\<bar> * ?w = \<bar>f * ?w - frac_ideal j raw * ?w\<bar>"
    using w(1) by (metis abs_mult abs_of_pos left_diff_distrib)
  ultimately have e1: "\<bar>f * ?w - of_int (raw - range_min j)\<bar> \<le> 1 / 10" by linarith
  have f01: "0 \<le> f" "f \<le> 1" unfolding f_def using unnorm_frac_range by blast+
  have fw: "0 \<le> f * ?w" "f * ?w \<le> ?w"
    using w(1) f01 by (simp_all add: mult_left_le_one_le del: of_int_diff)
  define g where "g = rnd32 (f * ?w)"
  have e2: "\<bar>g - f * ?w\<bar> \<le> 4096 / 16777216"
    unfolding g_def using rnd32_err [of "f * ?w" 12] fw w(2) by (simp add: abs_of_nonneg del: of_int_diff)
  have g01: "0 \<le> g" "g \<le> 4096" unfolding g_def
    using fw w(2) by (simp_all add: rnd32_le rnd32_ge f32_val_consts f32_val_numeral del: of_int_diff)
  have gm: "0 \<le> (of_int (range_min j) :: rat)" "(of_int (range_min j) :: rat) \<le> of_int 4096"
    using assms by (simp_all only: of_int_0_le_iff of_int_le_iff)
  have e3: "\<bar>rnd32 (g + of_int (range_min j)) - (g + of_int (range_min j))\<bar> \<le> 8192 / 16777216"
    using rnd32_err [of "g + of_int (range_min j)" 13] g01 gm by simp
  have "unnorm_value j ?n = rnd32 (g + of_int (range_min j))"
    by (simp add: unnorm_value_def f_def [symmetric] g_def [symmetric] del: of_int_diff)
  then show ?thesis using e1 e2 e3 by (simp; linarith)
qed

lemma load_joint_valid:
  assumes "load_joint path errlen buf k name = Inr j"
  shows "unat (joint_id j) \<le> 253 \<and> range_min j < range_max j \<and> is_gripper j = (k = CALIB_NJ - 1)"
proof -
  have "\<exists>i. 0 \<le> i \<and> i \<le> 253 \<and> joint_id j = of_int i \<and> range_min j < range_max j \<and> is_gripper j = (k = CALIB_NJ - 1)"
    using assms
    by (auto simp: load_joint_def Let_def not_less not_le split: option.splits if_splits prod.splits; blast)
  then obtain i :: int where i: "0 \<le> i" "i \<le> 253" "joint_id j = of_int i"
    "range_min j < range_max j" "is_gripper j = (k = CALIB_NJ - 1)" by blast
  then have "uint (joint_id j) = i" by (simp add: uint_word_of_int take_bit_int_eq_self)
  then have "unat (joint_id j) \<le> 253" using i(2) by (simp add: unat_eq_nat_uint)
  with i show ?thesis by blast
qed

lemma load_joint_code: "load_joint path errlen buf k name = Inl (c, m) \<Longrightarrow> c = - 2"
  by (auto simp: load_joint_def Let_def calib_error_def split: option.splits if_splits prod.splits)

lemma load_joints_valid:
  "load_joints path errlen buf k names = Inr arm \<Longrightarrow>
    length arm = length names \<and> (\<forall>i<length arm. unat (joint_id (arm ! i)) \<le> 253 \<and>
      range_min (arm ! i) < range_max (arm ! i) \<and> is_gripper (arm ! i) = (k + i = CALIB_NJ - 1))"
proof (induction names arbitrary: k arm)
  case Nil
  then show ?case by simp
next
  case (Cons name names)
  then obtain j js where j: "load_joint path errlen buf k name = Inr j" "arm = j # js"
    "load_joints path errlen buf (Suc k) names = Inr js"
    by (auto split: sum.splits simp: map_sum_def)
  show ?case
    using Cons.IH [OF j(3)] load_joint_valid [OF j(1)] j(2) by (auto simp: nth_Cons split: nat.splits)
qed

lemma load_joints_code: "load_joints path errlen buf k names = Inl (c, m) \<Longrightarrow> c = - 2"
  by (induction names arbitrary: k) (auto split: sum.splits dest: load_joint_code simp: map_sum_def)

lemma frac_ideal_ends:
  "range_ok j \<Longrightarrow> frac_ideal j (range_min j) = 0" "range_ok j \<Longrightarrow> frac_ideal j (range_max j) = 1"
  by (auto simp: frac_ideal_def clamp_raw_def range_ok_def)

lemma normalize_ends:
  assumes "range_ok j"
  shows "calib_normalize j (range_max j) =
      (if is_gripper j \<and> drive_mode j \<noteq> 0 then 0 else if drive_mode j \<noteq> 0 then - 100 else 100)"
    and "calib_normalize j (range_min j) =
      (if is_gripper j \<and> drive_mode j = 0 then 0 else if drive_mode j \<noteq> 0 then 100 else - 100)"
proof -
  have r: "\<bar>range_max j\<bar> < 2 ^ 23" "\<bar>range_min j\<bar> < 2 ^ 23" using assms by (simp_all add: range_ok_def)
  have c: "rnd32 0 = 0" "rnd32 1 = 1" "rnd32 100 = 100" "rnd32 200 = 200" "rnd32 (- 100) = - 100"
    by (simp_all add: rnd32_exact f32_val_consts)
  show "calib_normalize j (range_max j) =
      (if is_gripper j \<and> drive_mode j \<noteq> 0 then 0 else if drive_mode j \<noteq> 0 then - 100 else 100)"
    using c by (simp add: normalize_frac [OF assms r(1)] frac_ideal_ends [OF assms] f_mul_def f_sub_def)
  show "calib_normalize j (range_min j) =
      (if is_gripper j \<and> drive_mode j = 0 then 0 else if drive_mode j \<noteq> 0 then 100 else - 100)"
    using c by (simp add: normalize_frac [OF assms r(2)] frac_ideal_ends [OF assms] f_mul_def f_sub_def)
qed

lemma unnormalize_ends:
  assumes "range_ok j"
  shows "calib_unnormalize j 100 = (if drive_mode j \<noteq> 0 then range_min j else range_max j)"
    and "calib_unnormalize j (if is_gripper j then 0 else - 100) = (if drive_mode j \<noteq> 0 then range_max j else range_min j)"
proof -
  have c: "rnd32 0 = 0" "rnd32 1 = 1" "rnd32 100 = 100" "rnd32 200 = 200" "rnd32 (- 100) = - 100"
    by (simp_all add: rnd32_exact f32_val_consts)
  have w: "rnd32 (width j) = width j" "rnd32 (of_int (range_min j)) = of_int (range_min j)"
    "rnd32 (of_int (range_max j)) = of_int (range_max j)"
    using assms by (intro rnd32_exact f32_val_int; simp add: range_ok_def; linarith)+
  have t: "f_trunc (of_int k) = k" for k by (simp add: f_trunc_def)
  show "calib_unnormalize j 100 = (if drive_mode j \<noteq> 0 then range_min j else range_max j)"
    using c w t by (simp add: unnormalize_value [OF assms] unnorm_value_def unnorm_frac_def f_sub_def f_div_def f_add_def)
  show "calib_unnormalize j (if is_gripper j then 0 else - 100) = (if drive_mode j \<noteq> 0 then range_max j else range_min j)"
    using c w t by (simp add: unnormalize_value [OF assms] unnorm_value_def unnorm_frac_def f_sub_def f_div_def f_add_def)
qed

section \<open>Properties\<close>

text \<open>C19. Whatever normalised value arrives, from the leader or from anywhere else, the raw goal computed for a
  follower joint lies inside that joint's calibrated range: the arithmetic of \<open>calib_unnormalize\<close>,
  rounding and truncation included, never leaves it.\<close>

theorem unnormalize_in_range:
  assumes "range_ok j"
  shows "calib_unnormalize j x \<in> {range_min j..range_max j}"
  using unnormalize_range [OF assms] by simp

definition sim_pan :: calib_joint where
  "sim_pan = \<lparr>joint_id = 1, drive_mode = 0, homing_offset = 0, range_min = 700, range_max = 3400, is_gripper = False\<rparr>"

definition leader_lift :: calib_joint where
  "leader_lift = \<lparr>joint_id = 2, drive_mode = 0, homing_offset = - 1751, range_min = 822, range_max = 3119, is_gripper = False\<rparr>"

theorem unnormalize_in_range_witness: "calib_unnormalize sim_pan (1234567 / 1000) \<in> {700..3400}"
  using unnormalize_in_range [of sim_pan "1234567 / 1000"] by (simp add: range_ok_def sim_pan_def)

text \<open>C35. On one arm, normalising a raw position and mapping it back loses at most the truncation of one
  tick, in every mode of the joint (gripper or body, inverted or not).\<close>

theorem normalize_roundtrip:
  assumes "range_min j < range_max j" and "0 \<le> range_min j" and "range_max j \<le> 4096"
    and "range_min j \<le> raw" and "raw \<le> range_max j"
  shows "calib_unnormalize j (calib_normalize j raw) \<in> {raw - 1, raw}"
proof -
  have ok: "range_ok j" using assms by (simp add: range_ok_def)
  let ?z = "unnorm_value j (calib_normalize j raw)"
  have "\<bar>?z - of_int raw\<bar> < 1" using unnorm_value_error [OF ok assms(2-5)] .
  moreover have "0 \<le> ?z"
    using unnorm_value_range(1) [OF ok, of "calib_normalize j raw"] assms(2)
    by (meson of_int_0_le_iff order_trans)
  ultimately have "f_trunc ?z = raw \<or> f_trunc ?z = raw - 1"
    by (auto simp: f_trunc_def floor_eq_iff abs_less_iff)
  then show ?thesis by (auto simp: unnormalize_value [OF ok])
qed

theorem normalize_roundtrip_witness:
  "calib_unnormalize leader_lift (calib_normalize leader_lift 2345) \<in> {2344, 2345}"
  using normalize_roundtrip [of leader_lift 2345] by (simp add: leader_lift_def)

text \<open>C34. The normalised position of a raw \<open>int16_t\<close> reading is in 0..100 for the gripper and in -100..100 for
  the other joints, and differs from LeRobot's exact formula by at most 1/16384.\<close>

theorem normalize_accurate:
  assumes "range_ok j" and "- 32768 \<le> raw" and "raw \<le> 32767"
  shows "(if is_gripper j then 0 else - 100) \<le> calib_normalize j raw \<and> calib_normalize j raw \<le> 100 \<and>
    \<bar>calib_normalize j raw - norm_ideal j raw\<bar> \<le> 1 / 16384"
proof -
  have "\<bar>raw\<bar> < 2 ^ 23" using assms by simp
  then show ?thesis using normalize_range [OF assms(1)] normalize_error [OF assms(1)] by blast
qed

theorem normalize_accurate_witness:
  "- 100 \<le> calib_normalize sim_pan 2345 \<and> calib_normalize sim_pan 2345 \<le> 100"
  using normalize_accurate [of sim_pan 2345] by (simp add: range_ok_def sim_pan_def)

text \<open>The ends of the leader's range drive the follower exactly to the ends of its own range (to the
  opposite end when exactly one of the two joints is inverted).\<close>

theorem teleop_maps_ends:
  assumes "range_ok l" and "range_ok f" and "is_gripper l = is_gripper f"
  shows "calib_unnormalize f (calib_normalize l (range_max l)) =
      (if (drive_mode l = 0) = (drive_mode f = 0) then range_max f else range_min f) \<and>
    calib_unnormalize f (calib_normalize l (range_min l)) =
      (if (drive_mode l = 0) = (drive_mode f = 0) then range_min f else range_max f)"
  using unnormalize_ends [OF assms(2)] assms(3)
  by (cases "is_gripper f") (simp_all add: normalize_ends [OF assms(1)])

theorem teleop_maps_ends_witness: "calib_unnormalize sim_pan (calib_normalize leader_lift 3119) = 3400"
  using teleop_maps_ends [of leader_lift sim_pan] by (simp add: range_ok_def sim_pan_def leader_lift_def)

text \<open>C39. A calibration that loads is usable: one entry per joint, every servo identifier at most 253 (so
  neither the broadcast identifier nor a header byte), every range proper and only the last joint
  a gripper. A load fails with -1 exactly when the file cannot be opened and with -2 otherwise.\<close>

theorem calib_load_valid:
  "case calib_load files path errlen of
     Inr arm \<Rightarrow> map is_gripper arm = [False, False, False, False, False, True] \<and>
       list_all (\<lambda>j. unat (joint_id j) \<le> 253 \<and> range_min j < range_max j) arm
   | Inl (c, m) \<Rightarrow> c = (if files path = None then - 1 else - 2)"
proof (cases "files path")
  case None
  then show ?thesis by (simp add: calib_load_def calib_error_def)
next
  case (Some bytes)
  let ?r = "load_joints path errlen (c_str (take 16383 bytes)) 0 calib_joint_names"
  show ?thesis
  proof (cases ?r)
    case (Inl e)
    then show ?thesis using Some load_joints_code by (cases e) (auto simp: calib_load_def)
  next
    case (Inr arm)
    have v: "length arm = 6" "\<And>i. i < 6 \<Longrightarrow> unat (joint_id (arm ! i)) \<le> 253 \<and>
        range_min (arm ! i) < range_max (arm ! i) \<and> is_gripper (arm ! i) = (i = 5)"
      using load_joints_valid [OF Inr] by (simp_all add: calib_joint_names_def)
    have "map is_gripper arm = map (\<lambda>i. i = 5) [0..<6]"
      using v by (intro nth_equalityI) simp_all
    then have "map is_gripper arm = [False, False, False, False, False, True]" by (simp add: upt_rec)
    moreover have "list_all (\<lambda>j. unat (joint_id j) \<le> 253 \<and> range_min j < range_max j) arm"
      using v by (auto simp: list_all_length)
    ultimately show ?thesis using Some Inr by (simp add: calib_load_def)
  qed
qed

text \<open>A file that loads: the names of the joints and one object, which serves them all.\<close>

definition ex_file :: string where
  "ex_file = concat (map quoted calib_joint_names) @ ''{'' @
     concat (map (\<lambda>k. quoted k @ '':9'') [''id'', ''drive_mode'', ''homing_offset'']) @
     quoted ''range_min'' @ '': 700,'' @ quoted ''range_max'' @ '' :3400}''"

lemma calib_load_short:
  "files path = Some bytes \<Longrightarrow> length bytes \<le> 16383 \<Longrightarrow>
    calib_load files path errlen = load_joints path errlen (c_str bytes) 0 calib_joint_names"
  by (simp add: calib_load_def)

definition ex_arm :: calib_arm where
  "ex_arm = map (\<lambda>k. \<lparr>joint_id = 9, drive_mode = 9, homing_offset = 9, range_min = 700, range_max = 3400,
     is_gripper = (k = 5)\<rparr>) [0..<6]"

lemma ex_file_loads: "calib_load (\<lambda>p. Some ex_file) ''a.json'' 256 = Inr ex_arm"
proof -
  have "length ex_file \<le> 300" by (simp add: ex_file_def quoted_def calib_joint_names_def)
  then have "calib_load (\<lambda>p. Some ex_file) ''a.json'' 256 = load_joints ''a.json'' 256 (c_str ex_file) 0 calib_joint_names"
    by (simp add: calib_load_short)
  also have "\<dots> = Inr ex_arm" by code_simp
  finally show ?thesis .
qed

end
