(* ===== verification/Ctx.thy ===== *)
theory Ctx
  imports Calib Shm Feetech_Bus
begin

text \<open>
  The configuration part of \<open>so101d_ctx\<close> (\<^verbatim>\<open>daemon/include/so101d.h\<close>), read-only once the threads
  run. The runtime part of that structure is the state the component theories pass around: the
  two buses (control thread), the shared memory, the two semaphores and the run flag. Pointer
  fields that may be null are options; \<open>gid_t\<close> and \<open>mode_t\<close> are natural numbers, with the group
  \<open>(gid_t)-1\<close> as \<open>None\<close>. \<open>freq\<close> is a double; it is kept as its rational value.
\<close>

record so101d_ctx =
  leader_port :: string
  follower_port :: string
  leader_calib :: "string option"
  follower_calib :: "string option"
  freq :: rat
  realtime :: bool
  prio :: int
  cpu :: int
  max_step :: int
  ramp_step :: int
  ramp_done :: int
  bus_timeout_ms :: int
  ctx_echo :: bool
  initial_mode :: u32
  ipc_gid :: "nat option"
  ipc_mode :: nat
  temp_limit :: int
  vmin_dv :: int
  vmax_dv :: int
  comm_streak :: int
  cal_leader :: calib_arm
  cal_follower :: calib_arm

text \<open>The initial value in \<open>main\<close>; fields without an initialiser are zero.\<close>

definition ctx_default :: so101d_ctx where
  "ctx_default = \<lparr>leader_port = ''/dev/so101_leader'', follower_port = ''/dev/so101_follower'',
     leader_calib = None, follower_calib = None, freq = 100, realtime = False, prio = 80, cpu = - 1,
     max_step = 50, ramp_step = 6, ramp_done = 50, bus_timeout_ms = 4, ctx_echo = False,
     initial_mode = SO101_MODE_IDLE, ipc_gid = None, ipc_mode = 438, temp_limit = 60, vmin_dv = 45,
     vmax_dv = 84, comm_streak = 10, cal_leader = [], cal_follower = []\<rparr>"

end
