(* ===== verification/Supervisor.thy ===== *)
theory Supervisor
  imports Ctx
begin

text \<open>
  The supervisor thread, \<^verbatim>\<open>daemon/src/supervisor.c\<close>. \<open>sup_iter\<close> is one pass of its loop: it gets
  what the environment answers in that pass (did \<open>sem_timedwait\<close> take a command, the monotonic
  clock, the value of the lock semaphore, the outcome of the seqlock read) and changes the loop
  variables, the shared memory and possibly posts the lock. Messages for the journal are values
  of \<open>sup_msg\<close>; their formatting is not modelled. A pass is one step: the control thread's own
  atomic accesses to the fault word (one bit, \<open>TORQUE_REFUSED\<close>) come between passes.
\<close>

section \<open>Constants and names\<close>

abbreviation (input) SUP_TICK_MS :: int where "SUP_TICK_MS \<equiv> 20"
abbreviation (input) STALL_MS :: int where "STALL_MS \<equiv> 200"
abbreviation (input) PERSIST_TICKS :: int where "PERSIST_TICKS \<equiv> 5"
abbreviation (input) OVERRUN_PER_S :: u32 where "OVERRUN_PER_S \<equiv> 5"
abbreviation (input) LOCK_STUCK_MS :: int where "LOCK_STUCK_MS \<equiv> 2000"
abbreviation (input) STATUS_EVERY_MS :: int where "STATUS_EVERY_MS \<equiv> 5000"

definition F_BLOCK_ALL :: u32 where
  "F_BLOCK_ALL = SO101_F_FOLLOWER_COMM OR SO101_F_OVERTEMP OR SO101_F_VOLTAGE OR SO101_F_STALL OR SO101_F_ESTOP"

definition F_BLOCK_TELEOP :: u32 where
  "F_BLOCK_TELEOP = F_BLOCK_ALL OR SO101_F_LEADER_COMM"

definition fault_name :: "u32 \<Rightarrow> string" where
  "fault_name b =
     (if b = SO101_F_LEADER_COMM then ''LEADER_COMM''
      else if b = SO101_F_FOLLOWER_COMM then ''FOLLOWER_COMM''
      else if b = SO101_F_OVERTEMP then ''OVERTEMP''
      else if b = SO101_F_VOLTAGE then ''VOLTAGE''
      else if b = SO101_F_OVERRUN then ''OVERRUN''
      else if b = SO101_F_STALL then ''STALL''
      else if b = SO101_F_ESTOP then ''ESTOP''
      else if b = SO101_F_TORQUE_REFUSED then ''TORQUE_REFUSED''
      else ''?'')"

definition cmd_name :: "u32 \<Rightarrow> string" where
  "cmd_name c = (if c < 5 then [''NONE'', ''SET_MODE'', ''ESTOP'', ''RESET'', ''PING''] ! unat c else ''?'')"

datatype sup_msg =
    MsgFault string string
  | MsgModeForced string string string
  | MsgCmd string int int string
  | MsgStuck
  | MsgLeaderBack
  | MsgFollowerBack
  | MsgModeNow string bool
  | MsgSoftStartDone
  | MsgStatus so101_sample

section \<open>Operations\<close>

definition raise_fault :: "so101_shm \<Rightarrow> u32 \<Rightarrow> bool \<Rightarrow> u32 \<Rightarrow> string \<Rightarrow> so101_shm \<times> sup_msg list" where
  "raise_fault shm b force_mode safe why =
     (let old = shm_faults shm;
          shm = shm\<lparr>shm_faults := old OR b\<rparr>;
          log = (if old AND b = 0 then [MsgFault (fault_name b) why] else [])
      in if force_mode then
           let m = shm_mode_req shm;
               lower = (safe = SO101_MODE_ESTOP \<or>
                        (safe = SO101_MODE_IDLE \<and> m \<noteq> SO101_MODE_ESTOP) \<or>
                        (safe = SO101_MODE_HOLD \<and> m = SO101_MODE_TELEOP))
           in if lower \<and> m \<noteq> safe
              then (shm\<lparr>shm_mode_req := safe\<rparr>,
                    log @ [MsgModeForced (so101_mode_name (unat m)) (so101_mode_name (unat safe)) (fault_name b)])
              else (shm, log)
         else (shm, log))"

definition serve_command :: "so101_shm \<Rightarrow> so101_cmd \<Rightarrow> int \<times> so101_shm" where
  "serve_command shm cmd =
     (let f = shm_faults shm in
      if cmd_cmd cmd = SO101_CMD_SET_MODE then
        if cmd_arg cmd = uint SO101_MODE_IDLE then
          if shm_mode_req shm = SO101_MODE_ESTOP then (SO101_RES_REFUSED, shm)
          else (SO101_RES_OK, shm\<lparr>shm_mode_req := word_of_int (cmd_arg cmd)\<rparr>)
        else if cmd_arg cmd = uint SO101_MODE_TELEOP then
          if f AND F_BLOCK_TELEOP \<noteq> 0 then (SO101_RES_REFUSED, shm)
          else (SO101_RES_OK, shm\<lparr>shm_mode_req := word_of_int (cmd_arg cmd)\<rparr>)
        else if cmd_arg cmd = uint SO101_MODE_HOLD then
          if f AND F_BLOCK_ALL \<noteq> 0 then (SO101_RES_REFUSED, shm)
          else (SO101_RES_OK, shm\<lparr>shm_mode_req := word_of_int (cmd_arg cmd)\<rparr>)
        else (SO101_RES_BAD_CMD, shm)
      else if cmd_cmd cmd = SO101_CMD_ESTOP then
        (SO101_RES_OK, shm\<lparr>shm_faults := shm_faults shm OR SO101_F_ESTOP, shm_mode_req := SO101_MODE_ESTOP\<rparr>)
      else if cmd_cmd cmd = SO101_CMD_RESET then
        (SO101_RES_OK, shm\<lparr>shm_faults := 0, shm_mode_req := SO101_MODE_IDLE\<rparr>)
      else if cmd_cmd cmd = SO101_CMD_PING then (SO101_RES_OK, shm)
      else (SO101_RES_BAD_CMD, shm))"

text \<open>The local variables of \<open>supervisor_thread\<close>.\<close>

record sup =
  last_cycle :: u64
  last_advance :: int
  temp_ticks :: int
  volt_ticks :: int
  ovr_base :: u32
  ovr_t0 :: int
  next_status :: int
  lock_zero_since :: int
  last_mode :: u32
  prev_ls :: u16
  prev_fs :: u16
  last_ramp :: u8

definition sup_init :: "int \<Rightarrow> int \<Rightarrow> int \<Rightarrow> sup" where
  "sup_init t0 t1 t2 = \<lparr>last_cycle = 0, last_advance = t0, temp_ticks = 0, volt_ticks = 0, ovr_base = 0,
     ovr_t0 = t1, next_status = t2 + STATUS_EVERY_MS, lock_zero_since = - 1, last_mode = 0xFF,
     prev_ls = 0, prev_fs = 0, last_ramp = 0\<rparr>"

text \<open>The absolute deadline of \<open>sem_timedwait\<close>, from the realtime clock in seconds and nanoseconds.\<close>

definition sup_deadline :: "int \<times> int \<Rightarrow> int \<times> int" where
  "sup_deadline dl =
     (let (sec, nsec) = dl; nsec = nsec + SUP_TICK_MS * 1000000
      in if nsec \<ge> 1000000000 then (sec + 1, nsec - 1000000000) else (sec, nsec))"

text \<open>What the environment answers during one pass.\<close>

record sup_in =
  in_got :: bool
  in_now :: int
  in_lock :: int
  in_snap :: "so101_sample option"

text \<open>Part 2: the command, or the watch on a mailbox that stays locked. The boolean is \<open>sem_post(sem_lock)\<close>.\<close>

definition sup_mailbox :: "sup_in \<Rightarrow> sup \<Rightarrow> so101_shm \<Rightarrow> sup \<times> so101_shm \<times> bool \<times> sup_msg list" where
  "sup_mailbox i v shm =
     (if in_got i then
        let cmd = shm_cmd shm;
            (res, shm) = serve_command shm cmd;
            shm = shm\<lparr>shm_ack := (shm_ack shm)\<lparr>ack_result := res\<rparr>\<rparr>;
            shm = shm\<lparr>shm_ack := (shm_ack shm)\<lparr>ack_id := cmd_id cmd\<rparr>\<rparr>;
            log = [MsgCmd (cmd_name (cmd_cmd cmd)) (cmd_arg cmd) (cmd_client_pid cmd)
                    (if res = 0 then ''OK'' else if res = SO101_RES_REFUSED then ''REFUSED'' else ''BAD_CMD'')]
        in (v\<lparr>lock_zero_since := - 1\<rparr>, shm, False, log)
      else if in_lock i > 0 then (v\<lparr>lock_zero_since := - 1\<rparr>, shm, False, [])
      else if lock_zero_since v < 0 then (v\<lparr>lock_zero_since := in_now i\<rparr>, shm, False, [])
      else if in_now i - lock_zero_since v > LOCK_STUCK_MS
           then (v\<lparr>lock_zero_since := - 1\<rparr>, shm, True, [MsgStuck])
      else (v, shm, False, []))"

text \<open>Part 3, the safety checks, in the order of the code.\<close>

definition chk_stall :: "sup_in \<Rightarrow> so101_sample \<Rightarrow> sup \<Rightarrow> so101_shm \<Rightarrow> sup \<times> so101_shm \<times> sup_msg list" where
  "chk_stall i s v shm =
     (if s_cycle s \<noteq> last_cycle v then (v\<lparr>last_cycle := s_cycle s, last_advance := in_now i\<rparr>, shm, [])
      else if in_now i - last_advance v > STALL_MS
           then let (shm, log) = raise_fault shm SO101_F_STALL True SO101_MODE_ESTOP ''control loop not publishing''
                in (v, shm, log)
      else (v, shm, []))"

definition chk_comm :: "so101d_ctx \<Rightarrow> so101_sample \<Rightarrow> sup \<Rightarrow> so101_shm \<Rightarrow> sup \<times> so101_shm \<times> sup_msg list" where
  "chk_comm c s v shm =
     (let log0 = (if int (unat (prev_ls v)) \<ge> comm_streak c \<and> s_leader_streak s = 0 then [MsgLeaderBack] else []) @
                 (if int (unat (prev_fs v)) \<ge> comm_streak c \<and> s_follower_streak s = 0 then [MsgFollowerBack] else []);
          v = v\<lparr>prev_ls := s_leader_streak s, prev_fs := s_follower_streak s\<rparr>;
          (shm, log1) = (if int (unat (s_leader_streak s)) \<ge> comm_streak c
             then raise_fault shm SO101_F_LEADER_COMM True SO101_MODE_HOLD ''leader bus not answering'' else (shm, []));
          (shm, log2) = (if int (unat (s_follower_streak s)) \<ge> comm_streak c
             then raise_fault shm SO101_F_FOLLOWER_COMM True SO101_MODE_IDLE ''follower bus not answering'' else (shm, []))
      in (v, shm, log0 @ log1 @ log2))"

definition sample_hot :: "so101d_ctx \<Rightarrow> so101_sample \<Rightarrow> bool" where
  "sample_hot c s \<longleftrightarrow> (\<exists>j\<in>{..<SO101_NJ}. int (unat (s_follower_temp s ! j)) \<ge> temp_limit c)"

definition sample_badv :: "so101d_ctx \<Rightarrow> so101_sample \<Rightarrow> bool" where
  "sample_badv c s \<longleftrightarrow> (\<exists>j\<in>{..<SO101_NJ}. int (unat (s_follower_volt s ! j)) < vmin_dv c \<or>
     int (unat (s_follower_volt s ! j)) > vmax_dv c)"

definition chk_servos :: "so101d_ctx \<Rightarrow> so101_sample \<Rightarrow> sup \<Rightarrow> so101_shm \<Rightarrow> sup \<times> so101_shm \<times> sup_msg list" where
  "chk_servos c s v shm =
     (if s_follower_ok s then
        let v = v\<lparr>temp_ticks := (if sample_hot c s then temp_ticks v + 1 else 0),
                  volt_ticks := (if sample_badv c s then volt_ticks v + 1 else 0)\<rparr>;
            (shm, log1) = (if temp_ticks v \<ge> PERSIST_TICKS
               then raise_fault shm SO101_F_OVERTEMP True SO101_MODE_IDLE ''servo temperature above limit'' else (shm, []));
            (shm, log2) = (if volt_ticks v \<ge> PERSIST_TICKS
               then raise_fault shm SO101_F_VOLTAGE True SO101_MODE_IDLE ''servo supply voltage out of range'' else (shm, []))
        in (v, shm, log1 @ log2)
      else (v, shm, []))"

definition chk_overrun :: "sup_in \<Rightarrow> so101_sample \<Rightarrow> sup \<Rightarrow> so101_shm \<Rightarrow> sup \<times> so101_shm \<times> sup_msg list" where
  "chk_overrun i s v shm =
     (if in_now i - ovr_t0 v \<ge> 1000 then
        let (shm, log) = (if s_overruns s - ovr_base v > OVERRUN_PER_S
              then raise_fault shm SO101_F_OVERRUN False 0 ''sustained deadline misses'' else (shm, []))
        in (v\<lparr>ovr_base := s_overruns s, ovr_t0 := in_now i\<rparr>, shm, log)
      else (v, shm, []))"

text \<open>Part 4, the log; it only changes its own variables.\<close>

definition sup_logging :: "sup_in \<Rightarrow> so101_sample \<Rightarrow> sup \<Rightarrow> sup \<times> sup_msg list" where
  "sup_logging i s v =
     (let (v, log1) = (if ucast (s_mode s) \<noteq> last_mode v
            then (v\<lparr>last_mode := ucast (s_mode s)\<rparr>, [MsgModeNow (so101_mode_name (unat (s_mode s))) (s_torque_on s)])
            else (v, []));
          log2 = (if last_ramp v \<noteq> 0 \<and> s_ramping s = 0 \<and> s_torque_on s then [MsgSoftStartDone] else []);
          v = v\<lparr>last_ramp := s_ramping s\<rparr>;
          (v, log3) = (if in_now i \<ge> next_status v
            then (v\<lparr>next_status := in_now i + STATUS_EVERY_MS\<rparr>, [MsgStatus s]) else (v, []))
      in (v, log1 @ log2 @ log3))"

definition sup_iter ::
    "so101d_ctx \<Rightarrow> sup_in \<Rightarrow> sup \<times> so101_shm \<Rightarrow> (sup \<times> so101_shm) \<times> bool \<times> sup_msg list" where
  "sup_iter c i st =
     (let (v, shm) = st;
          (v, shm, post, log0) = sup_mailbox i v shm
      in case in_snap i of
           None \<Rightarrow> ((v, shm), post, log0)
         | Some s \<Rightarrow>
             let (v, shm, log1) = chk_stall i s v shm;
                 (v, shm, log2) = chk_comm c s v shm;
                 (v, shm, log3) = chk_servos c s v shm;
                 (v, shm, log4) = chk_overrun i s v shm;
                 shm = shm\<lparr>shm_sup_beat := shm_sup_beat shm + 1\<rparr>;
                 (v, log5) = sup_logging i s v
             in ((v, shm), post, log0 @ log1 @ log2 @ log3 @ log4 @ log5))"

text \<open>The pass as a step on the loop variables and the shared memory.\<close>

definition sup_next :: "so101d_ctx \<Rightarrow> sup_in \<Rightarrow> sup \<times> so101_shm \<Rightarrow> sup \<times> so101_shm" where
  "sup_next c i st = fst (sup_iter c i st)"

section \<open>Fault bits\<close>

lemma bit_pow_u32: "k < 32 \<Longrightarrow> bit (2 ^ k :: u32) n = (n = k)"
  by (auto simp: bit_exp_iff)

lemma bit_fault [fault_simps]:
  "bit (1 :: u32) n = (n = 0)" "bit (2 :: u32) n = (n = 1)" "bit (4 :: u32) n = (n = 2)" "bit (8 :: u32) n = (n = 3)"
  "bit (16 :: u32) n = (n = 4)" "bit (32 :: u32) n = (n = 5)" "bit (64 :: u32) n = (n = 6)" "bit (128 :: u32) n = (n = 7)"
  using bit_pow_u32 [of 0 n] bit_pow_u32 [of 1 n] bit_pow_u32 [of 2 n] bit_pow_u32 [of 3 n]
    bit_pow_u32 [of 4 n] bit_pow_u32 [of 5 n] bit_pow_u32 [of 6 n] bit_pow_u32 [of 7 n]
  by simp_all

declare bit_numeral_word_iff [simp del]

lemma and_fault [fault_simps]:
  "(f AND 1 = 0) = (\<not> bit (f :: u32) 0)" "(f AND 2 = 0) = (\<not> bit f 1)" "(f AND 4 = 0) = (\<not> bit f 2)"
  "(f AND 8 = 0) = (\<not> bit f 3)" "(f AND 16 = 0) = (\<not> bit f 4)" "(f AND 32 = 0) = (\<not> bit f 5)"
  "(f AND 64 = 0) = (\<not> bit f 6)" "(f AND 128 = 0) = (\<not> bit f 7)"
  using and_single_bit [of f 0] and_single_bit [of f 1] and_single_bit [of f 2] and_single_bit [of f 3]
    and_single_bit [of f 4] and_single_bit [of f 5] and_single_bit [of f 6] and_single_bit [of f 7]
  by simp_all

lemma block_all_bits [fault_simps]:
  "(f AND F_BLOCK_ALL = 0) = (\<not> bit f 1 \<and> \<not> bit f 2 \<and> \<not> bit f 3 \<and> \<not> bit f 5 \<and> \<not> bit f 6)"
  unfolding F_BLOCK_ALL_def by (simp only: bit.conj_disj_distrib or_eq_0_iff and_fault conj_assoc)

lemma block_teleop_bits [fault_simps]:
  "(f AND F_BLOCK_TELEOP = 0) = (f AND F_BLOCK_ALL = 0 \<and> \<not> bit f 0)"
  unfolding F_BLOCK_TELEOP_def by (simp only: bit.conj_disj_distrib or_eq_0_iff and_fault)

text \<open>
  The contract between supervisor and control thread: the requested mode is a mode; a mode with
  torque is requested only while no fault forbids it; the emergency stop is backed by a fault
  that refuses every other mode.
\<close>

definition sup_safe :: "so101_shm \<Rightarrow> bool" where
  "sup_safe shm \<longleftrightarrow> shm_mode_req shm \<in> {SO101_MODE_IDLE, SO101_MODE_TELEOP, SO101_MODE_HOLD, SO101_MODE_ESTOP} \<and>
     (shm_mode_req shm = SO101_MODE_TELEOP \<longrightarrow> shm_faults shm AND F_BLOCK_TELEOP = 0) \<and>
     (shm_mode_req shm = SO101_MODE_HOLD \<longrightarrow> shm_faults shm AND F_BLOCK_ALL = 0) \<and>
     (shm_mode_req shm = SO101_MODE_ESTOP \<longrightarrow> bit (shm_faults shm) 5 \<or> bit (shm_faults shm) 6)"

definition mode_rank :: "u32 \<Rightarrow> nat" where
  "mode_rank m = (if m = SO101_MODE_ESTOP then 0 else if m = SO101_MODE_IDLE then 1
     else if m = SO101_MODE_HOLD then 2 else if m = SO101_MODE_TELEOP then 3 else 4)"

text \<open>\<open>descends a b\<close>: the mode went down or stayed, faults were only added, the rest is not the supervisor's.\<close>

definition descends :: "so101_shm \<Rightarrow> so101_shm \<Rightarrow> bool" where
  "descends a b \<longleftrightarrow> mode_rank (shm_mode_req b) \<le> mode_rank (shm_mode_req a) \<and>
     (\<forall>n. bit (shm_faults a) n \<longrightarrow> bit (shm_faults b) n) \<and> shm_seq b = shm_seq a \<and> shm_s b = shm_s a \<and>
     shm_cmd b = shm_cmd a"

lemma descends_refl [simp]: "descends a a"
  by (simp add: descends_def)

lemma descends_trans [trans]: "descends a b \<Longrightarrow> descends b c \<Longrightarrow> descends a c"
  by (auto simp: descends_def)

text \<open>What every use of \<open>raise_fault\<close> in the loop does.\<close>

definition fault_step :: "so101_shm \<Rightarrow> so101_shm \<Rightarrow> bool" where
  "fault_step a b \<longleftrightarrow> descends a b \<and> (sup_safe a \<longrightarrow> sup_safe b) \<and> shm_ack b = shm_ack a"

lemma fault_step_refl [simp]: "fault_step a a"
  by (simp add: fault_step_def)

lemma fault_step_trans [trans]: "fault_step a b \<Longrightarrow> fault_step b c \<Longrightarrow> fault_step a c"
  by (auto simp: fault_step_def intro: descends_trans)

lemma raise_fault_fields:
  assumes "raise_fault shm b f safe why = (shm', msgs)"
  shows "shm_faults shm' = shm_faults shm OR b" "shm_seq shm' = shm_seq shm" "shm_s shm' = shm_s shm"
    "shm_cmd shm' = shm_cmd shm" "shm_ack shm' = shm_ack shm"
    "shm_mode_req shm' = (if f \<and> (safe = SO101_MODE_ESTOP \<or> safe = SO101_MODE_IDLE \<and> shm_mode_req shm \<noteq> SO101_MODE_ESTOP \<or>
       safe = SO101_MODE_HOLD \<and> shm_mode_req shm = SO101_MODE_TELEOP) then safe else shm_mode_req shm)"
  using assms by (auto simp: raise_fault_def Let_def split: if_splits)

lemmas fault_step_defs = fault_step_def descends_def sup_safe_def mode_rank_def bit_or_iff fault_simps

lemma raise_stall:
  assumes "raise_fault shm SO101_F_STALL True SO101_MODE_ESTOP why = (shm', msgs)"
  shows "fault_step shm shm' \<and> shm_mode_req shm' = SO101_MODE_ESTOP \<and> bit (shm_faults shm') 5"
  using raise_fault_fields [OF assms] by (simp add: fault_step_defs)

lemma raise_hold:
  assumes "raise_fault shm SO101_F_LEADER_COMM True SO101_MODE_HOLD why = (shm', msgs)"
  shows "fault_step shm shm' \<and> shm_mode_req shm' \<noteq> SO101_MODE_TELEOP \<and> bit (shm_faults shm') 0"
  using raise_fault_fields [OF assms] by (auto simp: fault_step_defs split: if_splits)

lemma raise_idle:
  assumes "raise_fault shm b True SO101_MODE_IDLE why = (shm', msgs)"
    and "b = SO101_F_FOLLOWER_COMM \<and> k = 1 \<or> b = SO101_F_OVERTEMP \<and> k = 2 \<or> b = SO101_F_VOLTAGE \<and> k = 3"
  shows "fault_step shm shm' \<and> shm_mode_req shm' \<in> {SO101_MODE_IDLE, SO101_MODE_ESTOP} \<and> bit (shm_faults shm') k"
proof -
  note r = raise_fault_fields [OF assms(1)]
  have m: "shm_mode_req shm' = (if shm_mode_req shm = SO101_MODE_ESTOP then SO101_MODE_ESTOP else SO101_MODE_IDLE)"
    using r(6) by simp
  have k: "bit b n = (n = k)" for n using assms(2) by (auto simp: fault_simps)
  show ?thesis
    using r(1-5) by (auto simp: m fault_step_def descends_def sup_safe_def mode_rank_def bit_or_iff k)
qed

lemma raise_only:
  assumes "raise_fault shm SO101_F_OVERRUN False m why = (shm', msgs)"
  shows "fault_step shm shm' \<and> shm_mode_req shm' = shm_mode_req shm \<and> bit (shm_faults shm') 4"
  using raise_fault_fields [OF assms] by (auto simp: fault_step_defs)

section \<open>The checks of one pass\<close>

lemma chk_stall_step: "chk_stall i s v shm = (v', shm', msgs) \<Longrightarrow> fault_step shm shm'"
  by (auto simp: chk_stall_def split: if_splits prod.splits dest: raise_stall)

lemma chk_comm_step: "chk_comm c s v shm = (v', shm', msgs) \<Longrightarrow> fault_step shm shm'"
proof -
  assume ck: "chk_comm c s v shm = (v', shm', msgs)"
  obtain s1 m1 where 1: "raise_fault shm SO101_F_LEADER_COMM True SO101_MODE_HOLD ''leader bus not answering'' = (s1, m1)"
    by fastforce
  obtain s2 m2 where 2: "raise_fault s1 SO101_F_FOLLOWER_COMM True SO101_MODE_IDLE ''follower bus not answering'' = (s2, m2)"
    by fastforce
  obtain s3 m3 where 3: "raise_fault shm SO101_F_FOLLOWER_COMM True SO101_MODE_IDLE ''follower bus not answering'' = (s3, m3)"
    by fastforce
  have "fault_step shm s1" "fault_step s1 s2" "fault_step shm s3"
    using raise_hold [OF 1] raise_idle [OF 2] raise_idle [OF 3] by simp_all
  then show ?thesis
    using ck by (auto simp: chk_comm_def Let_def 1 2 3 split: if_splits intro: fault_step_trans)
qed

lemma chk_servos_step: "chk_servos c s v shm = (v', shm', msgs) \<Longrightarrow> fault_step shm shm'"
proof -
  assume ck: "chk_servos c s v shm = (v', shm', msgs)"
  obtain s1 m1 where 1: "raise_fault shm SO101_F_OVERTEMP True SO101_MODE_IDLE ''servo temperature above limit'' = (s1, m1)"
    by fastforce
  obtain s2 m2 where 2: "raise_fault s1 SO101_F_VOLTAGE True SO101_MODE_IDLE ''servo supply voltage out of range'' = (s2, m2)"
    by fastforce
  obtain s3 m3 where 3: "raise_fault shm SO101_F_VOLTAGE True SO101_MODE_IDLE ''servo supply voltage out of range'' = (s3, m3)"
    by fastforce
  have "fault_step shm s1" "fault_step s1 s2" "fault_step shm s3"
    using raise_idle [OF 1] raise_idle [OF 2] raise_idle [OF 3] by simp_all
  then show ?thesis
    using ck by (auto simp: chk_servos_def Let_def 1 2 3 split: if_splits intro: fault_step_trans)
qed

lemma chk_overrun_step: "chk_overrun i s v shm = (v', shm', msgs) \<Longrightarrow> fault_step shm shm'"
  by (auto simp: chk_overrun_def Let_def split: if_splits prod.splits dest: raise_only)

lemma fault_step_beat: "fault_step shm (shm\<lparr>shm_sup_beat := b\<rparr>)"
  by (simp add: fault_step_def descends_def sup_safe_def)

text \<open>The four checks, the heartbeat and the log of a pass on a snapshot.\<close>

definition sup_checks :: "so101d_ctx \<Rightarrow> sup_in \<Rightarrow> so101_sample \<Rightarrow> sup \<Rightarrow> so101_shm \<Rightarrow> sup \<times> so101_shm \<times> sup_msg list" where
  "sup_checks c i s v shm =
     (let (v, shm, log1) = chk_stall i s v shm;
          (v, shm, log2) = chk_comm c s v shm;
          (v, shm, log3) = chk_servos c s v shm;
          (v, shm, log4) = chk_overrun i s v shm;
          shm = shm\<lparr>shm_sup_beat := shm_sup_beat shm + 1\<rparr>;
          (v, log5) = sup_logging i s v
      in (v, shm, log1 @ log2 @ log3 @ log4 @ log5))"

lemma sup_next_eq:
  "sup_next c i (v, shm) =
    (let (v1, shm1, post, log0) = sup_mailbox i v shm in
     case in_snap i of None \<Rightarrow> (v1, shm1)
     | Some s \<Rightarrow> (let (v2, shm2, log2) = sup_checks c i s v1 shm1 in (v2, shm2)))"
  by (simp add: sup_next_def sup_iter_def sup_checks_def Let_def split: prod.splits option.splits)

lemma sup_checks_cases:
  assumes "sup_checks c i s v shm = (v', shm', msgs)"
  obtains v1 s1 m1 v2 s2 m2 v3 s3 m3 v4 s4 m4 where
    "chk_stall i s v shm = (v1, s1, m1)" "chk_comm c s v1 s1 = (v2, s2, m2)"
    "chk_servos c s v2 s2 = (v3, s3, m3)" "chk_overrun i s v3 s3 = (v4, s4, m4)"
    "shm' = s4\<lparr>shm_sup_beat := shm_sup_beat s4 + 1\<rparr>" "v' = fst (sup_logging i s v4)"
  using assms that by (simp add: sup_checks_def Let_def split: prod.splits)

lemma sup_checks_step:
  assumes "sup_checks c i s v shm = (v', shm', msgs)"
  shows "fault_step shm shm'"
  using assms
proof (cases rule: sup_checks_cases)
  case (1 v1 s1 m1 v2 s2 m2 v3 s3 m3 v4 s4 m4)
  note chk_stall_step [OF 1(1)]
  also note chk_comm_step [OF 1(2)]
  also note chk_servos_step [OF 1(3)]
  also note chk_overrun_step [OF 1(4)]
  also have "fault_step s4 shm'" unfolding 1(5) by (rule fault_step_beat)
  finally show ?thesis .
qed

lemma serve_command_cases [consumes 1, case_names Refused Mode Estop Reset Ping]:
  assumes "serve_command shm cmd = (res, shm')"
  obtains "res \<in> {SO101_RES_REFUSED, SO101_RES_BAD_CMD}" "shm' = shm"
  | m where "res = SO101_RES_OK" "cmd_cmd cmd = SO101_CMD_SET_MODE" "cmd_arg cmd = uint m"
      "shm' = shm\<lparr>shm_mode_req := m\<rparr>"
      "m = SO101_MODE_IDLE \<and> shm_mode_req shm \<noteq> SO101_MODE_ESTOP \<or>
       m = SO101_MODE_TELEOP \<and> shm_faults shm AND F_BLOCK_TELEOP = 0 \<or>
       m = SO101_MODE_HOLD \<and> shm_faults shm AND F_BLOCK_ALL = 0"
  | "res = SO101_RES_OK" "cmd_cmd cmd = SO101_CMD_ESTOP"
      "shm' = shm\<lparr>shm_faults := shm_faults shm OR SO101_F_ESTOP, shm_mode_req := SO101_MODE_ESTOP\<rparr>"
  | "res = SO101_RES_OK" "cmd_cmd cmd = SO101_CMD_RESET"
      "shm' = shm\<lparr>shm_faults := 0, shm_mode_req := SO101_MODE_IDLE\<rparr>"
  | "res = SO101_RES_OK" "cmd_cmd cmd = SO101_CMD_PING" "shm' = shm"
proof (cases "cmd_cmd cmd = SO101_CMD_SET_MODE")
  case True
  consider "res \<in> {SO101_RES_REFUSED, SO101_RES_BAD_CMD}" "shm' = shm"
    | "cmd_arg cmd = 0" "shm_mode_req shm \<noteq> SO101_MODE_ESTOP" "res = 0" "shm' = shm\<lparr>shm_mode_req := 0\<rparr>"
    | "cmd_arg cmd = 1" "shm_faults shm AND F_BLOCK_TELEOP = 0" "res = 0" "shm' = shm\<lparr>shm_mode_req := 1\<rparr>"
    | "cmd_arg cmd = 2" "shm_faults shm AND F_BLOCK_ALL = 0" "res = 0" "shm' = shm\<lparr>shm_mode_req := 2\<rparr>"
    using assms True unfolding serve_command_def by (force simp: Let_def split: if_splits)
  then show ?thesis
    using True by cases (rule that(1) that(2) [of 0] that(2) [of 1] that(2) [of 2]; simp)+
next
  case False
  then consider "cmd_cmd cmd = SO101_CMD_ESTOP" | "cmd_cmd cmd = SO101_CMD_RESET" | "cmd_cmd cmd = SO101_CMD_PING"
    | "cmd_cmd cmd \<notin> {SO101_CMD_SET_MODE, SO101_CMD_ESTOP, SO101_CMD_RESET, SO101_CMD_PING}" by blast
  then show ?thesis
    using assms
    by cases (rule that(3) that(4) that(5) that(1); simp add: serve_command_def Let_def)+
qed

lemma serve_command_safe:
  assumes "serve_command shm cmd = (res, shm')" and "sup_safe shm"
  shows "sup_safe shm'"
  using assms(1)
proof (cases rule: serve_command_cases)
  case (Mode m)
  then show ?thesis by (elim disjE) (simp_all add: sup_safe_def)
qed (use assms(2) in \<open>simp_all add: sup_safe_def bit_or_iff fault_simps\<close>)

lemma sup_mailbox_safe:
  assumes "sup_mailbox i v shm = (v', shm', post, msgs)" and "sup_safe shm"
  shows "sup_safe shm'"
proof -
  obtain res s1 where r: "serve_command shm (shm_cmd shm) = (res, s1)"
    by (cases "serve_command shm (shm_cmd shm)")
  then have "sup_safe s1" using assms(2) by (rule serve_command_safe)
  then have "sup_safe (s1\<lparr>shm_ack := a\<rparr>)" for a by (simp add: sup_safe_def)
  then show ?thesis
    using assms by (auto simp: sup_mailbox_def r Let_def split: if_splits)
qed

lemma serve_command_frame:
  "serve_command shm cmd = (res, shm') \<Longrightarrow> shm_seq shm' = shm_seq shm \<and> shm_s shm' = shm_s shm"
  by (erule serve_command_cases) simp_all

lemma sup_mailbox_frame:
  "sup_mailbox i v shm = (v', shm', post, msgs) \<Longrightarrow> shm_seq shm' = shm_seq shm \<and> shm_s shm' = shm_s shm"
  by (auto simp: sup_mailbox_def Let_def split: if_splits prod.splits dest: serve_command_frame)

lemma sup_mailbox_tick: "\<not> in_got i \<Longrightarrow> sup_mailbox i v shm = (v', shm', post, msgs) \<Longrightarrow> shm' = shm"
  by (auto simp: sup_mailbox_def split: if_splits)

lemma sup_next_safe: "sup_safe (snd st) \<Longrightarrow> sup_safe (snd (sup_next c i st))"
proof -
  assume safe: "sup_safe (snd st)"
  obtain v shm where st: "st = (v, shm)" by (cases st)
  obtain v1 s1 p1 m1 where m: "sup_mailbox i v shm = (v1, s1, p1, m1)" by (cases "sup_mailbox i v shm")
  have s1: "sup_safe s1" using sup_mailbox_safe [OF m] safe st by simp
  show ?thesis
  proof (cases "in_snap i")
    case None
    then show ?thesis using s1 by (simp add: st sup_next_eq m)
  next
    case (Some s)
    obtain v2 s2 m2 where ck: "sup_checks c i s v1 s1 = (v2, s2, m2)" by (cases "sup_checks c i s v1 s1")
    then show ?thesis
      using sup_checks_step [OF ck] s1 Some by (simp add: st sup_next_eq m fault_step_def)
  qed
qed

lemma sup_next_descends: "\<not> in_got i \<Longrightarrow> descends (snd st) (snd (sup_next c i st))"
proof -
  assume tick: "\<not> in_got i"
  obtain v shm where st: "st = (v, shm)" by (cases st)
  obtain v1 s1 p1 m1 where m: "sup_mailbox i v shm = (v1, s1, p1, m1)" by (cases "sup_mailbox i v shm")
  have s1: "s1 = shm" using sup_mailbox_tick [OF tick m] .
  show ?thesis
  proof (cases "in_snap i")
    case None
    then show ?thesis using s1 by (simp add: st sup_next_eq m)
  next
    case (Some s)
    obtain v2 s2 m2 where ck: "sup_checks c i s v1 s1 = (v2, s2, m2)" by (cases "sup_checks c i s v1 s1")
    then show ?thesis
      using sup_checks_step [OF ck] s1 Some by (simp add: st sup_next_eq m fault_step_def)
  qed
qed

lemma sup_next_frame:
  assumes "sup_next c i (v, shm) = (v', shm')"
  shows "shm_seq shm' = shm_seq shm \<and> shm_s shm' = shm_s shm"
proof -
  obtain v1 s1 p1 m1 where m: "sup_mailbox i v shm = (v1, s1, p1, m1)" by (cases "sup_mailbox i v shm")
  show ?thesis
  proof (cases "in_snap i")
    case None
    then show ?thesis using assms sup_mailbox_frame [OF m] by (simp add: sup_next_eq m)
  next
    case (Some s)
    obtain v2 s2 m2 where ck: "sup_checks c i s v1 s1 = (v2, s2, m2)" by (cases "sup_checks c i s v1 s1")
    then show ?thesis
      using sup_checks_step [OF ck] sup_mailbox_frame [OF m] assms Some
      by (simp add: sup_next_eq m fault_step_def descends_def)
  qed
qed

text \<open>
  A pass after a client wrote the mailbox. The loop with its clients satisfies the contracts of
  runs: safety, descent while no command is taken, and the latch of the emergency stop.
\<close>

definition sup_pass :: "so101d_ctx \<Rightarrow> so101_cmd \<times> sup_in \<Rightarrow> sup \<times> so101_shm \<Rightarrow> sup \<times> so101_shm" where
  "sup_pass c wi st = sup_next c (snd wi) (fst st, (snd st)\<lparr>shm_cmd := fst wi\<rparr>)"

definition no_reset :: "so101_cmd \<times> sup_in \<Rightarrow> bool" where
  "no_reset wi \<longleftrightarrow> \<not> (in_got (snd wi) \<and> cmd_cmd (fst wi) = SO101_CMD_RESET)"

lemma sup_safe_cmd: "sup_safe (shm\<lparr>shm_cmd := w\<rparr>) = sup_safe shm"
  by (simp add: sup_safe_def)

lemma sup_pass_safe: "sup_safe (snd st) \<Longrightarrow> sup_safe (snd (sup_pass c wi st))"
  by (simp add: sup_pass_def sup_next_safe sup_safe_cmd)

lemma sup_pass_descends:
  "\<not> in_got (snd wi) \<Longrightarrow> descends ((snd st)\<lparr>shm_cmd := w\<rparr>) ((snd (sup_pass c wi st))\<lparr>shm_cmd := w\<rparr>)"
  using sup_next_descends [of "snd wi" "(fst st, (snd st)\<lparr>shm_cmd := fst wi\<rparr>)" c]
  by (simp add: sup_pass_def descends_def)

lemma serve_estop:
  assumes "serve_command shm cmd = (res, shm')" and "sup_safe shm" and "shm_mode_req shm = SO101_MODE_ESTOP"
    and "cmd_cmd cmd \<noteq> SO101_CMD_RESET"
  shows "shm_mode_req shm' = SO101_MODE_ESTOP"
  using assms(1)
proof (cases rule: serve_command_cases)
  case (Mode m)
  then show ?thesis using assms(2,3) by (auto simp: sup_safe_def fault_simps)
qed (use assms(3,4) in simp_all)

lemma descends_estop: "descends a b \<Longrightarrow> shm_mode_req a = SO101_MODE_ESTOP \<Longrightarrow> shm_mode_req b = SO101_MODE_ESTOP"
  by (simp add: descends_def mode_rank_def split: if_splits)

lemma sup_pass_estop:
  assumes "sup_safe (snd st)" and "no_reset wi" and "shm_mode_req (snd st) = SO101_MODE_ESTOP"
  shows "shm_mode_req (snd (sup_pass c wi st)) = SO101_MODE_ESTOP"
proof -
  obtain w i where wi: "wi = (w, i)" by (cases wi)
  obtain v shm where st: "st = (v, shm)" by (cases st)
  let ?shm = "shm\<lparr>shm_cmd := w\<rparr>"
  obtain v1 s1 p1 m1 where m: "sup_mailbox i v ?shm = (v1, s1, p1, m1)" by (cases "sup_mailbox i v ?shm")
  obtain res s0 where r: "serve_command ?shm w = (res, s0)" by (cases "serve_command ?shm w")
  have "in_got i \<Longrightarrow> shm_mode_req s0 = SO101_MODE_ESTOP"
    using assms wi st by (intro serve_estop [OF r]) (simp_all add: sup_safe_cmd no_reset_def)
  then have s1: "shm_mode_req s1 = SO101_MODE_ESTOP"
    using m assms(3) st r by (auto simp: sup_mailbox_def Let_def split: if_splits)
  show ?thesis
  proof (cases "in_snap i")
    case None
    then show ?thesis using s1 by (simp add: sup_pass_def st wi sup_next_eq m)
  next
    case (Some s)
    obtain v2 s2 m2 where ck: "sup_checks c i s v1 s1 = (v2, s2, m2)" by (cases "sup_checks c i s v1 s1")
    then show ?thesis
      using sup_checks_step [OF ck] s1 Some descends_estop [of s1 s2]
      by (simp add: sup_pass_def st wi sup_next_eq m fault_step_def)
  qed
qed

interpretation sup_loop: run_descent "sup_pass c" "\<lambda>st. sup_safe (snd st)"
    "\<lambda>a b. descends ((snd a)\<lparr>shm_cmd := w\<rparr>) ((snd b)\<lparr>shm_cmd := w\<rparr>)" "\<lambda>wi. \<not> in_got (snd wi)"
  for c w
  by unfold_locales (auto intro: sup_pass_safe sup_pass_descends descends_trans)

interpretation sup_latch: run_descent "sup_pass c" "\<lambda>st. sup_safe (snd st)"
    "\<lambda>a b. shm_mode_req (snd a) = SO101_MODE_ESTOP \<longrightarrow> shm_mode_req (snd b) = SO101_MODE_ESTOP" no_reset
  for c
  by unfold_locales (auto intro: sup_pass_safe sup_pass_estop)

section \<open>Stall and persistence\<close>

lemma sup_mailbox_vars:
  "sup_mailbox i v shm = (v', shm', post, msgs) \<Longrightarrow> last_cycle v' = last_cycle v \<and> last_advance v' = last_advance v \<and>
     temp_ticks v' = temp_ticks v \<and> volt_ticks v' = volt_ticks v"
  by (auto simp: sup_mailbox_def Let_def split: if_splits prod.splits)

lemma sup_logging_vars:
  "last_cycle (fst (sup_logging i s v)) = last_cycle v \<and> last_advance (fst (sup_logging i s v)) = last_advance v \<and>
     temp_ticks (fst (sup_logging i s v)) = temp_ticks v \<and> volt_ticks (fst (sup_logging i s v)) = volt_ticks v"
  by (simp add: sup_logging_def Let_def)

lemma chk_vars:
  "chk_stall i s v shm = (v', shm', m) \<Longrightarrow> temp_ticks v' = temp_ticks v \<and> volt_ticks v' = volt_ticks v \<and>
     (s_cycle s = last_cycle v \<longrightarrow> last_cycle v' = last_cycle v \<and> last_advance v' = last_advance v)"
  "chk_comm c s v shm = (v', shm', m) \<Longrightarrow> temp_ticks v' = temp_ticks v \<and> volt_ticks v' = volt_ticks v \<and>
     last_cycle v' = last_cycle v \<and> last_advance v' = last_advance v"
  "chk_servos c s v shm = (v', shm', m) \<Longrightarrow> last_cycle v' = last_cycle v \<and> last_advance v' = last_advance v \<and>
     (s_follower_ok s \<longrightarrow> temp_ticks v' = (if sample_hot c s then temp_ticks v + 1 else 0))"
  "chk_overrun i s v shm = (v', shm', m) \<Longrightarrow> temp_ticks v' = temp_ticks v \<and> volt_ticks v' = volt_ticks v \<and>
     last_cycle v' = last_cycle v \<and> last_advance v' = last_advance v"
  by (auto simp: chk_stall_def chk_comm_def chk_servos_def chk_overrun_def Let_def split: if_splits prod.splits)

text \<open>A pass with a snapshot runs the checks on what the mailbox part left.\<close>

lemma sup_pass_snap:
  assumes "in_snap (snd wi) = Some s"
  obtains v1 s1 m where "sup_checks c (snd wi) s v1 s1 = (fst (sup_pass c wi st), snd (sup_pass c wi st), m)"
    "last_cycle v1 = last_cycle (fst st)" "last_advance v1 = last_advance (fst st)"
    "temp_ticks v1 = temp_ticks (fst st)"
proof -
  let ?shm = "(snd st)\<lparr>shm_cmd := fst wi\<rparr>"
  obtain v1 s1 p1 m1 where m: "sup_mailbox (snd wi) (fst st) ?shm = (v1, s1, p1, m1)"
    by (cases "sup_mailbox (snd wi) (fst st) ?shm")
  obtain v2 s2 m2 where ck: "sup_checks c (snd wi) s v1 s1 = (v2, s2, m2)" by (cases "sup_checks c (snd wi) s v1 s1")
  have "sup_pass c wi st = (v2, s2)" using assms m ck by (simp add: sup_pass_def sup_next_eq)
  then show ?thesis using that ck sup_mailbox_vars [OF m] by simp
qed

lemma sup_checks_vars:
  assumes "sup_checks c i s v shm = (v', shm', m)"
  shows "(s_cycle s = last_cycle v \<longrightarrow> last_cycle v' = last_cycle v \<and> last_advance v' = last_advance v) \<and>
    (s_follower_ok s \<longrightarrow> temp_ticks v' = (if sample_hot c s then temp_ticks v + 1 else 0))"
  using assms
proof (cases rule: sup_checks_cases)
  case (1 v1 s1 m1 v2 s2 m2 v3 s3 m3 v4 s4 m4)
  then show ?thesis
    using chk_vars(1) [OF 1(1)] chk_vars(2) [OF 1(2)] chk_vars(3) [OF 1(3)] chk_vars(4) [OF 1(4)]
      sup_logging_vars [of i s v4] by simp
qed

lemma sup_checks_stall:
  assumes "sup_checks c i s v shm = (v', shm', m)" and "s_cycle s = last_cycle v"
    and "in_now i - last_advance v > STALL_MS"
  shows "shm_mode_req shm' = SO101_MODE_ESTOP \<and> bit (shm_faults shm') 5"
  using assms(1)
proof (cases rule: sup_checks_cases)
  case (1 v1 s1 m1 v2 s2 m2 v3 s3 m3 v4 s4 m4)
  obtain s0 m0 where r: "raise_fault shm SO101_F_STALL True SO101_MODE_ESTOP ''control loop not publishing'' = (s0, m0)"
    by fastforce
  have s1: "s1 = s0" using 1(1) assms(2,3) r by (simp add: chk_stall_def)
  have "fault_step s1 s4"
    using chk_comm_step [OF 1(2)] chk_servos_step [OF 1(3)] chk_overrun_step [OF 1(4)]
    by (blast intro: fault_step_trans)
  then have "descends s1 shm'" using 1(5) by (simp add: fault_step_def descends_def)
  then show ?thesis
    using raise_stall [OF r] s1 descends_estop [of s1 shm'] by (auto simp: descends_def)
qed

lemma descends_off:
  "descends a b \<Longrightarrow> shm_mode_req a \<in> {SO101_MODE_IDLE, SO101_MODE_ESTOP} \<Longrightarrow>
    shm_mode_req b \<in> {SO101_MODE_IDLE, SO101_MODE_ESTOP}"
  by (auto simp: descends_def mode_rank_def split: if_splits)

lemma sup_checks_hot:
  assumes "sup_checks c i s v shm = (v', shm', m)" and "s_follower_ok s" and "sample_hot c s"
    and "temp_ticks v \<ge> PERSIST_TICKS - 1"
  shows "shm_mode_req shm' \<in> {SO101_MODE_IDLE, SO101_MODE_ESTOP} \<and> bit (shm_faults shm') 2"
  using assms(1)
proof (cases rule: sup_checks_cases)
  case (1 v1 s1 m1 v2 s2 m2 v3 s3 m3 v4 s4 m4)
  have t: "temp_ticks v2 \<ge> 4" using chk_vars(1) [OF 1(1)] chk_vars(2) [OF 1(2)] assms(4) by simp
  obtain s0 m0 where r: "raise_fault s2 SO101_F_OVERTEMP True SO101_MODE_IDLE ''servo temperature above limit'' = (s0, m0)"
    by fastforce
  obtain sv mv where r': "raise_fault s0 SO101_F_VOLTAGE True SO101_MODE_IDLE ''servo supply voltage out of range'' = (sv, mv)"
    by fastforce
  have i0: "shm_mode_req s0 \<in> {SO101_MODE_IDLE, SO101_MODE_ESTOP}" "bit (shm_faults s0) 2"
    using raise_idle [OF r, of 2] by simp_all
  have "s3 = s0 \<or> s3 = sv"
    using 1(3) assms(2,3) t r r' by (auto simp: chk_servos_def Let_def split: if_splits)
  then have "fault_step s0 s3" using raise_idle [OF r', of 3] by auto
  then have "fault_step s0 s4" using chk_overrun_step [OF 1(4)] by (blast intro: fault_step_trans)
  then have "descends s0 shm'" using 1(5) by (simp add: fault_step_def descends_def)
  then show ?thesis using i0 descends_off [of s0 shm'] by (auto simp: descends_def)
qed

end
