(* ===== verification/Supervisor_Props.thy ===== *)
theory Supervisor_Props
  imports Supervisor
begin

text \<open>
  The properties of the supervisor thread: for every sequence of passes, with any commands, clock
  readings and snapshots.
\<close>

definition ex_cmd :: "u32 \<Rightarrow> int \<Rightarrow> so101_cmd" where
  "ex_cmd k a = \<lparr>cmd_id = 7, cmd_cmd = k, cmd_arg = a, cmd_client_pid = 1\<rparr>"

definition ex_shm :: "u32 \<Rightarrow> u32 \<Rightarrow> so101_shm" where
  "ex_shm m f = \<lparr>shm_magic = SO101_SHM_MAGIC, shm_version = 2, shm_size = 360, shm_daemon_pid = 1,
     shm_period_ns = 10000000, shm_n_joints = 6, shm_joint_names = [], shm_seq = 0, shm_s = sample_zero,
     shm_mode_req = m, shm_faults = f, shm_sup_beat = 0, shm_cmd = ex_cmd 0 0,
     shm_ack = \<lparr>ack_id = 0, ack_result = 0\<rparr>\<rparr>"

definition ex_sample :: so101_sample where
  "ex_sample = sample_zero\<lparr>s_cycle := 5, s_follower_ok := True, s_follower_volt := replicate 6 70,
     s_follower_temp := [30, 30, 75, 30, 30, 30]\<rparr>"

definition ex_in :: "bool \<Rightarrow> int \<Rightarrow> sup_in" where
  "ex_in g t = \<lparr>in_got = g, in_now = t, in_lock = 1, in_snap = Some ex_sample\<rparr>"

section \<open>Modes and faults\<close>

text \<open>C12. Torque is never requested against a fault. Whatever commands, clock readings, lock values and
  snapshots the passes of the supervisor meet, once the memory is as the daemon creates it, the
  requested mode is always one of the four modes; TELEOP is requested only while none of the
  faults that forbid it is latched (both buses, temperature, voltage, stall, emergency stop) and
  HOLD only while none but the leader's bus fault is; and the emergency stop is always backed by a
  latched stall or emergency-stop fault.\<close>

theorem mode_respects_faults:
  assumes "shm_faults shm = 0"
    and "shm_mode_req shm \<in> {SO101_MODE_IDLE, SO101_MODE_TELEOP, SO101_MODE_HOLD}"
  shows "sup_safe (snd (fold (sup_pass c) passes (v, shm)))"
proof -
  have "sup_safe (snd (v, shm))" using assms by (auto simp: sup_safe_def)
  then show ?thesis by (rule sup_loop.inv_run)
qed

theorem mode_respects_faults_witness:
  "sup_safe (snd (fold (sup_pass ctx_default) (replicate 5 (ex_cmd 1 1, ex_in True 40)) (sup_init 0 0 0, ex_shm 1 0)))"
  using mode_respects_faults [of "ex_shm 1 0" ctx_default "replicate 5 (ex_cmd 1 1, ex_in True 40)" "sup_init 0 0 0"]
  by (simp add: ex_shm_def)

text \<open>The emergency stop is latched: once requested, no sequence of passes leaves it unless one of
  them serves a RESET command.\<close>

theorem estop_latched:
  assumes "sup_safe shm" and "shm_mode_req shm = SO101_MODE_ESTOP" and "list_all no_reset passes"
  shows "shm_mode_req (snd (fold (sup_pass c) passes (v, shm))) = SO101_MODE_ESTOP"
  using sup_latch.below_run [of "(v, shm)" passes c] assms by simp

theorem estop_latched_witness:
  "shm_mode_req (snd (fold (sup_pass ctx_default) [(ex_cmd 1 1, ex_in True 20), (ex_cmd 1 0, ex_in True 40)]
     (sup_init 0 0 0, ex_shm 3 64))) = SO101_MODE_ESTOP"
  using estop_latched [of "ex_shm 3 64" "[(ex_cmd 1 1, ex_in True 20), (ex_cmd 1 0, ex_in True 40)]" ctx_default "sup_init 0 0 0"]
  by (simp add: ex_shm_def sup_safe_def fault_simps no_reset_def ex_cmd_def)

text \<open>On its own the supervisor only makes things safer: over any sequence of passes that take no
  command, the requested mode only goes down in the order TELEOP, HOLD, IDLE, ESTOP, no latched
  fault is cleared, and the published sample and its counter are untouched.\<close>

theorem unattended_only_descends:
  assumes "sup_safe shm" and "list_all (\<lambda>p. \<not> in_got (snd p)) passes" and "fold (sup_pass c) passes (v, shm) = (v', shm')"
  shows "mode_rank (shm_mode_req shm') \<le> mode_rank (shm_mode_req shm) \<and>
    (\<forall>n. bit (shm_faults shm) n \<longrightarrow> bit (shm_faults shm') n) \<and> shm_s shm' = shm_s shm \<and> shm_seq shm' = shm_seq shm"
  using sup_loop.below_run [of "(v, shm)" passes _ c] assms by (simp add: descends_def)

theorem unattended_only_descends_witness:
  "mode_rank (shm_mode_req (snd (fold (sup_pass ctx_default) (replicate 6 (ex_cmd 0 0, ex_in False 20)) (sup_init 0 0 0, ex_shm 1 0)))) \<le> 3"
proof -
  obtain v' shm' where r: "fold (sup_pass ctx_default) (replicate 6 (ex_cmd 0 0, ex_in False 20)) (sup_init 0 0 0, ex_shm 1 0) = (v', shm')"
    by (cases "fold (sup_pass ctx_default) (replicate 6 (ex_cmd 0 0, ex_in False 20)) (sup_init 0 0 0, ex_shm 1 0)")
  show ?thesis
    using unattended_only_descends [OF _ _ r] unfolding r
    by (simp add: ex_shm_def sup_safe_def ex_in_def mode_rank_def list_all_iff)
qed

text \<open>The commands. A command is refused exactly when it asks for IDLE under an emergency stop, for
  TELEOP or HOLD under a fault that forbids it; a command that is refused or unknown changes
  nothing; an accepted mode becomes the requested mode with the faults as they were; ESTOP and
  PING are never refused; RESET clears every fault and requests IDLE.\<close>

theorem serve_command_spec:
  assumes "serve_command shm cmd = (res, shm')"
  shows "(res = SO101_RES_REFUSED \<longleftrightarrow> cmd_cmd cmd = SO101_CMD_SET_MODE \<and>
      (cmd_arg cmd = 0 \<and> shm_mode_req shm = SO101_MODE_ESTOP \<or>
       cmd_arg cmd = 1 \<and> (\<exists>n\<in>{0, 1, 2, 3, 5, 6}. bit (shm_faults shm) n) \<or>
       cmd_arg cmd = 2 \<and> (\<exists>n\<in>{1, 2, 3, 5, 6}. bit (shm_faults shm) n))) \<and>
    (res \<noteq> SO101_RES_OK \<longrightarrow> shm' = shm) \<and>
    (res = SO101_RES_OK \<and> cmd_cmd cmd = SO101_CMD_SET_MODE \<longrightarrow>
      cmd_arg cmd \<in> {0, 1, 2} \<and> shm' = shm\<lparr>shm_mode_req := word_of_int (cmd_arg cmd)\<rparr>) \<and>
    (cmd_cmd cmd = SO101_CMD_ESTOP \<longrightarrow> res = SO101_RES_OK \<and> shm_mode_req shm' = SO101_MODE_ESTOP \<and> bit (shm_faults shm') 6) \<and>
    (cmd_cmd cmd = SO101_CMD_RESET \<longrightarrow> res = SO101_RES_OK \<and> shm_mode_req shm' = SO101_MODE_IDLE \<and> shm_faults shm' = 0) \<and>
    (cmd_cmd cmd = SO101_CMD_PING \<longrightarrow> res = SO101_RES_OK \<and> shm' = shm)"
proof (cases "cmd_cmd cmd = SO101_CMD_SET_MODE")
  case True
  have all: "(\<exists>n\<in>{1, 2, 3, 5, 6}. bit (shm_faults shm) n) = (shm_faults shm AND F_BLOCK_ALL \<noteq> 0)"
    "(\<exists>n\<in>{0, 1, 2, 3, 5, 6}. bit (shm_faults shm) n) = (shm_faults shm AND F_BLOCK_TELEOP \<noteq> 0)"
    by (auto simp: fault_simps)
  show ?thesis
    unfolding all using assms True by (auto simp: serve_command_def Let_def split: if_splits)
next
  case False
  then show ?thesis
    using assms by (auto simp: serve_command_def Let_def bit_or_iff fault_simps split: if_splits)
qed

theorem serve_command_spec_witness: "fst (serve_command (ex_shm 0 4) (ex_cmd 1 1)) = SO101_RES_REFUSED"
  using serve_command_spec [of "ex_shm 0 4" "ex_cmd 1 1" "fst (serve_command (ex_shm 0 4) (ex_cmd 1 1))"
      "snd (serve_command (ex_shm 0 4) (ex_cmd 1 1))"]
  by (simp add: ex_shm_def ex_cmd_def fault_simps)

section \<open>Detection\<close>

lemma sup_pass_no_snap:
  "in_snap (snd p) = None \<Longrightarrow> last_cycle (fst (sup_pass c p st)) = last_cycle (fst st) \<and>
    last_advance (fst (sup_pass c p st)) = last_advance (fst st)"
  by (auto simp: sup_pass_def sup_next_eq split: prod.splits dest: sup_mailbox_vars)

lemma stalled_pass:
  assumes "\<forall>s. in_snap (snd p) = Some s \<longrightarrow> s_cycle s = last_cycle (fst st)"
  shows "last_cycle (fst (sup_pass c p st)) = last_cycle (fst st) \<and>
    last_advance (fst (sup_pass c p st)) = last_advance (fst st)"
proof (cases "in_snap (snd p)")
  case None
  then show ?thesis by (rule sup_pass_no_snap)
next
  case (Some s)
  obtain v1 s1 m where ck: "sup_checks c (snd p) s v1 s1 = (fst (sup_pass c p st), snd (sup_pass c p st), m)"
    and v1: "last_cycle v1 = last_cycle (fst st)" "last_advance v1 = last_advance (fst st)"
    by (rule sup_pass_snap [OF Some])
  then show ?thesis using sup_checks_vars [OF ck] Some assms by simp
qed

lemma stalled_vars:
  assumes "list_all (\<lambda>p. \<forall>s. in_snap (snd p) = Some s \<longrightarrow> s_cycle s = last_cycle (fst st)) passes"
  shows "last_cycle (fst (fold (sup_pass c) passes st)) = last_cycle (fst st) \<and>
    last_advance (fst (fold (sup_pass c) passes st)) = last_advance (fst st)"
  using assms
proof (induction passes arbitrary: st)
  case Nil
  then show ?case by simp
next
  case (Cons p passes)
  then have "last_cycle (fst (sup_pass c p st)) = last_cycle (fst st) \<and>
      last_advance (fst (sup_pass c p st)) = last_advance (fst st)"
    by (intro stalled_pass) simp
  with Cons show ?case by simp
qed

text \<open>C25. A control loop that stops publishing is stopped: if over a sequence of passes every snapshot shows
  the same cycle (or none could be taken) and a pass more than 200 ms after the last advance still
  sees it, then that pass requests the emergency stop and latches the stall fault, whatever
  commands, a RESET included, are served in between.\<close>

theorem stall_detected:
  assumes "list_all (\<lambda>p. \<forall>s. in_snap (snd p) = Some s \<longrightarrow> s_cycle s = last_cycle v) passes"
    and "in_snap (snd p) = Some s" and "s_cycle s = last_cycle v" and "in_now (snd p) - last_advance v > STALL_MS"
    and "fold (sup_pass c) (passes @ [p]) (v, shm) = (v', shm')"
  shows "shm_mode_req shm' = SO101_MODE_ESTOP \<and> bit (shm_faults shm') 5"
proof -
  define st where "st = fold (sup_pass c) passes (v, shm)"
  have v: "last_cycle (fst st) = last_cycle v" "last_advance (fst st) = last_advance v"
    using stalled_vars [of "(v, shm)" passes c] assms(1) by (simp_all add: st_def)
  have p: "sup_pass c p st = (v', shm')" using assms(5) by (simp add: st_def)
  obtain v1 s1 m where ck: "sup_checks c (snd p) s v1 s1 = (fst (sup_pass c p st), snd (sup_pass c p st), m)"
    and v1: "last_cycle v1 = last_cycle (fst st)" "last_advance v1 = last_advance (fst st)"
    by (rule sup_pass_snap [OF assms(2)])
  show ?thesis using sup_checks_stall [OF ck] v v1 assms(3,4) p by simp
qed

theorem stall_detected_witness:
  "shm_mode_req (snd (fold (sup_pass ctx_default) ([(ex_cmd 0 0, ex_in False 120)] @ [(ex_cmd 3 0, ex_in True 301)])
     ((sup_init 0 0 0)\<lparr>last_cycle := 5, last_advance := 100\<rparr>, ex_shm 1 0))) = SO101_MODE_ESTOP"
proof -
  let ?v = "(sup_init 0 0 0)\<lparr>last_cycle := 5, last_advance := 100\<rparr>"
  obtain v' shm' where r: "fold (sup_pass ctx_default) ([(ex_cmd 0 0, ex_in False 120)] @ [(ex_cmd 3 0, ex_in True 301)])
      (?v, ex_shm 1 0) = (v', shm')"
    by (cases "fold (sup_pass ctx_default) ([(ex_cmd 0 0, ex_in False 120)] @ [(ex_cmd 3 0, ex_in True 301)]) (?v, ex_shm 1 0)")
  show ?thesis
    using stall_detected [OF _ _ _ _ r, of ex_sample] unfolding r
    by (simp add: ex_in_def ex_sample_def sample_zero_def)
qed

text \<open>\<open>hot_pass c p\<close>: the pass sees a readable follower with a servo at or above the temperature limit.\<close>

definition hot_pass :: "so101d_ctx \<Rightarrow> so101_cmd \<times> sup_in \<Rightarrow> bool" where
  "hot_pass c p = (case in_snap (snd p) of None \<Rightarrow> False | Some s \<Rightarrow> s_follower_ok s \<and> sample_hot c s)"

lemma hot_passE:
  assumes "hot_pass c p"
  obtains s where "in_snap (snd p) = Some s" "s_follower_ok s" "sample_hot c s"
  using assms by (auto simp: hot_pass_def split: option.splits)

lemma hot_ticks:
  "list_all (hot_pass c) passes \<Longrightarrow>
    temp_ticks (fst (fold (sup_pass c) passes st)) = temp_ticks (fst st) + int (length passes)"
proof (induction passes arbitrary: st)
  case Nil
  then show ?case by simp
next
  case (Cons p passes)
  then obtain s where s: "in_snap (snd p) = Some s" "s_follower_ok s" "sample_hot c s"
    by (auto elim: hot_passE)
  obtain v1 s1 m where ck: "sup_checks c (snd p) s v1 s1 = (fst (sup_pass c p st), snd (sup_pass c p st), m)"
    and v1: "temp_ticks v1 = temp_ticks (fst st)"
    by (rule sup_pass_snap [OF s(1)])
  have "temp_ticks (fst (sup_pass c p st)) = temp_ticks (fst st) + 1"
    using sup_checks_vars [OF ck] s v1 by simp
  with Cons show ?case by simp
qed

text \<open>C26. An overheating servo cuts the torque request: five passes in a row (100 ms) whose snapshots show a
  readable follower with a servo at or above the limit end with the over-temperature fault latched
  and IDLE (or the emergency stop) requested, whatever commands are served in between.\<close>

theorem overtemp_detected:
  assumes "list_all (hot_pass c) (passes @ [p])" and "length passes \<ge> 4" and "temp_ticks v \<ge> 0"
    and "fold (sup_pass c) (passes @ [p]) (v, shm) = (v', shm')"
  shows "shm_mode_req shm' \<in> {SO101_MODE_IDLE, SO101_MODE_ESTOP} \<and> bit (shm_faults shm') 2"
proof -
  define st where "st = fold (sup_pass c) passes (v, shm)"
  have t: "temp_ticks (fst st) \<ge> 4"
    using hot_ticks [of c passes "(v, shm)"] assms(1-3) by (simp add: st_def)
  obtain s where s: "in_snap (snd p) = Some s" "s_follower_ok s" "sample_hot c s"
    using assms(1) by (auto elim: hot_passE)
  obtain v1 s1 m where ck: "sup_checks c (snd p) s v1 s1 = (fst (sup_pass c p st), snd (sup_pass c p st), m)"
    and v1: "temp_ticks v1 = temp_ticks (fst st)"
    by (rule sup_pass_snap [OF s(1)])
  show ?thesis using sup_checks_hot [OF ck s(2,3)] t v1 assms(4) by (simp add: st_def)
qed

lemma ex_hot: "hot_pass ctx_default (w, ex_in g t)"
  by (auto simp: hot_pass_def ex_in_def ex_sample_def sample_hot_def ctx_default_def sample_zero_def
      intro!: bexI [of _ 2])

theorem overtemp_detected_witness:
  "bit (shm_faults (snd (fold (sup_pass ctx_default) (replicate 4 (ex_cmd 0 0, ex_in False 20) @ [(ex_cmd 3 0, ex_in True 30)])
     (sup_init 0 0 0, ex_shm 1 0)))) 2"
proof -
  obtain v' shm' where r: "fold (sup_pass ctx_default) (replicate 4 (ex_cmd 0 0, ex_in False 20) @ [(ex_cmd 3 0, ex_in True 30)])
      (sup_init 0 0 0, ex_shm 1 0) = (v', shm')"
    by (cases "fold (sup_pass ctx_default) (replicate 4 (ex_cmd 0 0, ex_in False 20) @ [(ex_cmd 3 0, ex_in True 30)]) (sup_init 0 0 0, ex_shm 1 0)")
  show ?thesis
    using overtemp_detected [OF _ _ _ r] unfolding r
    by (simp add: ex_hot list_all_iff sup_init_def)
qed

end
