(* ===== verification/Supervisor_Spec.thy ===== *)
theory Supervisor_Spec
  imports Supervisor
begin

text \<open>
  What the supervisor promises, as a machine of its own: four modes, a set of latched faults, the requests of
  clients and the faults that trip. The loop of \<^verbatim>\<open>daemon/src/supervisor.c\<close>, with its counters, snapshots, words
  and bits, refines it: each pass answers the request it found, if any, and then trips finitely
  many faults; nothing else happens to the mode and the faults.
\<close>

section \<open>The machine\<close>

datatype smode = Idle | Teleop | Hold | Estop

datatype sfault = LeaderComm | FollowerComm | Overtemp | Voltage | Overrun | Stall | EstopFault | TorqueRefused

text \<open>Which faults a mode tolerates, and what a fault does to the mode.\<close>

fun allowed :: "smode \<Rightarrow> sfault set \<Rightarrow> bool" where
  "allowed Teleop F = (F \<subseteq> {Overrun, TorqueRefused})"
| "allowed Hold F = (F \<subseteq> {Overrun, TorqueRefused, LeaderComm})"
| "allowed _ F = True"

fun trip :: "sfault \<Rightarrow> smode \<Rightarrow> smode" where
  "trip Stall m = Estop"
| "trip LeaderComm m = (if m = Teleop then Hold else m)"
| "trip Overrun m = m"
| "trip f m = (if m = Estop then Estop else Idle)"

datatype request = Set smode | EmergencyStop | Reset

text \<open>What a request does. A mode that the faults forbid is refused, and so is IDLE under the emergency stop.\<close>

fun client :: "request option \<Rightarrow> smode \<times> sfault set \<Rightarrow> smode \<times> sfault set" where
  "client None a = a"
| "client (Some (Set m)) (m0, F) =
     (if m = Estop \<or> m = Idle \<and> m0 = Estop \<or> \<not> allowed m F then (m0, F) else (m, F))"
| "client (Some EmergencyStop) (m0, F) = (Estop, insert EstopFault F)"
| "client (Some Reset) (m0, F) = (Idle, {})"

inductive spec_trip :: "smode \<times> sfault set \<Rightarrow> smode \<times> sfault set \<Rightarrow> bool" where
  trip: "f \<notin> {EstopFault, TorqueRefused} \<Longrightarrow> spec_trip (m, F) (trip f m, insert f F)"

inductive_cases spec_tripE: "spec_trip a b"

text \<open>A run over a list of requests, one for each pass.\<close>

fun spec_run :: "request option list \<Rightarrow> smode \<times> sfault set \<Rightarrow> smode \<times> sfault set \<Rightarrow> bool" where
  "spec_run [] a b = (a = b)"
| "spec_run (x # xs) a b = (\<exists>c. spec_trip\<^sup>*\<^sup>* (client x a) c \<and> spec_run xs c b)"

text \<open>Its own safety, without words and bits.\<close>

definition spec_safe :: "smode \<times> sfault set \<Rightarrow> bool" where
  "spec_safe a \<longleftrightarrow> allowed (fst a) (snd a) \<and> (fst a = Estop \<longrightarrow> snd a \<inter> {Stall, EstopFault} \<noteq> {})"

lemma client_safe: "spec_safe a \<Longrightarrow> spec_safe (client x a)"
  by (induction x a rule: client.induct) (auto simp: spec_safe_def)

lemma trips_safe: "spec_trip\<^sup>*\<^sup>* a b \<Longrightarrow> spec_safe a \<Longrightarrow> spec_safe b"
proof (induction rule: rtranclp_induct)
  case (step b c)
  from step(2) obtain f m F where "b = (m, F)" "c = (trip f m, insert f F)" by (rule spec_tripE)
  then show ?case using step by (cases f; cases m) (auto simp: spec_safe_def)
qed simp

lemma spec_run_safe: "spec_run xs a b \<Longrightarrow> spec_safe a \<Longrightarrow> spec_safe b"
proof (induction xs arbitrary: a)
  case (Cons x xs)
  then obtain c where "spec_trip\<^sup>*\<^sup>* (client x a) c" "spec_run xs c b" by (auto simp del: split_paired_Ex)
  then show ?case using Cons.IH Cons.prems(2) client_safe trips_safe by blast
qed simp

section \<open>The abstraction\<close>

fun fault_bit :: "sfault \<Rightarrow> nat" where
  "fault_bit LeaderComm = 0" | "fault_bit FollowerComm = 1" | "fault_bit Overtemp = 2" | "fault_bit Voltage = 3"
| "fault_bit Overrun = 4" | "fault_bit Stall = 5" | "fault_bit EstopFault = 6" | "fault_bit TorqueRefused = 7"

definition faults_of :: "u32 \<Rightarrow> sfault set" where
  "faults_of w = {f. bit w (fault_bit f)}"

definition mode_of :: "u32 \<Rightarrow> smode" where
  "mode_of m = (if m = SO101_MODE_IDLE then Idle else if m = SO101_MODE_TELEOP then Teleop
     else if m = SO101_MODE_HOLD then Hold else Estop)"

definition abs_shm :: "so101_shm \<Rightarrow> smode \<times> sfault set" where
  "abs_shm m = (mode_of (shm_mode_req m), faults_of (shm_faults m))"

definition mode_ok :: "so101_shm \<Rightarrow> bool" where
  "mode_ok m \<longleftrightarrow> shm_mode_req m \<in> {SO101_MODE_IDLE, SO101_MODE_TELEOP, SO101_MODE_HOLD, SO101_MODE_ESTOP}"

lemma sup_safe_mode: "sup_safe m \<Longrightarrow> mode_ok m"
  by (simp add: sup_safe_def mode_ok_def)

lemma mode_of_simps [simp]: "mode_of 0 = Idle" "mode_of 1 = Teleop" "mode_of 2 = Hold" "mode_of 3 = Estop"
  by (simp_all add: mode_of_def)

lemma faults_of_zero [simp]: "faults_of 0 = {}"
  by (simp add: faults_of_def)

lemma faults_of_or:
  "faults_of (w OR 1) = insert LeaderComm (faults_of w)" "faults_of (w OR 2) = insert FollowerComm (faults_of w)"
  "faults_of (w OR 4) = insert Overtemp (faults_of w)" "faults_of (w OR 8) = insert Voltage (faults_of w)"
  "faults_of (w OR 16) = insert Overrun (faults_of w)" "faults_of (w OR 32) = insert Stall (faults_of w)"
  "faults_of (w OR 64) = insert EstopFault (faults_of w)"
  unfolding faults_of_def set_eq_iff mem_Collect_eq insert_iff bit_or_iff bit_fault
  by (intro allI; rename_tac f; case_tac f; simp)+

lemma allowed_bits:
  "(w AND F_BLOCK_TELEOP = 0) = allowed Teleop (faults_of w)" "(w AND F_BLOCK_ALL = 0) = allowed Hold (faults_of w)"
proof -
  have s: "(X \<subseteq> Y) = (\<forall>f. f \<in> X \<longrightarrow> f \<in> Y)" for X Y :: "sfault set" by blast
  have all: "(\<forall>f. P f) = (P LeaderComm \<and> P FollowerComm \<and> P Overtemp \<and> P Voltage \<and> P Overrun \<and> P Stall \<and> P EstopFault \<and> P TorqueRefused)"
    for P :: "sfault \<Rightarrow> bool" by (metis sfault.exhaust)
  show "(w AND F_BLOCK_TELEOP = 0) = allowed Teleop (faults_of w)" "(w AND F_BLOCK_ALL = 0) = allowed Hold (faults_of w)"
    unfolding allowed.simps s all by (auto simp: faults_of_def fault_simps)
qed

section \<open>The refinement\<close>

text \<open>The request a command stands for; a ping and a command the supervisor does not know are none.\<close>

definition request_of :: "so101_cmd \<Rightarrow> request option" where
  "request_of w =
     (if cmd_cmd w = SO101_CMD_SET_MODE then
        (if cmd_arg w \<in> {0, 1, 2} then Some (Set (mode_of (word_of_int (cmd_arg w)))) else None)
      else if cmd_cmd w = SO101_CMD_ESTOP then Some EmergencyStop
      else if cmd_cmd w = SO101_CMD_RESET then Some Reset
      else None)"

abbreviation (input) simulates :: "so101_shm \<Rightarrow> so101_shm \<Rightarrow> bool" where
  "simulates a b \<equiv> spec_trip\<^sup>*\<^sup>* (abs_shm a) (abs_shm b)"

lemma raise_fault_spec:
  assumes "raise_fault shm b force safe why = (shm', msgs)" and "mode_ok shm"
    and "(b, force, safe, f) \<in> {(SO101_F_STALL, True, SO101_MODE_ESTOP, Stall), (SO101_F_LEADER_COMM, True, SO101_MODE_HOLD, LeaderComm),
      (SO101_F_FOLLOWER_COMM, True, SO101_MODE_IDLE, FollowerComm), (SO101_F_OVERTEMP, True, SO101_MODE_IDLE, Overtemp),
      (SO101_F_VOLTAGE, True, SO101_MODE_IDLE, Voltage), (SO101_F_OVERRUN, False, 0, Overrun)}"
  shows "spec_trip (abs_shm shm) (abs_shm shm') \<and> mode_ok shm'"
proof -
  note r = raise_fault_fields [OF assms(1)]
  have "abs_shm shm' = (trip f (mode_of (shm_mode_req shm)), insert f (faults_of (shm_faults shm)))" "mode_ok shm'"
    "f \<notin> {EstopFault, TorqueRefused}"
    using assms(2,3) r(1,6) by (auto simp: abs_shm_def mode_ok_def faults_of_or split: if_splits)
  then show ?thesis using spec_trip.trip unfolding abs_shm_def by simp
qed

definition spec_pass :: "so101_shm \<Rightarrow> so101_shm \<Rightarrow> bool" where
  "spec_pass a b \<longleftrightarrow> (mode_ok a \<longrightarrow> simulates a b \<and> mode_ok b)"

lemma spec_pass_refl [simp]: "spec_pass a a"
  by (simp add: spec_pass_def)

lemma spec_pass_trans [trans]: "spec_pass a b \<Longrightarrow> spec_pass b c \<Longrightarrow> spec_pass a c"
  by (auto simp: spec_pass_def)

lemma spec_pass_same: "shm_mode_req b = shm_mode_req a \<Longrightarrow> shm_faults b = shm_faults a \<Longrightarrow> spec_pass a b"
  by (simp add: spec_pass_def abs_shm_def mode_ok_def)

lemma raise_passes:
  "raise_fault shm SO101_F_STALL True SO101_MODE_ESTOP why = (shm', msgs) \<Longrightarrow> spec_pass shm shm'"
  "raise_fault shm SO101_F_LEADER_COMM True SO101_MODE_HOLD why = (shm', msgs) \<Longrightarrow> spec_pass shm shm'"
  "raise_fault shm SO101_F_FOLLOWER_COMM True SO101_MODE_IDLE why = (shm', msgs) \<Longrightarrow> spec_pass shm shm'"
  "raise_fault shm SO101_F_OVERTEMP True SO101_MODE_IDLE why = (shm', msgs) \<Longrightarrow> spec_pass shm shm'"
  "raise_fault shm SO101_F_VOLTAGE True SO101_MODE_IDLE why = (shm', msgs) \<Longrightarrow> spec_pass shm shm'"
  "raise_fault shm SO101_F_OVERRUN False 0 why = (shm', msgs) \<Longrightarrow> spec_pass shm shm'"
  unfolding spec_pass_def using raise_fault_spec by (blast intro: r_into_rtranclp)+

lemma chk_passes:
  "chk_stall i s v m = (v', m', l) \<Longrightarrow> spec_pass m m'"
  "chk_overrun i s v m = (v', m', l) \<Longrightarrow> spec_pass m m'"
  by (auto simp: chk_stall_def chk_overrun_def Let_def split: if_splits prod.splits dest: raise_passes)

lemma two_raises:
  assumes "(if p then raise_fault m b1 f1 s1 w1 else (m, [])) = (m1, l1)" and "(if q then raise_fault m1 b2 f2 s2 w2 else (m1, [])) = (m2, l2)"
    and "\<And>x y l. raise_fault x b1 f1 s1 w1 = (y, l) \<Longrightarrow> spec_pass x y" and "\<And>x y l. raise_fault x b2 f2 s2 w2 = (y, l) \<Longrightarrow> spec_pass x y"
  shows "spec_pass m m2"
  using assms spec_pass_trans by (metis fst_conv spec_pass_refl)

lemma chk_comm_pass: "chk_comm c s v m = (v', m', l) \<Longrightarrow> spec_pass m m'"
  by (auto simp only: chk_comm_def Let_def prod.inject split: prod.splits intro: two_raises raise_passes)

lemma chk_servos_pass: "chk_servos c s v m = (v', m', l) \<Longrightarrow> spec_pass m m'"
proof (cases "s_follower_ok s")
  case True
  assume "chk_servos c s v m = (v', m', l)"
  then show ?thesis using True
    by (auto simp only: chk_servos_def Let_def prod.inject if_True split: prod.splits intro: two_raises raise_passes)
qed (simp add: chk_servos_def)

lemma sup_checks_pass:
  assumes "sup_checks c i s v m = (v', m', l)"
  shows "spec_pass m m'"
  using assms
proof (cases rule: sup_checks_cases)
  case (1 v1 s1 m1 v2 s2 m2 v3 s3 m3 v4 s4 m4)
  note chk_passes(1) [OF 1(1)]
  also note chk_comm_pass [OF 1(2)]
  also note chk_servos_pass [OF 1(3)]
  also note chk_passes(2) [OF 1(4)]
  also have "spec_pass s4 m'" unfolding 1(5) by (rule spec_pass_same) simp_all
  finally show ?thesis .
qed

lemma serve_command_client:
  assumes "serve_command m w = (r, m')" and "mode_ok m"
  shows "abs_shm m' = client (request_of w) (abs_shm m) \<and> mode_ok m'"
proof -
  have q: "shm_mode_req m = 0 \<or> shm_mode_req m = 1 \<or> shm_mode_req m = 2 \<or> shm_mode_req m = 3"
    using assms(2) by (simp add: mode_ok_def)
  consider (set) "cmd_cmd w = 1" | (estop) "cmd_cmd w = 2" | (reset) "cmd_cmd w = 3" | (other) "cmd_cmd w \<notin> {1, 2, 3}" by blast
  then show ?thesis
  proof cases
    case set
    consider "cmd_arg w = 0" | "cmd_arg w = 1" | "cmd_arg w = 2" | "cmd_arg w \<notin> {0, 1, 2}" by blast
    then show ?thesis
      using assms(1) set q by cases
        (elim disjE; auto simp: serve_command_def request_of_def abs_shm_def mode_ok_def allowed_bits split: if_splits)+
  next
    case estop
    then show ?thesis using assms by (auto simp: serve_command_def request_of_def abs_shm_def mode_ok_def faults_of_or)
  next
    case reset
    then show ?thesis using assms by (auto simp: serve_command_def request_of_def abs_shm_def mode_ok_def)
  next
    case other
    then show ?thesis using assms by (auto simp: serve_command_def request_of_def split: if_splits)
  qed
qed

text \<open>One pass: the request the pass found, then trips.\<close>

definition request_in :: "so101_cmd \<times> sup_in \<Rightarrow> request option" where
  "request_in wi = (if in_got (snd wi) then request_of (fst wi) else None)"

lemma sup_mailbox_client:
  assumes "sup_mailbox i v (m\<lparr>shm_cmd := w\<rparr>) = (v', m', post, l)" and "mode_ok m"
  shows "abs_shm m' = client (request_in (w, i)) (abs_shm m) \<and> mode_ok m'"
proof -
  obtain r s where s: "serve_command (m\<lparr>shm_cmd := w\<rparr>) w = (r, s)" by fastforce
  have "shm_mode_req m' = shm_mode_req (if in_got i then s else m) \<and> shm_faults m' = shm_faults (if in_got i then s else m)"
    using assms(1) s by (auto simp: sup_mailbox_def Let_def split: if_splits)
  moreover have "abs_shm s = client (request_of w) (abs_shm m) \<and> mode_ok s"
    using serve_command_client [OF s] assms(2) by (simp add: abs_shm_def mode_ok_def)
  ultimately show ?thesis using assms(2) by (auto simp: request_in_def abs_shm_def mode_ok_def split: if_splits)
qed

lemma sup_pass_refines:
  assumes "mode_ok (snd st)"
  shows "spec_trip\<^sup>*\<^sup>* (client (request_in wi) (abs_shm (snd st))) (abs_shm (snd (sup_pass c wi st))) \<and> mode_ok (snd (sup_pass c wi st))"
proof -
  obtain w i v m where wi: "wi = (w, i)" and st: "st = (v, m)" by (cases wi; cases st)
  obtain v1 s1 p1 m1 where mb: "sup_mailbox i v (m\<lparr>shm_cmd := w\<rparr>) = (v1, s1, p1, m1)"
    by (cases "sup_mailbox i v (m\<lparr>shm_cmd := w\<rparr>)")
  have s1: "abs_shm s1 = client (request_in wi) (abs_shm m)" "mode_ok s1"
    using sup_mailbox_client [OF mb] assms by (simp_all add: wi st)
  show ?thesis
  proof (cases "in_snap i")
    case None
    then show ?thesis using s1 by (simp add: sup_pass_def st wi sup_next_eq mb)
  next
    case (Some s)
    obtain v2 s2 m2 where ck: "sup_checks c i s v1 s1 = (v2, s2, m2)" by (cases "sup_checks c i s v1 s1")
    then show ?thesis
      using sup_checks_pass [OF ck] s1 Some by (simp add: sup_pass_def st wi sup_next_eq mb spec_pass_def)
  qed
qed

text \<open>
  The refinement of a whole run, for any step function whose steps are simulated: the concrete loop folds its
  steps over the inputs, the abstract one relates the ends of its run over the requests.
\<close>

locale pass_refinement =
  fixes step :: "'i \<Rightarrow> 's \<Rightarrow> 's" and inv :: "'s \<Rightarrow> bool" and abs :: "'s \<Rightarrow> smode \<times> sfault set" and req :: "'i \<Rightarrow> request option"
  assumes refines: "inv s \<Longrightarrow> spec_trip\<^sup>*\<^sup>* (client (req i) (abs s)) (abs (step i s))"
    and keeps: "inv s \<Longrightarrow> inv (step i s)"
begin

lemma run_refines: "inv s \<Longrightarrow> spec_run (map req is) (abs s) (abs (fold step is s))"
proof (induction "is" arbitrary: s)
  case (Cons i "is")
  then show ?case using refines [OF Cons.prems, of i] Cons.IH [OF keeps [OF Cons.prems]] by (auto simp del: split_paired_Ex)
qed simp

end

interpretation sup_spec: pass_refinement "sup_pass c" "\<lambda>st. mode_ok (snd st)" "\<lambda>st. abs_shm (snd st)" request_in
  for c
  by unfold_locales (use sup_pass_refines in blast)+

section \<open>Property\<close>

text \<open>C7. The supervisor implements its specification. Every run of its loop, with any commands, snapshots and times, is a run
  of the abstract machine over the requests that the passes find: each request has exactly the effect the machine
  gives it, after it only faults trip, each lowering the mode as specified, and nothing else happens to
  the mode and the faults.\<close>

theorem supervisor_refines:
  assumes "mode_ok (snd st)"
  shows "spec_run (map request_in wis) (abs_shm (snd st)) (abs_shm (snd (fold (sup_pass c) wis st)))"
  using sup_spec.run_refines [OF assms] .

definition spec_mem :: so101_shm where
  "spec_mem = \<lparr>shm_magic = SO101_SHM_MAGIC, shm_version = 2, shm_size = 360, shm_daemon_pid = 1, shm_period_ns = 10000000, shm_n_joints = 6,
     shm_joint_names = [], shm_seq = 0, shm_s = sample_zero, shm_mode_req = SO101_MODE_HOLD, shm_faults = 0, shm_sup_beat = 0,
     shm_cmd = \<lparr>cmd_id = 0, cmd_cmd = 0, cmd_arg = 0, cmd_client_pid = 0\<rparr>, shm_ack = \<lparr>ack_id = 0, ack_result = 0\<rparr>\<rparr>"

definition spec_pass_in :: "so101_cmd \<times> sup_in" where
  "spec_pass_in = (\<lparr>cmd_id = 5, cmd_cmd = SO101_CMD_ESTOP, cmd_arg = 0, cmd_client_pid = 9\<rparr>,
     \<lparr>in_got = True, in_now = 20, in_lock = 0, in_snap = None\<rparr>)"

theorem supervisor_refines_witness:
  "spec_run [Some EmergencyStop] (Hold, {}) (abs_shm (snd (fold (sup_pass ctx_default) [spec_pass_in] (sup_init 0 0 0, spec_mem)))) \<and>
   fst (abs_shm (snd (fold (sup_pass ctx_default) [spec_pass_in] (sup_init 0 0 0, spec_mem)))) = Estop"
proof -
  have "abs_shm spec_mem = (Hold, {})" "mode_ok spec_mem" by (simp_all add: abs_shm_def mode_ok_def spec_mem_def)
  moreover have "shm_mode_req (snd (fold (sup_pass ctx_default) [spec_pass_in] (sup_init 0 0 0, spec_mem))) = SO101_MODE_ESTOP"
    by code_simp
  moreover have "request_in spec_pass_in = Some EmergencyStop" by (simp add: request_in_def request_of_def spec_pass_in_def)
  ultimately show ?thesis
    using supervisor_refines [of "(sup_init 0 0 0, spec_mem)" "[spec_pass_in]" ctx_default]
    by (simp add: abs_shm_def del: spec_run.simps)
qed

end
