(* ===== verification/Grid.thy ===== *)
theory Grid
  imports Main
begin

text \<open>
  The time grid of the periodic loops (\<^verbatim>\<open>daemon/src/control.c\<close> and \<^verbatim>\<open>driver/tools/jitter_test.c\<close>): the
  inner loop that skips the slots that have passed and counts them. The counter is of any numeric
  type: a wrapping 32-bit one in the daemon, a \<open>long\<close> in the test tool. The loop ends exactly when
  the period is positive or no slot has passed; not ending is \<open>None\<close>.
\<close>

partial_function (option) grid_loop :: "int \<Rightarrow> int \<Rightarrow> int \<Rightarrow> 'c::comm_semiring_1 \<Rightarrow> (int \<times> 'c) option" where
  "grid_loop period now nxt missed =
     (if nxt < now then grid_loop period now (nxt + period) (missed + 1) else Some (nxt, missed))"

lemma grid_loop_steps:
  assumes "0 < period"
  shows "\<exists>k. grid_loop period now nxt missed = Some (nxt + int k * period, missed + of_nat k) \<and>
    now \<le> nxt + int k * period \<and> (k > 0 \<longrightarrow> nxt + int k * period < now + period)"
proof (induction "nat (now - nxt)" arbitrary: nxt missed rule: less_induct)
  case less
  show ?case
  proof (cases "nxt < now")
    case False
    then show ?thesis by (subst grid_loop.simps) (auto intro: exI [of _ 0])
  next
    case True
    then have "nat (now - (nxt + period)) < nat (now - nxt)" using assms by simp
    from less [OF this, of "missed + 1"] obtain k where
      k: "grid_loop period now (nxt + period) (missed + 1) = Some (nxt + period + int k * period, missed + 1 + of_nat k)"
        "now \<le> nxt + period + int k * period" "k > 0 \<longrightarrow> nxt + period + int k * period < now + period" by blast
    have "grid_loop period now nxt missed = Some (nxt + period + int k * period, missed + 1 + of_nat k)"
      using True k(1) by (subst grid_loop.simps) simp
    then show ?thesis
      using k True by (intro exI [of _ "Suc k"]) (auto simp: algebra_simps)
  qed
qed

lemma grid_loop_progress: "grid_loop period now nxt missed = Some r \<Longrightarrow> nxt < now \<longrightarrow> period \<noteq> 0"
  by (erule grid_loop.raw_induct [where P = "\<lambda>period now nxt missed r. nxt < now \<longrightarrow> period \<noteq> 0", rotated])
    (auto split: if_splits, blast)

lemma grid_loop_zero: "nxt < now \<Longrightarrow> grid_loop 0 now nxt missed = None"
  using grid_loop_progress [of 0 now nxt missed] by (cases "grid_loop 0 now nxt missed") auto

lemma k_ceiling:
  assumes "0 < (period :: int)" "now \<le> nxt + int k * period" "k > 0 \<longrightarrow> nxt + int k * period < now + period"
    "nxt < now \<or> k = 0"
  shows "k = nat (- ((nxt - now) div period))"
proof (cases "k = 0")
  case True
  then have "0 \<le> (nxt - now) div period" using assms by (simp add: pos_imp_zdiv_nonneg_iff)
  then show ?thesis using True by simp
next
  case False
  then have "0 \<le> nxt - now + int k * period" "nxt - now + int k * period < period" using assms by simp_all
  then have "(nxt - now + int k * period) div period = 0" by (simp add: div_pos_pos_trivial)
  then have "(nxt - now) div period = - int k" using assms(1) by simp
  then show ?thesis by simp
qed
text \<open>C31. Skipping slots one by one is one division: with a positive period the loop ends with the first slot that is not in the
  past, having advanced by the ceiling of the delay over the period, and the counter by the same number.\<close>

theorem grid_loop_closed:
  assumes "0 < period"
  shows "grid_loop period now nxt missed =
    (let k = nat (- ((nxt - now) div period)) in Some (nxt + int k * period, missed + of_nat k))"
proof -
  obtain k where k: "grid_loop period now nxt missed = Some (nxt + int k * period, missed + of_nat k)"
    "now \<le> nxt + int k * period" "k > 0 \<longrightarrow> nxt + int k * period < now + period"
    using grid_loop_steps [OF assms] by blast
  have "nxt < now \<or> k = 0" using k(1) assms by (auto simp: grid_loop.simps [of period now nxt] split: if_splits)
  then have "k = nat (- ((nxt - now) div period))" using k_ceiling [OF assms k(2,3)] by blast
  then show ?thesis using k(1) by (simp add: Let_def)
qed

theorem grid_loop_closed_witness: "grid_loop 10 95 70 (0 :: int) = Some (100, 3)"
  using grid_loop_closed [of 10 95 70 "0 :: int"] by simp

end
