(* ===== verification/Control.thy ===== *)
theory Control
  imports Ctx Grid
begin

text \<open>
  The control thread, \<^verbatim>\<open>daemon/src/control.c\<close>: the only thread that touches the two serial buses.
  A pass of its loop is cut into the phases its comments number: wake-up, leader, follower, mode,
  goal, publish, next slot. The local variables are the record \<open>ctl\<close>; the two ports (the driver's
  bus structure with its device) and the shared memory are the record \<open>world\<close>; the readings of the
  monotonic clock during a pass are its input. The supervisor's stores to \<open>mode_req\<close> come between
  passes: the code reads that word once per pass.

  The loop that catches up with the time grid need not end, so a pass is an option: \<open>None\<close> is a
  pass that never returns.
\<close>

section \<open>State\<close>

abbreviation (input) REOPEN_AFTER :: nat where "REOPEN_AFTER \<equiv> 50"

record ctl =
  smp :: so101_sample
  goal :: "int list"
  hold :: "int list"
  applied :: u32
  torque :: bool
  ramp_mask :: u32
  next_ns :: int
  retry_l :: u64
  retry_f :: u64
  bl :: "u8 list"
  bf :: "u8 list"

record world =
  leader :: fts_bus
  leader_tty :: tty
  follower :: fts_bus
  follower_tty :: tty
  shm :: so101_shm

record ctl_in =
  ci_wake :: int
  ci_t0 :: int
  ci_t1 :: int
  ci_t2 :: int
  ci_end :: int
  ci_now :: int

section \<open>Helpers\<close>

definition ctl_period :: "so101d_ctx \<Rightarrow> int" where
  "ctl_period c = f_trunc (rnd64 (1000000000 / freq c))"

definition le16 :: "u8 list \<Rightarrow> nat \<Rightarrow> u16" where
  "le16 p k = ucast (p ! k) OR push_bit 8 (ucast (p ! (k + 1)))"

definition reopen_bus :: "fts_bus \<Rightarrow> string \<Rightarrow> tty \<Rightarrow> fts_bus \<times> tty" where
  "reopen_bus bus path w =
     (let timeout = timeout_ms bus; ech = echo bus;
          (bus, w) = fts_close bus w;
          (rc, bus, w) = fts_open path 1000000 w
      in (bus\<lparr>timeout_ms := timeout, echo := ech\<rparr>, w))"

definition set_torque :: "fts_bus \<Rightarrow> u8 list \<Rightarrow> bool \<Rightarrow> tty \<Rightarrow> fts_rc \<times> fts_bus \<times> tty" where
  "set_torque bus ids on w =
     (let v = map (\<lambda>j. if on then 1 else 0) [0..<SO101_NJ]
      in fts_sync_write bus ids STS_TORQUE_ENABLE 1 (Some v) w)"

definition goal_bytes :: "int list \<Rightarrow> u8 list" where
  "goal_bytes g = concat (map (\<lambda>j. let e = fts_encode_sm (g ! j) 15
     in [ucast (e AND 0xFF), ucast (drop_bit 8 e)]) [0..<SO101_NJ])"

definition write_goal :: "fts_bus \<Rightarrow> u8 list \<Rightarrow> int list \<Rightarrow> tty \<Rightarrow> fts_rc \<times> fts_bus \<times> tty" where
  "write_goal bus ids g w = fts_sync_write bus ids STS_GOAL_POSITION 2 (Some (goal_bytes g)) w"

definition ids_l :: "so101d_ctx \<Rightarrow> u8 list" where
  "ids_l c = map joint_id (cal_leader c)"

definition ids_f :: "so101d_ctx \<Rightarrow> u8 list" where
  "ids_f c = map joint_id (cal_follower c)"

section \<open>The phases of a pass\<close>

definition ctl_init :: "int \<Rightarrow> ctl" where
  "ctl_init next0 = \<lparr>smp = sample_zero, goal = replicate SO101_NJ 0, hold = replicate SO101_NJ 0,
     applied = SO101_MODE_IDLE, torque = False, ramp_mask = 0, next_ns = next0, retry_l = 0, retry_f = 0,
     bl = replicate 12 0, bf = replicate 48 0\<rparr>"

text \<open>Before the loop: no servo holds torque.\<close>

definition ctl_start :: "so101d_ctx \<Rightarrow> int \<Rightarrow> world \<Rightarrow> ctl \<times> world" where
  "ctl_start c now wd =
     (let (_, b, w) = set_torque (follower wd) (ids_f c) False (follower_tty wd);
          wd = wd\<lparr>follower := b, follower_tty := w\<rparr>;
          (_, b, w) = set_torque (leader wd) (ids_l c) False (leader_tty wd);
          wd = wd\<lparr>leader := b, leader_tty := w\<rparr>
      in (ctl_init (now + ctl_period c), wd))"

definition ctl_wake :: "ctl_in \<Rightarrow> ctl \<Rightarrow> ctl" where
  "ctl_wake i st = st\<lparr>smp := (smp st)\<lparr>s_cycle := s_cycle (smp st) + 1, s_t_mono_ns := ci_wake i,
     s_wake_lat_ns := to_i32 (ci_wake i - next_ns st)\<rparr>\<rparr>"

definition streak_next :: "bool \<Rightarrow> u16 \<Rightarrow> u16" where
  "streak_next ok k = (if ok then 0 else k + (if k < 0xFFFF then 1 else 0))"

definition leader_decode :: "so101d_ctx \<Rightarrow> u8 list \<Rightarrow> so101_sample \<Rightarrow> so101_sample" where
  "leader_decode c buf s =
     (let pos = map (\<lambda>j. to_i16 (fts_decode_sm (le16 buf (2 * j)) 15)) [0..<SO101_NJ]
      in s\<lparr>s_leader_pos := pos,
           s_leader_norm := map (\<lambda>j. calib_normalize (cal_leader c ! j) (pos ! j)) [0..<SO101_NJ]\<rparr>)"

definition ctl_leader :: "so101d_ctx \<Rightarrow> ctl \<Rightarrow> world \<Rightarrow> ctl \<times> world" where
  "ctl_leader c st wd =
     (let (rc, out, b, w) = fts_sync_read (leader wd) (ids_l c) STS_PRESENT_POSITION 2 (Some (bl st)) (leader_tty wd);
          buf = (case out of Some x \<Rightarrow> x | None \<Rightarrow> bl st);
          ok = (rc = FTS_OK);
          s = (smp st)\<lparr>s_leader_ok := ok\<rparr>;
          s = (if ok then leader_decode c buf s else s\<lparr>s_leader_errs := s_leader_errs s + 1\<rparr>);
          s = s\<lparr>s_leader_streak := streak_next ok (s_leader_streak s)\<rparr>;
          st = st\<lparr>smp := s, bl := buf\<rparr>
      in if unat (s_leader_streak s) \<ge> REOPEN_AFTER \<and> s_cycle s \<ge> retry_l st
         then let (b, w) = reopen_bus b (leader_port c) w;
                  (_, b, w) = set_torque b (ids_l c) False w
              in (st\<lparr>retry_l := s_cycle s + of_nat REOPEN_AFTER\<rparr>, wd\<lparr>leader := b, leader_tty := w\<rparr>)
         else (st, wd\<lparr>leader := b, leader_tty := w\<rparr>))"

definition follower_decode :: "so101d_ctx \<Rightarrow> u8 list \<Rightarrow> so101_sample \<Rightarrow> so101_sample" where
  "follower_decode c buf s =
     (let pos = map (\<lambda>j. to_i16 (fts_decode_sm (le16 buf (8 * j)) 15)) [0..<SO101_NJ]
      in s\<lparr>s_follower_pos := pos,
           s_follower_vel := map (\<lambda>j. to_i16 (fts_decode_sm (le16 buf (8 * j + 2)) 15)) [0..<SO101_NJ],
           s_follower_load := map (\<lambda>j. to_i16 (fts_decode_sm (le16 buf (8 * j + 4)) 10)) [0..<SO101_NJ],
           s_follower_volt := map (\<lambda>j. buf ! (8 * j + 6)) [0..<SO101_NJ],
           s_follower_temp := map (\<lambda>j. buf ! (8 * j + 7)) [0..<SO101_NJ],
           s_follower_norm := map (\<lambda>j. calib_normalize (cal_follower c ! j) (pos ! j)) [0..<SO101_NJ]\<rparr>)"

definition ctl_follower :: "so101d_ctx \<Rightarrow> ctl \<Rightarrow> world \<Rightarrow> ctl \<times> world" where
  "ctl_follower c st wd =
     (let (rc, out, b, w) = fts_sync_read (follower wd) (ids_f c) STS_PRESENT_POSITION 8 (Some (bf st)) (follower_tty wd);
          buf = (case out of Some x \<Rightarrow> x | None \<Rightarrow> bf st);
          ok = (rc = FTS_OK);
          s = (smp st)\<lparr>s_follower_ok := ok\<rparr>;
          s = (if ok then follower_decode c buf s else s\<lparr>s_follower_errs := s_follower_errs s + 1\<rparr>);
          s = s\<lparr>s_follower_streak := streak_next ok (s_follower_streak s)\<rparr>;
          st = st\<lparr>smp := s, bf := buf\<rparr>
      in if unat (s_follower_streak s) \<ge> REOPEN_AFTER \<and> s_cycle s \<ge> retry_f st
         then let (b, w) = reopen_bus b (follower_port c) w;
                  (_, b, w) = set_torque b (ids_f c) False w
              in (st\<lparr>retry_f := s_cycle s + of_nat REOPEN_AFTER, torque := False\<rparr>,
                  wd\<lparr>follower := b, follower_tty := w\<rparr>)
         else (st, wd\<lparr>follower := b, follower_tty := w\<rparr>))"

text \<open>
  Switching the torque on: the goal becomes the present position and is written before the torque
  register; without a fresh reading of the follower it is refused and the old mode is kept. The
  result is the mode to apply.
\<close>

definition torque_enable :: "so101d_ctx \<Rightarrow> u32 \<Rightarrow> ctl \<Rightarrow> world \<Rightarrow> u32 \<times> ctl \<times> world" where
  "torque_enable c req st wd =
     (if \<not> s_follower_ok (smp st)
      then (applied st, st, wd\<lparr>shm := (shm wd)\<lparr>shm_faults := shm_faults (shm wd) OR SO101_F_TORQUE_REFUSED\<rparr>\<rparr>)
      else
        let g = map (\<lambda>j. s_follower_pos (smp st) ! j) [0..<SO101_NJ];
            (_, b, w) = write_goal (follower wd) (ids_f c) g (follower_tty wd);
            (_, b, w) = set_torque b (ids_f c) True w
        in (req, st\<lparr>goal := g, torque := True\<rparr>,
            wd\<lparr>follower := b, follower_tty := w,
               shm := (shm wd)\<lparr>shm_faults := shm_faults (shm wd) AND NOT SO101_F_TORQUE_REFUSED\<rparr>\<rparr>))"

definition ctl_mode :: "so101d_ctx \<Rightarrow> ctl \<Rightarrow> world \<Rightarrow> ctl \<times> world" where
  "ctl_mode c st wd =
     (let req = shm_mode_req (shm wd);
          req = (if req > SO101_MODE_ESTOP then SO101_MODE_IDLE else req)
      in if req = applied st then (st, wd)
         else
           let (req, st, wd) =
             (if req = SO101_MODE_TELEOP \<or> req = SO101_MODE_HOLD then
                let (req, st, wd) = (if \<not> torque st then torque_enable c req st wd else (req, st, wd))
                in if req = SO101_MODE_HOLD \<and> torque st
                   then (req, st\<lparr>hold := map (\<lambda>j. if s_follower_ok (smp st) then s_follower_pos (smp st) ! j else goal st ! j)
                                   [0..<SO101_NJ]\<rparr>, wd)
                   else (req, st, wd)
              else if torque st then
                let (_, b, w) = set_torque (follower wd) (ids_f c) False (follower_tty wd)
                in (req, st\<lparr>torque := False\<rparr>, wd\<lparr>follower := b, follower_tty := w\<rparr>)
              else (req, st, wd));
               st = (if req \<noteq> applied st \<and> torque st then st\<lparr>ramp_mask := push_bit SO101_NJ 1 - 1\<rparr> else st)
           in (st\<lparr>applied := req\<rparr>, wd))"

text \<open>One joint of the goal loop: the step towards the target, limited, and the end of the soft start.\<close>

definition joint_target :: "so101d_ctx \<Rightarrow> ctl \<Rightarrow> nat \<Rightarrow> int" where
  "joint_target c st j =
     (if applied st = SO101_MODE_TELEOP \<and> s_leader_ok (smp st)
      then calib_unnormalize (cal_follower c ! j) (s_leader_norm (smp st) ! j)
      else if applied st = SO101_MODE_HOLD then hold st ! j
      else goal st ! j)"

definition joint_step :: "so101d_ctx \<Rightarrow> int \<Rightarrow> int \<Rightarrow> bool \<Rightarrow> int \<times> bool" where
  "joint_step c target g ramping =
     (let d = target - g;
          ramping = (if ramping \<and> \<bar>d\<bar> \<le> ramp_done c then False else ramping);
          stp = (if ramping then ramp_step c else max_step c);
          d = (if d > stp then stp else d);
          d = (if d < - stp then - stp else d)
      in (to_i16 (g + d), ramping))"

fun goal_loop :: "so101d_ctx \<Rightarrow> ctl \<Rightarrow> nat list \<Rightarrow> int list \<Rightarrow> u32 \<Rightarrow> int list \<times> u32" where
  "goal_loop c st [] g msk = (g, msk)"
| "goal_loop c st (j # js) g msk =
     (let b = push_bit j 1;
          (gj, ramping) = joint_step c (joint_target c (st\<lparr>goal := g\<rparr>) j) (g ! j) (msk AND b \<noteq> 0);
          msk = (if msk AND b \<noteq> 0 \<and> \<not> ramping then msk AND NOT b else msk)
      in goal_loop c st js (g[j := gj]) msk)"

definition ctl_goal :: "so101d_ctx \<Rightarrow> ctl \<Rightarrow> world \<Rightarrow> ctl \<times> world" where
  "ctl_goal c st wd =
     (if torque st then
        let (g, mask) = goal_loop c st [0..<SO101_NJ] (goal st) (ramp_mask st);
            (_, b, w) = write_goal (follower wd) (ids_f c) g (follower_tty wd)
        in (st\<lparr>goal := g, ramp_mask := mask\<rparr>, wd\<lparr>follower := b, follower_tty := w\<rparr>)
      else if s_follower_ok (smp st)
           then (st\<lparr>goal := map (\<lambda>j. s_follower_pos (smp st) ! j) [0..<SO101_NJ]\<rparr>, wd)
      else (st, wd))"

text \<open>The snapshot of the pass, with the running maxima, and its publication.\<close>

definition with_max :: "so101_sample \<Rightarrow> so101_sample" where
  "with_max s =
     (let s = (if s_wake_lat_ns s > s_max_wake_lat_ns s then s\<lparr>s_max_wake_lat_ns := s_wake_lat_ns s\<rparr> else s)
      in if s_exec_ns s > s_max_exec_ns s then s\<lparr>s_max_exec_ns := s_exec_ns s\<rparr> else s)"

definition ctl_publish :: "ctl_in \<Rightarrow> ctl \<Rightarrow> world \<Rightarrow> ctl \<times> world" where
  "ctl_publish i st wd =
     (let msk = (if \<not> torque st then 0 else ramp_mask st);
          s = (smp st)\<lparr>s_follower_goal := map (\<lambda>j. goal st ! j) [0..<SO101_NJ],
                       s_mode := ucast (applied st), s_torque_on := torque st,
                       s_ramping := ucast msk, s_faults := shm_faults (shm wd),
                       s_bus_leader_ns := to_i32 (ci_t1 i - ci_t0 i),
                       s_bus_follower_ns := to_i32 (ci_t2 i - ci_t1 i),
                       s_exec_ns := to_i32 (ci_end i - ci_wake i)\<rparr>;
          s = with_max s
      in (st\<lparr>smp := s, ramp_mask := msk\<rparr>, wd\<lparr>shm := so101_shm_publish (shm wd) s\<rparr>))"

definition ctl_grid :: "int \<Rightarrow> ctl_in \<Rightarrow> ctl \<Rightarrow> ctl option" where
  "ctl_grid period i st =
     (let st = st\<lparr>next_ns := next_ns st + period\<rparr> in
      if ci_now i > next_ns st then
        let s = (smp st)\<lparr>s_overruns := s_overruns (smp st) + 1\<rparr>
        in case grid_loop period (ci_now i) (next_ns st) (s_missed_slots s) of
             None \<Rightarrow> None
           | Some (nxt, missed) \<Rightarrow> Some (st\<lparr>next_ns := nxt, smp := s\<lparr>s_missed_slots := missed\<rparr>\<rparr>)
      else Some st)"

definition ctl_work :: "so101d_ctx \<Rightarrow> ctl_in \<Rightarrow> ctl \<Rightarrow> world \<Rightarrow> ctl \<times> world" where
  "ctl_work c i st wd =
     (let st = ctl_wake i st;
          (st, wd) = ctl_leader c st wd;
          (st, wd) = ctl_follower c st wd;
          (st, wd) = ctl_mode c st wd;
          (st, wd) = ctl_goal c st wd
      in ctl_publish i st wd)"

definition ctl_cycle :: "so101d_ctx \<Rightarrow> ctl_in \<Rightarrow> ctl \<Rightarrow> world \<Rightarrow> (ctl \<times> world) option" where
  "ctl_cycle c i st wd =
     (let (st, wd) = ctl_work c i st wd
      in map_option (\<lambda>st. (st, wd)) (ctl_grid (ctl_period c) i st))"

text \<open>The passes until the run flag is cleared, then the shutdown: the follower is left limp.\<close>

fun ctl_run :: "so101d_ctx \<Rightarrow> ctl_in list \<Rightarrow> ctl \<Rightarrow> world \<Rightarrow> (ctl \<times> world) option" where
  "ctl_run c [] st wd = Some (st, wd)"
| "ctl_run c (i # is) st wd = Option.bind (ctl_cycle c i st wd) (\<lambda>(st, wd). ctl_run c is st wd)"

definition ctl_stop :: "so101d_ctx \<Rightarrow> world \<Rightarrow> world" where
  "ctl_stop c wd =
     (let (_, b, w) = set_torque (follower wd) (ids_f c) False (follower_tty wd) in wd\<lparr>follower := b, follower_tty := w\<rparr>)"

definition control_thread :: "so101d_ctx \<Rightarrow> int \<Rightarrow> ctl_in list \<Rightarrow> world \<Rightarrow> (ctl \<times> world) option" where
  "control_thread c now is wd =
     (let (st, wd) = ctl_start c now wd
      in map_option (\<lambda>(st, wd). (st, ctl_stop c wd)) (ctl_run c is st wd))"

end
