(* ===== verification/Control_Lemmas.thy ===== *)
theory Control_Lemmas
  imports Control Feetech_Bus_Stream
begin

text \<open>
  Lemmas on the control thread: the interface to the bus it relies on, as a locale interpreted on
  the driver's functions; what each phase keeps; the invariant of a pass.
\<close>

section \<open>The port as the control thread uses it\<close>

text \<open>
  A port takes commands: one that is accepted stands on the wire in full, one that fails leaves a
  prefix, and nothing else is ever sent. Then accepted commands stand on the wire in the order in
  which they were given.
\<close>

locale command_port =
  fixes send :: "'f \<Rightarrow> 'p \<Rightarrow> bool \<times> 'p" and encode :: "'f \<Rightarrow> 'b list" and wire :: "'p \<Rightarrow> 'b list"
  assumes send_ok: "send f p = (True, p') \<Longrightarrow> wire p' = wire p @ encode f"
    and send_fail: "send f p = (False, p') \<Longrightarrow> \<exists>n. wire p' = wire p @ take n (encode f)"
begin

lemma send_prefix: "send f p = (ok, p') \<Longrightarrow> \<exists>n. wire p' = wire p @ take n (encode f) \<and> (ok \<longrightarrow> n = length (encode f))"
  using send_ok send_fail by (cases ok) auto

lemma send_pair:
  assumes "send f p = (a, p1)" and "send g p1 = (b, p2)"
  shows "\<exists>n m. wire p2 = wire p @ take n (encode f) @ take m (encode g) \<and>
    (a \<longrightarrow> n = length (encode f)) \<and> (b \<longrightarrow> m = length (encode g))"
proof -
  obtain n m where "wire p1 = wire p @ take n (encode f)" "a \<longrightarrow> n = length (encode f)"
    "wire p2 = wire p1 @ take m (encode g)" "b \<longrightarrow> m = length (encode g)"
    using send_prefix [OF assms(1)] send_prefix [OF assms(2)] by blast
  then show ?thesis by (intro exI [of _ n] exI [of _ m]) simp
qed

end

datatype servo_cmd = Torque bool | Goal "int list"

definition servo_send :: "u8 list \<Rightarrow> servo_cmd \<Rightarrow> fts_bus \<times> tty \<Rightarrow> bool \<times> fts_bus \<times> tty" where
  "servo_send ids cmd p =
     (let (rc, b, w) = (case cmd of Torque on \<Rightarrow> set_torque (fst p) ids on (snd p) | Goal g \<Rightarrow> write_goal (fst p) ids g (snd p))
      in (rc = FTS_OK, b, w))"

definition servo_frame :: "u8 list \<Rightarrow> servo_cmd \<Rightarrow> u8 list" where
  "servo_frame ids cmd = fts_build_packet FTS_BROADCAST_ID FTS_INST_SYNC_WRITE
     (case cmd of
        Torque on \<Rightarrow> sync_write_params ids STS_TORQUE_ENABLE 1 (replicate SO101_NJ (if on then 1 else 0))
      | Goal g \<Rightarrow> sync_write_params ids STS_GOAL_POSITION 2 (goal_bytes g))"

lemma sync_write_prefix:
  assumes "fts_sync_write bus ids addr len (Some d) w = (rc, bus', w')"
  shows "\<exists>n. tty_wire w' = tty_wire w @ take n (fts_build_packet FTS_BROADCAST_ID FTS_INST_SYNC_WRITE (sync_write_params ids addr len d)) \<and>
    (rc = FTS_OK \<longrightarrow> n = length (fts_build_packet FTS_BROADCAST_ID FTS_INST_SYNC_WRITE (sync_write_params ids addr len d)))"
  using assms
  by (auto simp: fts_sync_write_def Let_def split: if_splits dest: tx_packet_wire intro: exI [of _ 0])

lemma torque_vector: "map (\<lambda>j. if on then 1 else 0) [0..<SO101_NJ] = replicate SO101_NJ (if on then 1 else 0)"
  by (rule nth_equalityI) simp_all

lemma servo_send_prefix:
  assumes "servo_send ids cmd p = (ok, p')"
  shows "\<exists>n. tty_wire (snd p') = tty_wire (snd p) @ take n (servo_frame ids cmd) \<and> (ok \<longrightarrow> n = length (servo_frame ids cmd))"
proof -
  obtain b' w' where p': "p' = (b', w')" by (cases p')
  show ?thesis
  proof (cases cmd)
    case (Torque on)
    obtain rc where "set_torque (fst p) ids on (snd p) = (rc, b', w')" "ok = (rc = FTS_OK)"
      using assms Torque p' by (auto simp: servo_send_def split: prod.splits)
    then show ?thesis
      using sync_write_prefix [of "fst p" ids STS_TORQUE_ENABLE 1 "replicate SO101_NJ (if on then 1 else 0)" "snd p" rc b' w']
      by (simp add: Torque servo_frame_def p' set_torque_def torque_vector)
  next
    case (Goal g)
    obtain rc where "write_goal (fst p) ids g (snd p) = (rc, b', w')" "ok = (rc = FTS_OK)"
      using assms Goal p' by (auto simp: servo_send_def split: prod.splits)
    then show ?thesis
      using sync_write_prefix [of "fst p" ids STS_GOAL_POSITION 2 "goal_bytes g" "snd p" rc b' w']
      by (simp add: Goal servo_frame_def p' write_goal_def)
  qed
qed

interpretation arm: command_port "servo_send ids" "servo_frame ids" "\<lambda>p. tty_wire (snd p)"
  for ids
  by unfold_locales (use servo_send_prefix in fastforce)+

section \<open>The goal loop\<close>

text \<open>What one joint does: it never passes its target and never moves faster than its limit.\<close>

definition i16 :: "int \<Rightarrow> bool" where
  "i16 x \<longleftrightarrow> - 32768 \<le> x \<and> x \<le> 32767"

lemma joint_step_bounds:
  assumes "joint_step c target g ramping = (g', ramping')" and "i16 g" and "i16 target"
    and "0 \<le> ramp_step c" and "0 \<le> max_step c"
  shows "\<bar>g' - g\<bar> \<le> (if ramping' then ramp_step c else max_step c) \<and>
    (g \<le> target \<longrightarrow> g \<le> g' \<and> g' \<le> target) \<and> (target \<le> g \<longrightarrow> target \<le> g' \<and> g' \<le> g) \<and>
    \<bar>target - g'\<bar> = max 0 (\<bar>target - g\<bar> - (if ramping' then ramp_step c else max_step c)) \<and> i16 g'"
proof -
  define stp where "stp = (if ramping' then ramp_step c else max_step c)"
  define d where "d = (if target - g > stp then stp else if target - g < - stp then - stp else target - g)"
  have stp: "0 \<le> stp" using assms(4,5) by (simp add: stp_def)
  have r: "ramping' = (ramping \<and> \<not> \<bar>target - g\<bar> \<le> ramp_done c)"
    using assms(1) by (auto simp: joint_step_def Let_def split: if_splits)
  have g': "g' = to_i16 (g + d)"
    using assms(1) stp by (auto simp: joint_step_def Let_def r d_def stp_def)
  have "min g target \<le> g + d" "g + d \<le> max g target" using stp by (auto simp: d_def)
  then have "i16 (g + d)" using assms(2,3) by (auto simp: i16_def)
  then have "g' = g + d" by (simp add: g' to_i16_id i16_def)
  then show ?thesis
    using stp \<open>i16 (g + d)\<close> unfolding stp_def [symmetric] by (auto simp: d_def)
qed

lemma goal_loop_length: "goal_loop c st js g m = (g', m') \<Longrightarrow> length g' = length g"
  by (induction js arbitrary: g m) (auto simp: Let_def split: prod.splits)

lemma goal_loop_other:
  "goal_loop c st js g m = (g', m') \<Longrightarrow> j \<notin> set js \<Longrightarrow> g' ! j = g ! j"
  by (induction js arbitrary: g m) (auto simp: Let_def split: prod.splits)

lemma joint_target_goal:
  "g ! j = goal st ! j \<Longrightarrow> joint_target c (st\<lparr>goal := g\<rparr>) j = joint_target c st j"
  by (simp add: joint_target_def)

lemma bit_and_not_pow: "j < 32 \<Longrightarrow> bit (m AND NOT (2 ^ j) :: u32) k = (bit m k \<and> k \<noteq> j)"
  by (auto simp: bit_simps dest: bit_imp_le_length)

lemma goal_loop_mask_other:
  "goal_loop c st js g m = (g', m') \<Longrightarrow> j \<notin> set js \<Longrightarrow> set js \<subseteq> {..<32} \<Longrightarrow> bit m' j = bit m j"
  by (induction js arbitrary: g m) (auto simp: Let_def bit_and_not_pow split: prod.splits if_splits)

lemma goal_loop_joint:
  assumes "goal_loop c st js g m = (g', m')" and "distinct js" and "j \<in> set js" and "set js \<subseteq> {..<32}"
    and "\<forall>k\<in>set js. g ! k = goal st ! k" and "length g > j"
  shows "(g' ! j, bit m' j) = joint_step c (joint_target c st j) (goal st ! j) (bit m j)"
  using assms
proof (induction js arbitrary: g m)
  case Nil
  then show ?case by simp
next
  case (Cons k js)
  obtain gk rk where s: "joint_step c (joint_target c (st\<lparr>goal := g\<rparr>) k) (g ! k) (m AND 2 ^ k \<noteq> 0) = (gk, rk)"
    by (cases "joint_step c (joint_target c (st\<lparr>goal := g\<rparr>) k) (g ! k) (m AND 2 ^ k \<noteq> 0)")
  define m1 where "m1 = (if m AND 2 ^ k \<noteq> 0 \<and> \<not> rk then m AND NOT (2 ^ k) else m)"
  have rest: "goal_loop c st js (g[k := gk]) m1 = (g', m')"
    using Cons.prems(1) s by (simp add: Let_def m1_def)
  have k: "k < 32" using Cons.prems(4) by simp
  have rk: "rk \<longrightarrow> bit m k" using s by (auto simp: joint_step_def Let_def and_single_bit split: if_splits)
  have m1: "bit m1 i = (if i = k then rk else bit m i)" for i
    using k rk by (auto simp: m1_def bit_and_not_pow and_single_bit)
  show ?case
  proof (cases "j = k")
    case True
    then have "g' ! j = gk" "bit m' j = rk"
      using goal_loop_other [OF rest] goal_loop_mask_other [OF rest] Cons.prems m1 by auto
    then show ?thesis
      using s True Cons.prems(5) by (simp add: joint_target_goal and_single_bit)
  next
    case False
    have "g[k := gk] ! i = goal st ! i" if "i \<in> set js" for i
      using that Cons.prems(2,5) by (cases "i = k") auto
    then show ?thesis
      using False Cons.IH [OF rest] Cons.prems m1 by auto
  qed
qed

lemma ctl_goal_joint:
  assumes "ctl_goal c st wd = (st', wd')" and "torque st" and "length (goal st) = SO101_NJ" and "j < SO101_NJ"
  shows "joint_step c (joint_target c st j) (goal st ! j) (bit (ramp_mask st) j) = (goal st' ! j, bit (ramp_mask st') j)"
proof -
  obtain g m where l: "goal_loop c st [0..<SO101_NJ] (goal st) (ramp_mask st) = (g, m)"
    by (cases "goal_loop c st [0..<SO101_NJ] (goal st) (ramp_mask st)")
  have st': "goal st' = g" "ramp_mask st' = m"
    using assms(1,2) l by (auto simp: ctl_goal_def split: prod.splits)
  have "set [0..<SO101_NJ] \<subseteq> {..<32}" by auto
  then show ?thesis
    using goal_loop_joint [OF l, of j] assms(3,4) unfolding st' by simp
qed

section \<open>What the phases keep\<close>

lemma ctl_leader_keeps:
  assumes "ctl_leader c st wd = (st', wd')"
  shows "goal st' = goal st" "hold st' = hold st" "applied st' = applied st" "torque st' = torque st"
    "ramp_mask st' = ramp_mask st" "next_ns st' = next_ns st" "follower wd' = follower wd"
    "follower_tty wd' = follower_tty wd" "shm wd' = shm wd" "s_cycle (smp st') = s_cycle (smp st)"
  using assms by (auto simp: ctl_leader_def leader_decode_def Let_def split: prod.splits if_splits)

lemma ctl_follower_keeps:
  assumes "ctl_follower c st wd = (st', wd')"
  shows "goal st' = goal st" "hold st' = hold st" "applied st' = applied st" "torque st' \<longrightarrow> torque st"
    "ramp_mask st' = ramp_mask st" "next_ns st' = next_ns st" "leader wd' = leader wd"
    "leader_tty wd' = leader_tty wd" "shm wd' = shm wd" "s_leader_ok (smp st') = s_leader_ok (smp st)"
    "s_leader_norm (smp st') = s_leader_norm (smp st)" "s_cycle (smp st') = s_cycle (smp st)"
  using assms by (auto simp: ctl_follower_def follower_decode_def Let_def split: prod.splits if_splits)

lemma ctl_goal_keeps:
  assumes "ctl_goal c st wd = (st', wd')"
  shows "smp st' = smp st" "hold st' = hold st" "applied st' = applied st" "torque st' = torque st"
    "next_ns st' = next_ns st" "shm wd' = shm wd" "leader wd' = leader wd" "leader_tty wd' = leader_tty wd"
  using assms by (auto simp: ctl_goal_def Let_def split: prod.splits if_splits)

lemma with_max_fields [simp]:
  "s_follower_goal (with_max s) = s_follower_goal s" "s_mode (with_max s) = s_mode s"
  "s_torque_on (with_max s) = s_torque_on s" "s_ramping (with_max s) = s_ramping s"
  "s_faults (with_max s) = s_faults s" "s_follower_ok (with_max s) = s_follower_ok s"
  "s_follower_pos (with_max s) = s_follower_pos s" "s_cycle (with_max s) = s_cycle s"
  by (simp_all add: with_max_def Let_def)

lemma ctl_publish_keeps:
  assumes "ctl_publish i st wd = (st', wd')"
  shows "goal st' = goal st" "hold st' = hold st" "applied st' = applied st" "torque st' = torque st"
    "next_ns st' = next_ns st" "follower wd' = follower wd" "follower_tty wd' = follower_tty wd"
    "leader wd' = leader wd" "leader_tty wd' = leader_tty wd"
    "ramp_mask st' = (if torque st then ramp_mask st else 0)"
    "shm wd' = so101_shm_publish (shm wd) (smp st')"
    "s_torque_on (smp st') = torque st'" "s_mode (smp st') = ucast (applied st')"
    "s_follower_goal (smp st') = map (\<lambda>j. goal st' ! j) [0..<SO101_NJ]"
    "s_faults (smp st') = shm_faults (shm wd)" "s_follower_ok (smp st') = s_follower_ok (smp st)"
    "s_follower_pos (smp st') = s_follower_pos (smp st)" "s_cycle (smp st') = s_cycle (smp st)"
    "s_ramping (smp st') = ucast (ramp_mask st')"
  using assms by (auto simp: ctl_publish_def Let_def)

lemma ctl_grid_keeps:
  assumes "ctl_grid p i st = Some st'"
  shows "goal st' = goal st" "hold st' = hold st" "applied st' = applied st" "torque st' = torque st"
    "ramp_mask st' = ramp_mask st" "s_torque_on (smp st') = s_torque_on (smp st)"
    "s_cycle (smp st') = s_cycle (smp st)" "s_follower_ok (smp st') = s_follower_ok (smp st)"
  using assms by (auto simp: ctl_grid_def Let_def split: if_splits option.splits)

lemma ctl_wake_keeps [simp]:
  "goal (ctl_wake i st) = goal st" "hold (ctl_wake i st) = hold st" "applied (ctl_wake i st) = applied st"
  "torque (ctl_wake i st) = torque st" "ramp_mask (ctl_wake i st) = ramp_mask st" "next_ns (ctl_wake i st) = next_ns st"
  "s_cycle (smp (ctl_wake i st)) = s_cycle (smp st) + 1"
  by (simp_all add: ctl_wake_def)

section \<open>Mode transitions\<close>

text \<open>The requested mode as the control thread understands it.\<close>

definition mode_wanted :: "world \<Rightarrow> u32" where
  "mode_wanted wd = (if shm_mode_req (shm wd) > SO101_MODE_ESTOP then SO101_MODE_IDLE else shm_mode_req (shm wd))"

definition torque_ok :: "ctl \<Rightarrow> bool" where
  "torque_ok st \<longleftrightarrow> (torque st \<longrightarrow> applied st = SO101_MODE_TELEOP \<or> applied st = SO101_MODE_HOLD)"

lemma torque_enable_cases:
  assumes "torque_enable c req st wd = (req', st', wd')"
  obtains "\<not> s_follower_ok (smp st)" "req' = applied st" "st' = st"
      "wd' = wd\<lparr>shm := (shm wd)\<lparr>shm_faults := shm_faults (shm wd) OR SO101_F_TORQUE_REFUSED\<rparr>\<rparr>"
  | b1 w1 b2 w2 ok1 ok2 where "s_follower_ok (smp st)" "req' = req"
      "st' = st\<lparr>goal := map (\<lambda>j. s_follower_pos (smp st) ! j) [0..<SO101_NJ], torque := True\<rparr>"
      "servo_send (ids_f c) (Goal (map (\<lambda>j. s_follower_pos (smp st) ! j) [0..<SO101_NJ])) (follower wd, follower_tty wd) = (ok1, b1, w1)"
      "servo_send (ids_f c) (Torque True) (b1, w1) = (ok2, b2, w2)"
      "wd' = wd\<lparr>follower := b2, follower_tty := w2,
         shm := (shm wd)\<lparr>shm_faults := shm_faults (shm wd) AND NOT SO101_F_TORQUE_REFUSED\<rparr>\<rparr>"
proof (cases "s_follower_ok (smp st)")
  case False
  then show ?thesis using assms by (intro that(1)) (auto simp: torque_enable_def)
next
  case True
  let ?g = "map (\<lambda>j. s_follower_pos (smp st) ! j) [0..<SO101_NJ]"
  obtain r1 b1 w1 where 1: "write_goal (follower wd) (ids_f c) ?g (follower_tty wd) = (r1, b1, w1)"
    by (cases "write_goal (follower wd) (ids_f c) ?g (follower_tty wd)")
  obtain r2 b2 w2 where 2: "set_torque b1 (ids_f c) True w1 = (r2, b2, w2)"
    by (cases "set_torque b1 (ids_f c) True w1")
  have s: "servo_send (ids_f c) (Goal ?g) (follower wd, follower_tty wd) = (r1 = FTS_OK, b1, w1)"
    "servo_send (ids_f c) (Torque True) (b1, w1) = (r2 = FTS_OK, b2, w2)"
    using 1 2 by (simp_all add: servo_send_def)
  show ?thesis
    using assms True 1 2 by (intro that(2) [OF True _ _ s]) (simp_all add: torque_enable_def Let_def)
qed

abbreviation (input) present :: "ctl \<Rightarrow> int list" where
  "present st \<equiv> map (\<lambda>j. s_follower_pos (smp st) ! j) [0..<SO101_NJ]"

lemma word_le_3: "(m :: u32) \<le> 3 \<Longrightarrow> m \<in> {0, 1, 2, 3}"
proof -
  assume "m \<le> 3"
  then have "unat m \<le> 3" by (simp add: word_le_nat_alt)
  then consider "unat m = 0" | "unat m = 1" | "unat m = 2" | "unat m = 3" by linarith
  then show ?thesis by cases (simp_all add: word_unat_eq_iff)
qed

lemma mode_wanted_range: "mode_wanted wd \<in> {SO101_MODE_IDLE, SO101_MODE_TELEOP, SO101_MODE_HOLD, SO101_MODE_ESTOP}"
  by (rule word_le_3) (simp add: mode_wanted_def not_less)

lemma ctl_mode_cases [consumes 1, case_names Same Refused Enabled Moved Off Idle]:
  assumes "ctl_mode c st wd = (st', wd')"
  obtains "mode_wanted wd = applied st" "st' = st" "wd' = wd"
  | "mode_wanted wd \<in> {SO101_MODE_TELEOP, SO101_MODE_HOLD}" "mode_wanted wd \<noteq> applied st" "\<not> torque st"
      "\<not> s_follower_ok (smp st)" "st' = st"
      "wd' = wd\<lparr>shm := (shm wd)\<lparr>shm_faults := shm_faults (shm wd) OR SO101_F_TORQUE_REFUSED\<rparr>\<rparr>"
  | b1 w1 b2 w2 ok1 ok2 where "mode_wanted wd \<in> {SO101_MODE_TELEOP, SO101_MODE_HOLD}" "mode_wanted wd \<noteq> applied st"
      "\<not> torque st" "s_follower_ok (smp st)"
      "st' = st\<lparr>goal := present st, torque := True, hold := (if mode_wanted wd = SO101_MODE_HOLD then present st else hold st),
         ramp_mask := 63, applied := mode_wanted wd\<rparr>"
      "servo_send (ids_f c) (Goal (present st)) (follower wd, follower_tty wd) = (ok1, b1, w1)"
      "servo_send (ids_f c) (Torque True) (b1, w1) = (ok2, b2, w2)"
      "wd' = wd\<lparr>follower := b2, follower_tty := w2,
         shm := (shm wd)\<lparr>shm_faults := shm_faults (shm wd) AND NOT SO101_F_TORQUE_REFUSED\<rparr>\<rparr>"
  | "mode_wanted wd \<in> {SO101_MODE_TELEOP, SO101_MODE_HOLD}" "mode_wanted wd \<noteq> applied st" "torque st"
      "st' = st\<lparr>hold := (if mode_wanted wd = SO101_MODE_HOLD then
           (if s_follower_ok (smp st) then present st else map (\<lambda>j. goal st ! j) [0..<SO101_NJ]) else hold st),
         ramp_mask := 63, applied := mode_wanted wd\<rparr>" "wd' = wd"
  | b w ok where "mode_wanted wd \<in> {SO101_MODE_IDLE, SO101_MODE_ESTOP}" "mode_wanted wd \<noteq> applied st" "torque st"
      "st' = st\<lparr>torque := False, applied := mode_wanted wd\<rparr>"
      "servo_send (ids_f c) (Torque False) (follower wd, follower_tty wd) = (ok, b, w)"
      "wd' = wd\<lparr>follower := b, follower_tty := w\<rparr>"
  | "mode_wanted wd \<in> {SO101_MODE_IDLE, SO101_MODE_ESTOP}" "mode_wanted wd \<noteq> applied st" "\<not> torque st"
      "st' = st\<lparr>applied := mode_wanted wd\<rparr>" "wd' = wd"
proof -
  define req where "req = mode_wanted wd"
  consider (same) "req = applied st"
    | (on) "req \<noteq> applied st" "req \<in> {SO101_MODE_TELEOP, SO101_MODE_HOLD}"
    | (off) "req \<noteq> applied st" "req \<in> {SO101_MODE_IDLE, SO101_MODE_ESTOP}"
    using mode_wanted_range [of wd] by (auto simp: req_def)
  then show ?thesis
  proof cases
    case same
    then show ?thesis
      using assms by (intro that(1)) (simp_all add: ctl_mode_def mode_wanted_def [symmetric] req_def)
  next
    case on
    show ?thesis
    proof (cases "torque st")
      case True
      then show ?thesis
        using assms on by (intro that(4)) (auto simp: ctl_mode_def mode_wanted_def [symmetric] req_def Let_def)
    next
      case False
      obtain req' st1 wd1 where e: "torque_enable c req st wd = (req', st1, wd1)"
        by (cases "torque_enable c req st wd")
      from e show ?thesis
      proof (cases rule: torque_enable_cases)
        case 1
        then show ?thesis
          using assms on False e
          by (intro that(2)) (auto simp: ctl_mode_def mode_wanted_def [symmetric] req_def Let_def)
      next
        case (2 b1 w1 b2 w2 ok1 ok2)
        then show ?thesis
          using assms on False e
          by (intro that(3) [OF _ _ False 2(1) _ 2(4,5)])
            (auto simp: ctl_mode_def mode_wanted_def [symmetric] req_def Let_def)
      qed
    qed
  next
    case off
    obtain rc b w where s: "set_torque (follower wd) (ids_f c) False (follower_tty wd) = (rc, b, w)"
      by (cases "set_torque (follower wd) (ids_f c) False (follower_tty wd)")
    have s': "servo_send (ids_f c) (Torque False) (follower wd, follower_tty wd) = (rc = FTS_OK, b, w)"
      using s by (simp add: servo_send_def)
    show ?thesis
    proof (cases "torque st")
      case True
      then show ?thesis
        using assms off s
        by (intro that(5) [OF _ _ True _ s']) (auto simp: ctl_mode_def mode_wanted_def [symmetric] req_def Let_def)
    next
      case False
      then show ?thesis
        using assms off by (intro that(6)) (auto simp: ctl_mode_def mode_wanted_def [symmetric] req_def Let_def)
    qed
  qed
qed

text \<open>The fault word as the control thread may change it: one bit.\<close>

definition refused_only :: "so101_shm \<Rightarrow> so101_shm \<Rightarrow> bool" where
  "refused_only a b \<longleftrightarrow> shm_mode_req b = shm_mode_req a \<and> (\<forall>n. n \<noteq> 7 \<longrightarrow> bit (shm_faults b) n = bit (shm_faults a) n) \<and>
     shm_cmd b = shm_cmd a \<and> shm_ack b = shm_ack a \<and> shm_sup_beat b = shm_sup_beat a"

lemma bit_torque_refused: "bit (0x80 :: u32) n = (n = 7)"
  using bit_exp_iff [where 'a = u32, of 7 n] by auto

lemma refused_only_refl: "refused_only a a"
  by (simp add: refused_only_def)

lemma refused_only_set: "refused_only a (a\<lparr>shm_faults := shm_faults a OR SO101_F_TORQUE_REFUSED\<rparr>)"
proof -
  have "bit (shm_faults a OR 0x80) n = bit (shm_faults a) n" if "n \<noteq> 7" for n
    unfolding bit_or_iff bit_torque_refused using that by simp
  then show ?thesis by (simp add: refused_only_def)
qed

lemma refused_only_clear: "refused_only a (a\<lparr>shm_faults := shm_faults a AND NOT SO101_F_TORQUE_REFUSED\<rparr>)"
proof -
  have "bit (shm_faults a AND NOT 0x80) n = bit (shm_faults a) n" if "n \<noteq> 7" for n
    unfolding bit_and_iff bit_not_iff bit_torque_refused using that
    by (auto dest: bit_imp_le_length)
  then show ?thesis by (simp add: refused_only_def)
qed

lemma ctl_mode_refused:
  assumes "ctl_mode c st wd = (st', wd')"
  shows "refused_only (shm wd) (shm wd')"
  using assms
proof (cases rule: ctl_mode_cases)
  case Refused
  then have e: "shm wd' = (shm wd)\<lparr>shm_faults := shm_faults (shm wd) OR SO101_F_TORQUE_REFUSED\<rparr>" by simp
  show ?thesis unfolding e by (rule refused_only_set)
next
  case Enabled
  then have e: "shm wd' = (shm wd)\<lparr>shm_faults := shm_faults (shm wd) AND NOT SO101_F_TORQUE_REFUSED\<rparr>" by simp
  show ?thesis unfolding e by (rule refused_only_clear)
qed (simp_all add: refused_only_refl)

lemma ctl_mode_step:
  assumes "ctl_mode c st wd = (st', wd')" and "torque_ok st"
  shows "torque st' \<longrightarrow> applied st' = mode_wanted wd"
    and "torque_ok st'"
    and "mode_wanted wd \<in> {SO101_MODE_IDLE, SO101_MODE_ESTOP} \<longrightarrow> \<not> torque st' \<and> applied st' = mode_wanted wd"
    and "torque st' \<and> \<not> torque st \<longrightarrow> s_follower_ok (smp st) \<and> goal st' = present st \<and> ramp_mask st' = 63"
    and "smp st' = smp st" and "next_ns st' = next_ns st"
  using assms(1)
  by (cases rule: ctl_mode_cases; use assms(2) in \<open>auto simp: torque_ok_def\<close>)+

section \<open>A whole pass\<close>

lemma ctl_work_cases:
  assumes "ctl_work c i st wd = (st', wd')"
  obtains st1 wd1 st2 wd2 st3 wd3 st4 wd4 where
    "ctl_leader c (ctl_wake i st) wd = (st1, wd1)" "ctl_follower c st1 wd1 = (st2, wd2)"
    "ctl_mode c st2 wd2 = (st3, wd3)" "ctl_goal c st3 wd3 = (st4, wd4)" "ctl_publish i st4 wd4 = (st', wd')"
  using assms that by (simp add: ctl_work_def split: prod.splits)

lemma refused_only_publish: "refused_only a b \<Longrightarrow> refused_only a (so101_shm_publish b s)"
  by (simp add: refused_only_def)

lemma ctl_work_step:
  assumes "ctl_work c i st wd = (st', wd')" and "torque_ok st"
  shows "torque_ok st'" and "torque st' \<longrightarrow> applied st' = mode_wanted wd"
    and "mode_wanted wd \<in> {SO101_MODE_IDLE, SO101_MODE_ESTOP} \<longrightarrow> \<not> torque st' \<and> applied st' = mode_wanted wd"
    and "torque st' \<and> \<not> torque st \<longrightarrow> s_follower_ok (smp st')"
    and "\<not> torque st' \<longrightarrow> ramp_mask st' = 0" and "s_torque_on (smp st') = torque st'"
    and "s_mode (smp st') = ucast (applied st')" and "s_cycle (smp st') = s_cycle (smp st) + 1"
    and "shm_s (shm wd') = smp st'" and "shm_seq (shm wd') = shm_seq (shm wd) + 2"
    and "refused_only (shm wd) (shm wd')"
proof -
  obtain st1 wd1 st2 wd2 st3 wd3 st4 wd4 where
    1: "ctl_leader c (ctl_wake i st) wd = (st1, wd1)" "ctl_follower c st1 wd1 = (st2, wd2)"
      "ctl_mode c st2 wd2 = (st3, wd3)" "ctl_goal c st3 wd3 = (st4, wd4)" "ctl_publish i st4 wd4 = (st', wd')"
    using assms(1) by (rule ctl_work_cases)
  note l = ctl_leader_keeps [OF 1(1)] and f = ctl_follower_keeps [OF 1(2)]
    and g = ctl_goal_keeps [OF 1(4)] and p = ctl_publish_keeps [OF 1(5)]
  have ok2: "torque_ok st2" using assms(2) l f by (auto simp: torque_ok_def)
  have w2: "mode_wanted wd2 = mode_wanted wd" using l f by (simp add: mode_wanted_def)
  note m = ctl_mode_step [OF 1(3) ok2, unfolded w2] and r = ctl_mode_refused [OF 1(3)]
  have t: "torque st' = torque st3" "applied st' = applied st3" "torque st2 \<longrightarrow> torque st"
    "s_follower_ok (smp st') = s_follower_ok (smp st2)"
    using l f g p m(5) by simp_all
  show "torque_ok st'" using m(2) by (simp add: torque_ok_def t)
  show "torque st' \<longrightarrow> applied st' = mode_wanted wd" unfolding t by (rule m(1))
  show "mode_wanted wd \<in> {SO101_MODE_IDLE, SO101_MODE_ESTOP} \<longrightarrow> \<not> torque st' \<and> applied st' = mode_wanted wd"
    unfolding t by (rule m(3))
  show "torque st' \<and> \<not> torque st \<longrightarrow> s_follower_ok (smp st')"
    using m(4) t(3) unfolding t(1,4) by blast
  show "\<not> torque st' \<longrightarrow> ramp_mask st' = 0" using p(10) p(4) by simp
  show "s_torque_on (smp st') = torque st'" "s_mode (smp st') = ucast (applied st')" by (rule p(12,13))+
  show "s_cycle (smp st') = s_cycle (smp st) + 1" using l f g p m(5) by simp
  have "shm_seq (shm wd3) = shm_seq (shm wd)"
    using 1(3) l f by (cases rule: ctl_mode_cases) simp_all
  then show "shm_s (shm wd') = smp st'" "shm_seq (shm wd') = shm_seq (shm wd) + 2"
    using p(11) g by simp_all
  show "refused_only (shm wd) (shm wd')"
    using r l f g p(11) by (simp add: refused_only_publish)
qed

text \<open>The loop of the control thread as a run: a pass that does not return is the state \<open>None\<close>.\<close>

definition ctl_next :: "so101d_ctx \<Rightarrow> ctl_in \<Rightarrow> (ctl \<times> world) option \<Rightarrow> (ctl \<times> world) option" where
  "ctl_next c i s = Option.bind s (\<lambda>(st, wd). ctl_cycle c i st wd)"

definition ctl_safe :: "(ctl \<times> world) option \<Rightarrow> bool" where
  "ctl_safe s = (case s of None \<Rightarrow> True | Some (st, wd) \<Rightarrow>
     torque_ok st \<and> (\<not> torque st \<longrightarrow> ramp_mask st = 0) \<and> even (shm_seq (shm wd)))"

lemma ctl_cycle_cases:
  assumes "ctl_cycle c i st wd = Some (st', wd')"
  obtains st1 where "ctl_work c i st wd = (st1, wd')" "ctl_grid (ctl_period c) i st1 = Some st'"
  using assms by (auto simp: ctl_cycle_def split: prod.splits)

lemma ctl_next_safe: "ctl_safe s \<Longrightarrow> ctl_safe (ctl_next c i s)"
proof -
  assume s: "ctl_safe s"
  show ?thesis
  proof (cases "ctl_next c i s")
    case None
    then show ?thesis by (simp add: ctl_safe_def)
  next
    case (Some r)
    then obtain st wd st' wd' where st: "s = Some (st, wd)" "r = (st', wd')" "ctl_cycle c i st wd = Some (st', wd')"
      by (cases r) (auto simp: ctl_next_def bind_eq_Some_conv)
    from st(3) obtain st1 where w: "ctl_work c i st wd = (st1, wd')" and g: "ctl_grid (ctl_period c) i st1 = Some st'"
      by (rule ctl_cycle_cases)
    have ok: "torque_ok st" "even (shm_seq (shm wd))" using s st(1) by (auto simp: ctl_safe_def)
    have "torque_ok st'" "\<not> torque st' \<longrightarrow> ramp_mask st' = 0" "even (shm_seq (shm wd'))"
      using ctl_work_step(1,5,10) [OF w ok(1)] ok(2) by (simp_all add: torque_ok_def ctl_grid_keeps [OF g])
    then show ?thesis using Some st(2) by (simp add: ctl_safe_def)
  qed
qed

lemma ctl_run_fold: "ctl_run c is st wd = fold (ctl_next c) is (Some (st, wd))"
proof -
  have none: "fold (ctl_next c) is None = None" for "is"
    by (induction "is") (simp_all add: ctl_next_def)
  show ?thesis
    by (induction "is" arbitrary: st wd) (auto simp: ctl_next_def none split: Option.bind_split)
qed

interpretation ctl_loop: run_system "ctl_next c" ctl_safe
  for c
  by unfold_locales (rule ctl_next_safe)

section \<open>Soft start\<close>

text \<open>
  Towards a target that stands still a joint moves by \<open>ramp_step\<close> in each pass that begins more than \<open>ramp_done\<close>
  away, for \<open>ramp_passes\<close> passes, and by \<open>max_step\<close> afterwards. \<open>soft_dist\<close> is the distance left after \<open>n\<close> passes.
\<close>

definition ramp_passes :: "so101d_ctx \<Rightarrow> bool \<Rightarrow> int \<Rightarrow> nat" where
  "ramp_passes c ramping d = (if ramping then nat \<lceil>rat_of_int (d - ramp_done c) / rat_of_int (ramp_step c)\<rceil> else 0)"

definition soft_dist :: "so101d_ctx \<Rightarrow> bool \<Rightarrow> int \<Rightarrow> nat \<Rightarrow> int" where
  "soft_dist c ramping d n =
     (let k = ramp_passes c ramping d
      in if n \<le> k then max 0 (d - int n * ramp_step c)
         else max 0 (max 0 (d - int k * ramp_step c) - (int n - int k) * max_step c))"

lemma less_ramp_passes:
  assumes "0 < ramp_step c"
  shows "n < ramp_passes c True d \<longleftrightarrow> int n * ramp_step c < d - ramp_done c"
proof -
  have "n < ramp_passes c True d \<longleftrightarrow> rat_of_int (int n) < rat_of_int (d - ramp_done c) / rat_of_int (ramp_step c)"
    by (simp add: ramp_passes_def zless_nat_eq_int_zless less_ceiling_iff)
  also have "\<dots> \<longleftrightarrow> rat_of_int (int n * ramp_step c) < rat_of_int (d - ramp_done c)"
    using assms by (simp add: pos_less_divide_eq)
  finally show ?thesis by (simp only: of_int_less_iff)
qed

lemma soft_dist_step:
  assumes "0 < ramp_step c" and "0 < max_step c" and "0 \<le> ramp_done c"
  shows "(n < ramp_passes c r d) = (r \<and> n \<le> ramp_passes c r d \<and> \<not> soft_dist c r d n \<le> ramp_done c)"
    and "soft_dist c r d (Suc n) = max 0 (soft_dist c r d n - (if n < ramp_passes c r d then ramp_step c else max_step c))"
proof -
  show "(n < ramp_passes c r d) = (r \<and> n \<le> ramp_passes c r d \<and> \<not> soft_dist c r d n \<le> ramp_done c)"
  proof (cases r)
    case True
    then show ?thesis using less_ramp_passes [OF assms(1), of n d] assms(3) by (auto simp: soft_dist_def Let_def)
  qed (simp add: ramp_passes_def)
  show "soft_dist c r d (Suc n) = max 0 (soft_dist c r d n - (if n < ramp_passes c r d then ramp_step c else max_step c))"
    using assms by (cases "n = ramp_passes c r d") (auto simp: soft_dist_def Let_def algebra_simps not_less)
qed

text \<open>A pass in HOLD, while HOLD stays requested and torque on.\<close>

lemma hold_pass:
  assumes "ctl_cycle c i st wd = Some (st', wd')" and "applied st = SO101_MODE_HOLD" and "shm_mode_req (shm wd) = SO101_MODE_HOLD"
  shows "applied st' = SO101_MODE_HOLD \<and> shm_mode_req (shm wd') = SO101_MODE_HOLD \<and> hold st' = hold st \<and>
    (torque st' \<longrightarrow> torque st \<and> (length (goal st) = SO101_NJ \<longrightarrow> length (goal st') = SO101_NJ \<and>
      (\<forall>j < SO101_NJ. joint_step c (hold st ! j) (goal st ! j) (bit (ramp_mask st) j) = (goal st' ! j, bit (ramp_mask st') j))))"
proof -
  obtain st5 where w: "ctl_work c i st wd = (st5, wd')" and g: "ctl_grid (ctl_period c) i st5 = Some st'"
    using assms(1) by (rule ctl_cycle_cases)
  obtain st1 wd1 st2 wd2 st3 wd3 st4 wd4 where
    1: "ctl_leader c (ctl_wake i st) wd = (st1, wd1)" "ctl_follower c st1 wd1 = (st2, wd2)"
      "ctl_mode c st2 wd2 = (st3, wd3)" "ctl_goal c st3 wd3 = (st4, wd4)" "ctl_publish i st4 wd4 = (st5, wd')"
    using w by (rule ctl_work_cases)
  note k = ctl_leader_keeps [OF 1(1)] ctl_follower_keeps [OF 1(2)] and l = ctl_goal_keeps [OF 1(4)]
    ctl_publish_keeps [OF 1(5)] ctl_grid_keeps [OF g]
  have "mode_wanted wd2 = applied st2" using k assms(2,3) by (simp add: mode_wanted_def)
  then have m: "st3 = st2" "wd3 = wd2" using 1(3) by (auto simp: ctl_mode_def mode_wanted_def Let_def split: if_splits)
  have t: "applied st3 = SO101_MODE_HOLD" "goal st3 = goal st" "hold st3 = hold st" "ramp_mask st3 = ramp_mask st"
    "torque st' = torque st3" "torque st3 \<longrightarrow> torque st" using assms(2) k l by (simp_all add: m)
  have j: "length (goal st4) = SO101_NJ \<and>
      (\<forall>j < SO101_NJ. joint_step c (hold st ! j) (goal st ! j) (bit (ramp_mask st) j) = (goal st4 ! j, bit (ramp_mask st4) j))"
    if "torque st3" "length (goal st) = SO101_NJ"
  proof -
    have "length (goal st4) = SO101_NJ"
      using 1(4) that t(2) goal_loop_length by (fastforce simp: ctl_goal_def split: prod.splits)
    moreover have "joint_target c st3 j = hold st ! j" for j using t(1,3) by (simp add: joint_target_def)
    ultimately show ?thesis using ctl_goal_joint [OF 1(4) that(1)] that(2) t(2,4) by simp
  qed
  have "goal st' = goal st4" "torque st3 \<longrightarrow> ramp_mask st' = ramp_mask st4" using l by simp_all
  then show ?thesis using j t k l assms(2,3) by (simp add: m)
qed

text \<open>Torque stays on as long as the follower has not been silent for too long.\<close>

lemma streak_next_le: "unat (streak_next ok k) \<le> unat k + 1"
  using unat_mono [of k "0xFFFF"] by (auto simp: streak_next_def unat_word_ariths intro: order_trans [OF mod_less_eq_dividend])

lemma hold_pass_torque:
  assumes "ctl_cycle c i st wd = Some (st', wd')" and "applied st = SO101_MODE_HOLD" and "shm_mode_req (shm wd) = SO101_MODE_HOLD"
    and "torque st" and "unat (s_follower_streak (smp st)) + 1 < REOPEN_AFTER"
  shows "torque st' \<and> unat (s_follower_streak (smp st')) \<le> unat (s_follower_streak (smp st)) + 1"
proof -
  obtain st5 where w: "ctl_work c i st wd = (st5, wd')" and g: "ctl_grid (ctl_period c) i st5 = Some st'"
    using assms(1) by (rule ctl_cycle_cases)
  obtain st1 wd1 st2 wd2 st3 wd3 st4 wd4 where
    1: "ctl_leader c (ctl_wake i st) wd = (st1, wd1)" "ctl_follower c st1 wd1 = (st2, wd2)"
      "ctl_mode c st2 wd2 = (st3, wd3)" "ctl_goal c st3 wd3 = (st4, wd4)" "ctl_publish i st4 wd4 = (st5, wd')"
    using w by (rule ctl_work_cases)
  note k = ctl_leader_keeps [OF 1(1)] ctl_follower_keeps [OF 1(2)] and l = ctl_goal_keeps [OF 1(4)]
    ctl_publish_keeps [OF 1(5)] ctl_grid_keeps [OF g]
  have "mode_wanted wd2 = applied st2" using k assms(2,3) by (simp add: mode_wanted_def)
  then have m: "st3 = st2" using 1(3) by (auto simp: ctl_mode_def mode_wanted_def Let_def split: if_splits)
  have s1: "s_follower_streak (smp st1) = s_follower_streak (smp st)"
    using 1(1) by (auto simp: ctl_leader_def leader_decode_def ctl_wake_def Let_def split: prod.splits if_splits)
  have s2: "\<exists>ok. s_follower_streak (smp st2) = streak_next ok (s_follower_streak (smp st1)) \<and>
      (torque st2 = torque st1 \<or> REOPEN_AFTER \<le> unat (s_follower_streak (smp st2)))"
    using 1(2) by (auto simp: ctl_follower_def follower_decode_def Let_def split: prod.splits if_splits)
  have s5: "s_follower_streak (smp st5) = s_follower_streak (smp st2)"
    using 1(5) l(1) by (auto simp: ctl_publish_def with_max_def Let_def m)
  have "s_follower_streak (smp st') = s_follower_streak (smp st5)"
    using g by (auto simp: ctl_grid_def Let_def split: if_splits option.splits)
  moreover have "unat (s_follower_streak (smp st2)) \<le> unat (s_follower_streak (smp st)) + 1"
    using s2 streak_next_le s1 by metis
  ultimately show ?thesis using s2 s5 k l assms(4,5) by (auto simp: m)
qed

lemma hold_run_torque:
  "ctl_run c is st wd = Some (st', wd') \<Longrightarrow> applied st = SO101_MODE_HOLD \<Longrightarrow> shm_mode_req (shm wd) = SO101_MODE_HOLD \<Longrightarrow>
    torque st \<Longrightarrow> unat (s_follower_streak (smp st)) + length is < REOPEN_AFTER \<Longrightarrow> torque st'"
proof (induction "is" arbitrary: st wd)
  case (Cons i "is")
  obtain st1 wd1 where 1: "ctl_cycle c i st wd = Some (st1, wd1)" "ctl_run c is st1 wd1 = Some (st', wd')"
    using Cons.prems(1) by (auto simp: bind_eq_Some_conv)
  have "torque st1 \<and> unat (s_follower_streak (smp st1)) \<le> unat (s_follower_streak (smp st)) + 1"
    by (rule hold_pass_torque [OF 1(1) Cons.prems(2-4)]) (use Cons.prems(5) in simp)
  then show ?case using Cons.IH [OF 1(2)] hold_pass [OF 1(1) Cons.prems(2,3)] Cons.prems(5) by simp
qed simp

lemma ctl_run_snoc: "ctl_run c (is @ [i]) st wd = Option.bind (ctl_run c is st wd) (\<lambda>(st, wd). ctl_cycle c i st wd)"
  by (induction "is" arbitrary: st wd) (auto split: Option.bind_split)

text \<open>The trajectory of a joint over any number of such passes.\<close>

lemma hold_run:
  assumes "0 < ramp_step c" and "0 < max_step c" and "0 \<le> ramp_done c" and "j < SO101_NJ"
    and "applied st = SO101_MODE_HOLD" and "shm_mode_req (shm wd) = SO101_MODE_HOLD" and "length (goal st) = SO101_NJ"
    and "i16 (hold st ! j)" and "i16 (goal st ! j)"
  shows "ctl_run c is st wd = Some (st', wd') \<Longrightarrow>
    applied st' = SO101_MODE_HOLD \<and> shm_mode_req (shm wd') = SO101_MODE_HOLD \<and> hold st' = hold st \<and>
    (torque st' \<longrightarrow> length (goal st') = SO101_NJ \<and> i16 (goal st' ! j) \<and>
      \<bar>hold st ! j - goal st' ! j\<bar> = soft_dist c (bit (ramp_mask st) j) \<bar>hold st ! j - goal st ! j\<bar> (length is) \<and>
      bit (ramp_mask st') j = (bit (ramp_mask st) j \<and> length is \<le> ramp_passes c (bit (ramp_mask st) j) \<bar>hold st ! j - goal st ! j\<bar>))"
proof (induction "is" arbitrary: st' wd' rule: rev_induct)
  case Nil
  then show ?case using assms by (simp add: soft_dist_def)
next
  case (snoc i "is")
  let ?d = "\<bar>hold st ! j - goal st ! j\<bar>" and ?r = "bit (ramp_mask st) j"
  obtain st1 wd1 where 1: "ctl_run c is st wd = Some (st1, wd1)" "ctl_cycle c i st1 wd1 = Some (st', wd')"
    using snoc.prems by (auto simp: ctl_run_snoc bind_eq_Some_conv)
  note ih = snoc.IH [OF 1(1)]
  then have "applied st1 = SO101_MODE_HOLD" "shm_mode_req (shm wd1) = SO101_MODE_HOLD" by blast+
  note h = hold_pass [OF 1(2) this]
  have "length (goal st') = SO101_NJ \<and> i16 (goal st' ! j) \<and> \<bar>hold st ! j - goal st' ! j\<bar> = soft_dist c ?r ?d (Suc (length is)) \<and>
      bit (ramp_mask st') j = (?r \<and> Suc (length is) \<le> ramp_passes c ?r ?d)" if "torque st'"
  proof -
    have g: "i16 (goal st1 ! j)" "\<bar>hold st ! j - goal st1 ! j\<bar> = soft_dist c ?r ?d (length is)"
      "bit (ramp_mask st1) j = (?r \<and> length is \<le> ramp_passes c ?r ?d)" "length (goal st1) = SO101_NJ" "hold st1 = hold st"
      using h ih that by blast+
    then have js: "joint_step c (hold st ! j) (goal st1 ! j) (bit (ramp_mask st1) j) = (goal st' ! j, bit (ramp_mask st') j)"
      "length (goal st') = SO101_NJ"
      using h that assms(4) by (metis, metis)
    have "bit (ramp_mask st') j = (bit (ramp_mask st1) j \<and> \<not> \<bar>hold st ! j - goal st1 ! j\<bar> \<le> ramp_done c)"
      using js(1) by (auto simp: joint_step_def Let_def split: if_splits)
    then have r: "bit (ramp_mask st') j = (length is < ramp_passes c ?r ?d)"
      by (simp only: g(2,3) soft_dist_step(1) [OF assms(1-3)] conj_assoc)
    note b = joint_step_bounds [OF js(1) g(1) assms(8) less_imp_le [OF assms(1)] less_imp_le [OF assms(2)]]
    then have "\<bar>hold st ! j - goal st' ! j\<bar> = soft_dist c ?r ?d (Suc (length is))"
      using g(2) unfolding soft_dist_step(2) [OF assms(1-3)] r by simp
    then show ?thesis using js(2) b r by (auto simp: ramp_passes_def split: if_splits)
  qed
  then show ?case using h ih by simp
qed

section \<open>Goal registers\<close>

lemma length_concat_pairs: "length (concat (map (\<lambda>j. [f j, h j]) [0..<n])) = 2 * n"
  by (induction n) simp_all

lemma nth_concat_pairs:
  "j < n \<Longrightarrow> concat (map (\<lambda>j. [f j, h j]) [0..<n]) ! (2 * j) = f j \<and>
    concat (map (\<lambda>j. [f j, h j]) [0..<n]) ! (2 * j + 1) = h j"
proof (induction n)
  case (Suc n)
  then show ?case
    by (cases "j < n") (auto simp: nth_append length_concat_pairs less_Suc_eq)
qed simp

lemma bytes_u16: "(ucast (ucast (e AND 0xFF) :: u8) :: u16) OR push_bit 8 (ucast (ucast (drop_bit 8 e) :: u8)) = (e :: u16)"
proof -
  have m: "(0xFF :: u16) = mask 8" by (simp add: mask_eq_exp_minus_1)
  show ?thesis unfolding m by (rule bit_word_eqI) (auto simp: bit_simps)
qed

lemma le16_goal_bytes: "j < SO101_NJ \<Longrightarrow> le16 (goal_bytes g) (2 * j) = fts_encode_sm (g ! j) 15"
proof -
  assume j: "j < SO101_NJ"
  let ?f = "\<lambda>j. ucast (fts_encode_sm (g ! j) 15 AND 0xFF) :: u8" and ?h = "\<lambda>j. ucast (drop_bit 8 (fts_encode_sm (g ! j) 15)) :: u8"
  have "goal_bytes g = concat (map (\<lambda>j. [?f j, ?h j]) [0..<SO101_NJ])" by (simp add: goal_bytes_def Let_def)
  then show ?thesis
    using nth_concat_pairs [of j SO101_NJ ?f ?h] j bytes_u16 [of "fts_encode_sm (g ! j) 15"]
    by (simp only: le16_def)
qed

section \<open>Termination\<close>

lemma ctl_grid_total: "0 < period \<Longrightarrow> \<exists>st'. ctl_grid period i st = Some st'"
proof -
  assume p: "0 < period"
  obtain nxt m where "grid_loop period (ci_now i) (next_ns st + period) (s_missed_slots (smp st)) = Some (nxt, m)"
    using grid_loop_steps [OF p] by blast
  then show ?thesis by (simp add: ctl_grid_def Let_def)
qed

lemma ctl_cycle_total: "0 < ctl_period c \<Longrightarrow> \<exists>r. ctl_cycle c i st wd = Some r"
  using ctl_grid_total [of "ctl_period c" i] by (fastforce simp: ctl_cycle_def split: prod.splits)

lemma ctl_run_total: "0 < ctl_period c \<Longrightarrow> \<exists>r. ctl_run c is st wd = Some r"
proof (induction "is" arbitrary: st wd)
  case Nil
  then show ?case by simp
next
  case (Cons i "is")
  obtain st1 wd1 where "ctl_cycle c i st wd = Some (st1, wd1)"
    using ctl_cycle_total [OF Cons.prems] by (metis surj_pair)
  then show ?case using Cons by simp
qed

end
