(* ===== verification/Control_Props.thy ===== *)
theory Control_Props
  imports Control_Lemmas
begin

text \<open>The properties of the control thread. First a small system for their instances: two arms of equal
  calibration, ports that accept writes and stay silent.\<close>

definition ex_joint :: "u8 \<Rightarrow> bool \<Rightarrow> calib_joint" where
  "ex_joint i g = \<lparr>joint_id = i, drive_mode = 0, homing_offset = 0, range_min = 700, range_max = 3400, is_gripper = g\<rparr>"

definition ex_ctx :: so101d_ctx where
  "ex_ctx = ctx_default\<lparr>cal_leader := map (\<lambda>i. ex_joint (of_nat i) (i = 6)) [1..<7],
     cal_follower := map (\<lambda>i. ex_joint (of_nat i) (i = 6)) [1..<7]\<rparr>"

definition ex_port :: tty where
  "ex_port = \<lparr>tty_now = 0, tty_ticks = [], tty_polls = [], tty_reads = [], tty_writes = [WriteBytes 99, WriteBytes 99],
     tty_opens = [], tty_waits = [], tty_wire = [], tty_fds = {3}, tty_paths = [], tty_tio = None\<rparr>"

definition ex_mem :: "u32 \<Rightarrow> so101_shm" where
  "ex_mem m = \<lparr>shm_magic = SO101_SHM_MAGIC, shm_version = 2, shm_size = 360, shm_daemon_pid = 1,
     shm_period_ns = 10000000, shm_n_joints = 6, shm_joint_names = [], shm_seq = 0, shm_s = sample_zero,
     shm_mode_req = m, shm_faults = 0, shm_sup_beat = 0,
     shm_cmd = \<lparr>cmd_id = 0, cmd_cmd = 0, cmd_arg = 0, cmd_client_pid = 0\<rparr>,
     shm_ack = \<lparr>ack_id = 0, ack_result = 0\<rparr>\<rparr>"

definition ex_world :: "u32 \<Rightarrow> world" where
  "ex_world m = \<lparr>leader = bus_zero\<lparr>fd := 3, timeout_ms := 4\<rparr>, leader_tty = ex_port,
     follower = bus_zero\<lparr>fd := 3, timeout_ms := 4\<rparr>, follower_tty = ex_port, shm = ex_mem m\<rparr>"

definition ex_time :: ctl_in where
  "ex_time = \<lparr>ci_wake = 105, ci_t0 = 110, ci_t1 = 200, ci_t2 = 400, ci_end = 420, ci_now = 430\<rparr>"

definition ex_ctl :: ctl where
  "ex_ctl = (ctl_init 100)\<lparr>smp := sample_zero\<lparr>s_follower_ok := True, s_leader_ok := True, s_follower_pos := [2000, 2001, 2002, 2003, 2004, 2005],
     s_leader_norm := [0, 10, 20, 30, 40, 50]\<rparr>\<rparr>"

section \<open>Torque\<close>

text \<open>C14. In one pass of the control loop: if the supervisor requests IDLE or ESTOP (or anything that is not a
  mode), the pass ends with the torque off and that mode applied; torque is on at the end only if
  the mode applied is the one requested, TELEOP or HOLD; torque that was off comes on only if the
  follower answered in this very pass; the published sample tells the mode applied and the torque
  state truthfully; and the pass changes nothing in the fault word but the refused-torque bit.\<close>

theorem control_pass_torque:
  assumes "ctl_cycle c i st wd = Some (st', wd')" and "torque_ok st"
  shows "(mode_wanted wd \<in> {SO101_MODE_IDLE, SO101_MODE_ESTOP} \<longrightarrow> \<not> torque st' \<and> applied st' = mode_wanted wd) \<and>
    (torque st' \<longrightarrow> applied st' = shm_mode_req (shm wd) \<and> applied st' \<in> {SO101_MODE_TELEOP, SO101_MODE_HOLD}) \<and>
    (torque st' \<and> \<not> torque st \<longrightarrow> s_follower_ok (smp st')) \<and>
    s_torque_on (shm_s (shm wd')) = torque st' \<and> s_mode (shm_s (shm wd')) = ucast (applied st') \<and>
    (\<forall>n. n \<noteq> 7 \<longrightarrow> bit (shm_faults (shm wd')) n = bit (shm_faults (shm wd)) n) \<and>
    shm_mode_req (shm wd') = shm_mode_req (shm wd)"
proof -
  obtain st1 where w: "ctl_work c i st wd = (st1, wd')" and g: "ctl_grid (ctl_period c) i st1 = Some st'"
    using assms(1) by (rule ctl_cycle_cases)
  note k = ctl_grid_keeps [OF g] and s = ctl_work_step [OF w assms(2)]
  have "torque st1 \<longrightarrow> applied st1 = shm_mode_req (shm wd)"
    using s(1,2) by (auto simp: torque_ok_def mode_wanted_def split: if_splits)
  moreover have "torque st1 \<longrightarrow> applied st1 \<in> {SO101_MODE_TELEOP, SO101_MODE_HOLD}"
    using s(1) by (simp add: torque_ok_def)
  ultimately show ?thesis
    unfolding k s(6,7,9) using s(3,4,11) unfolding refused_only_def by blast
qed

theorem control_pass_torque_witness:
  "\<exists>st' wd'. ctl_cycle ex_ctx ex_time (ex_ctl\<lparr>torque := True, applied := SO101_MODE_TELEOP\<rparr>) (ex_world SO101_MODE_ESTOP) = Some (st', wd') \<and>
     \<not> torque st' \<and> applied st' = SO101_MODE_ESTOP"
proof -
  let ?r = "ctl_cycle ex_ctx ex_time (ex_ctl\<lparr>torque := True, applied := SO101_MODE_TELEOP\<rparr>) (ex_world SO101_MODE_ESTOP)"
  have "\<not> Option.is_none ?r" by code_simp
  then obtain st' wd' where r: "?r = Some (st', wd')" by (cases ?r) (auto simp: Option.is_none_def)
  show ?thesis
    using control_pass_torque [OF r] r
    by (simp add: torque_ok_def mode_wanted_def ex_world_def ex_mem_def)
qed

text \<open>C5. Torque never comes on blindly. When the mode phase of a pass turns the torque on, the follower was read in
  this pass, the goal is the position just read, the soft start is armed on all six joints, and what
  goes out on the follower's wire is the goal frame for that position and after it the torque frame,
  each in full when its write succeeds and as a prefix when it fails.\<close>

theorem torque_on_at_present_position:
  assumes "ctl_mode c st wd = (st', wd')" and "torque_ok st" and "\<not> torque st" and "torque st'"
  shows "s_follower_ok (smp st) \<and> goal st' = present st \<and> ramp_mask st' = 63 \<and>
    (\<exists>n m ok1 ok2. tty_wire (follower_tty wd') = tty_wire (follower_tty wd) @
        take n (servo_frame (ids_f c) (Goal (present st))) @ take m (servo_frame (ids_f c) (Torque True)) \<and>
      (fst (servo_send (ids_f c) (Goal (present st)) (follower wd, follower_tty wd)) \<longrightarrow>
         n = length (servo_frame (ids_f c) (Goal (present st)))) \<and>
      (fst (servo_send (ids_f c) (Torque True) (snd (servo_send (ids_f c) (Goal (present st)) (follower wd, follower_tty wd)))) \<longrightarrow>
         m = length (servo_frame (ids_f c) (Torque True))))"
  using assms(1)
proof (cases rule: ctl_mode_cases)
  case (Enabled b1 w1 b2 w2 ok1 ok2)
  from arm.send_pair [OF Enabled(6,7)] obtain n m where
    w: "tty_wire w2 = tty_wire (follower_tty wd) @ take n (servo_frame (ids_f c) (Goal (present st))) @
        take m (servo_frame (ids_f c) (Torque True))"
    "ok1 \<longrightarrow> n = length (servo_frame (ids_f c) (Goal (present st)))"
    "ok2 \<longrightarrow> m = length (servo_frame (ids_f c) (Torque True))" by auto
  have e: "tty_wire (follower_tty wd') = tty_wire w2" "goal st' = present st" "ramp_mask st' = 63"
    using Enabled(5,8) by simp_all
  show ?thesis
    unfolding e Enabled(6) snd_conv Enabled(7) fst_conv using w Enabled(4) by blast
qed (use assms in \<open>simp_all add: torque_ok_def\<close>)

theorem torque_on_at_present_position_witness:
  "\<exists>st' wd'. ctl_mode ex_ctx ex_ctl (ex_world SO101_MODE_TELEOP) = (st', wd') \<and>
     goal st' = [2000, 2001, 2002, 2003, 2004, 2005] \<and> ramp_mask st' = 63"
proof -
  obtain st' wd' where r: "ctl_mode ex_ctx ex_ctl (ex_world SO101_MODE_TELEOP) = (st', wd')"
    by (cases "ctl_mode ex_ctx ex_ctl (ex_world SO101_MODE_TELEOP)")
  have "torque (fst (ctl_mode ex_ctx ex_ctl (ex_world SO101_MODE_TELEOP)))" by code_simp
  then have "goal st' = present ex_ctl" "ramp_mask st' = 63"
    using torque_on_at_present_position [OF r] r by (simp_all add: torque_ok_def ex_ctl_def ctl_init_def)
  then show ?thesis using r by (simp add: ex_ctl_def ctl_init_def numeral_eq_Suc)
qed

section \<open>Goals\<close>

text \<open>C6. The goal sent to a joint is rate-limited: in one pass it moves by at most the soft-start step while
  that joint is still ramping and by at most the teleoperation step otherwise, always towards its
  target and never past it, and a joint that has finished its ramp does not re-enter it.\<close>

theorem goal_rate_limited:
  assumes "ctl_goal c st wd = (st', wd')" and "torque st" and "length (goal st) = SO101_NJ" and "j < SO101_NJ"
    and "i16 (goal st ! j)" and "i16 (joint_target c st j)" and "0 \<le> ramp_step c" and "0 \<le> max_step c"
  shows "\<bar>goal st' ! j - goal st ! j\<bar> \<le> (if bit (ramp_mask st') j then ramp_step c else max_step c) \<and>
    min (goal st ! j) (joint_target c st j) \<le> goal st' ! j \<and> goal st' ! j \<le> max (goal st ! j) (joint_target c st j) \<and>
    (bit (ramp_mask st') j \<longrightarrow> bit (ramp_mask st) j)"
proof -
  note js = ctl_goal_joint [OF assms(1-4)]
  have "bit (ramp_mask st') j \<longrightarrow> bit (ramp_mask st) j"
    using js by (auto simp: joint_step_def Let_def split: if_splits)
  then show ?thesis
    using joint_step_bounds [OF js assms(5-8)] by (auto simp: min_def max_def)
qed

theorem goal_rate_limited_witness:
  "\<exists>st' wd'. ctl_goal ex_ctx (ex_ctl\<lparr>torque := True, applied := SO101_MODE_HOLD, hold := replicate 6 3000\<rparr>) (ex_world 2) = (st', wd') \<and>
     \<bar>goal st' ! 3 - 0\<bar> \<le> 50"
proof -
  let ?st = "ex_ctl\<lparr>torque := True, applied := SO101_MODE_HOLD, hold := replicate 6 3000\<rparr>"
  obtain st' wd' where r: "ctl_goal ex_ctx ?st (ex_world 2) = (st', wd')" by (cases "ctl_goal ex_ctx ?st (ex_world 2)")
  show ?thesis
    using goal_rate_limited [OF r, of 3] r
    by (auto simp: ex_ctl_def ctl_init_def i16_def joint_target_def ex_ctx_def ctx_default_def split: if_splits)
qed

text \<open>C29. Teleoperation stays inside the calibrated range of the follower. In TELEOP the target of a joint lies in the
  follower joint's range whenever the leader was read in this pass, whatever the leader's position; when it was not,
  the goal stands still; and a goal inside the range is inside it again after the pass, in either case.\<close>

theorem teleop_goal_in_range:
  assumes "ctl_goal c st wd = (st', wd')" and "torque st" and "length (goal st) = SO101_NJ" and "j < SO101_NJ"
    and "applied st = SO101_MODE_TELEOP"
    and "range_min (cal_follower c ! j) < range_max (cal_follower c ! j)"
    and "- 32768 \<le> range_min (cal_follower c ! j)" and "range_max (cal_follower c ! j) \<le> 32767"
    and "i16 (goal st ! j)" and "0 \<le> ramp_step c" and "0 \<le> max_step c"
  shows "(s_leader_ok (smp st) \<longrightarrow> joint_target c st j \<in> {range_min (cal_follower c ! j)..range_max (cal_follower c ! j)}) \<and>
    (\<not> s_leader_ok (smp st) \<longrightarrow> goal st' ! j = goal st ! j) \<and>
    (goal st ! j \<in> {range_min (cal_follower c ! j)..range_max (cal_follower c ! j)} \<longrightarrow>
      goal st' ! j \<in> {range_min (cal_follower c ! j)..range_max (cal_follower c ! j)})"
proof -
  let ?j = "cal_follower c ! j"
  have ok: "range_ok ?j" using assms(6-8) by (auto simp: range_ok_def)
  have t: "joint_target c st j = (if s_leader_ok (smp st) then calib_unnormalize ?j (s_leader_norm (smp st) ! j) else goal st ! j)"
    using assms(5) by (simp add: joint_target_def)
  have r: "s_leader_ok (smp st) \<longrightarrow> range_min ?j \<le> joint_target c st j \<and> joint_target c st j \<le> range_max ?j"
    using unnormalize_range [OF ok] by (simp add: t)
  then have "i16 (joint_target c st j)" using assms(7-9) t by (auto simp: i16_def split: if_splits)
  from joint_step_bounds [OF ctl_goal_joint [OF assms(1-4)] assms(9) this assms(10,11)] show ?thesis
    using r t by (cases "s_leader_ok (smp st)") auto
qed

theorem teleop_goal_in_range_witness:
  "\<exists>st' wd'. ctl_goal ex_ctx (ex_ctl\<lparr>torque := True, applied := SO101_MODE_TELEOP, goal := replicate 6 2000\<rparr>) (ex_world 1) = (st', wd') \<and>
     joint_target ex_ctx (ex_ctl\<lparr>torque := True, applied := SO101_MODE_TELEOP, goal := replicate 6 2000\<rparr>) 2 \<in> {700..3400} \<and>
     goal st' ! 2 \<in> {700..3400}"
proof -
  let ?st = "ex_ctl\<lparr>torque := True, applied := SO101_MODE_TELEOP, goal := replicate 6 2000\<rparr>"
  obtain st' wd' where r: "ctl_goal ex_ctx ?st (ex_world 1) = (st', wd')" by (cases "ctl_goal ex_ctx ?st (ex_world 1)")
  have j: "range_min (cal_follower ex_ctx ! 2) = 700" "range_max (cal_follower ex_ctx ! 2) = 3400" "s_leader_ok (smp ?st)"
    by (simp_all add: ex_ctx_def ex_joint_def ex_ctl_def)
  show ?thesis
    using teleop_goal_in_range [OF r, of 2] r j
    by (auto simp: ex_ctl_def ctl_init_def ex_ctx_def ctx_default_def i16_def)
qed

text \<open>C20. The exact course of the soft start, over whole passes of the control thread. While HOLD is applied and stays
  requested and torque is on, let \<open>d\<close> be the distance of a joint's goal from the pose held, and \<open>k\<close> the number of passes that begin
  more than \<open>ramp_done\<close> away when each moves \<open>ramp_step\<close> (0 if the joint is not ramping). After \<open>n \<le> k\<close> passes the joint has come
  nearer by exactly \<open>n\<close> times \<open>ramp_step\<close> and is still ramping; after \<open>n > k\<close> passes it is not, and has come nearer by
  \<open>max_step\<close> in each pass since; it stops at the pose and never passes it. For any positive steps, whichever is larger.\<close>

theorem soft_start_reaches_target:
  assumes "ctl_run c is st wd = Some (st', wd')" and "torque st'" and "applied st = SO101_MODE_HOLD"
    and "shm_mode_req (shm wd) = SO101_MODE_HOLD" and "length (goal st) = SO101_NJ" and "j < SO101_NJ"
    and "i16 (hold st ! j)" and "i16 (goal st ! j)" and "0 < ramp_step c" and "0 < max_step c" and "0 \<le> ramp_done c"
  shows "let d = \<bar>hold st ! j - goal st ! j\<bar>; n = length is;
      k = (if bit (ramp_mask st) j then nat \<lceil>rat_of_int (d - ramp_done c) / rat_of_int (ramp_step c)\<rceil> else 0)
    in \<bar>hold st ! j - goal st' ! j\<bar> =
        (if n \<le> k then max 0 (d - int n * ramp_step c) else max 0 (max 0 (d - int k * ramp_step c) - int (n - k) * max_step c)) \<and>
      bit (ramp_mask st') j = (bit (ramp_mask st) j \<and> n \<le> k)"
proof -
  let ?d = "\<bar>hold st ! j - goal st ! j\<bar>" and ?r = "bit (ramp_mask st) j"
  have k: "(if ?r then nat \<lceil>rat_of_int (?d - ramp_done c) / rat_of_int (ramp_step c)\<rceil> else 0) = ramp_passes c ?r ?d"
    by (simp add: ramp_passes_def)
  show ?thesis
    using hold_run [OF assms(9-11,6,3-5,7,8,1)] assms(2) unfolding k Let_def by (simp add: soft_dist_def Let_def of_nat_diff)
qed

text \<open>From 0 to 257: 35 passes of 6 ticks, then the last 47 ticks in one pass.\<close>

theorem soft_start_reaches_target_witness:
  "\<exists>st' wd'. ctl_run ex_ctx (replicate 40 ex_time) (ex_ctl\<lparr>torque := True, applied := SO101_MODE_HOLD, hold := replicate 6 257,
       ramp_mask := 63\<rparr>) (ex_world SO101_MODE_HOLD) = Some (st', wd') \<and> goal st' ! 3 = 257 \<and> \<not> bit (ramp_mask st') 3"
proof -
  let ?st = "ex_ctl\<lparr>torque := True, applied := SO101_MODE_HOLD, hold := replicate 6 257, ramp_mask := 63\<rparr>"
  have "0 < ctl_period ex_ctx" by code_simp
  from ctl_run_total [OF this] obtain st' wd' where r: "ctl_run ex_ctx (replicate 40 ex_time) ?st (ex_world SO101_MODE_HOLD) = Some (st', wd')"
    by (metis surj_pair)
  have f: "applied ?st = SO101_MODE_HOLD" "shm_mode_req (shm (ex_world SO101_MODE_HOLD)) = SO101_MODE_HOLD" "goal ?st = replicate 6 0"
    "hold ?st = replicate 6 257" "ramp_mask ?st = 63" "ramp_step ex_ctx = 6" "max_step ex_ctx = 50" "ramp_done ex_ctx = 50" "torque ?st"
    "s_follower_streak (smp ?st) = 0"
    by (simp_all add: ex_ctl_def ctl_init_def ex_ctx_def ctx_default_def ex_world_def ex_mem_def sample_zero_def)
  have t: "torque st'" using hold_run_torque [OF r f(1,2,9)] f(10) by simp
  have k: "\<lceil>rat_of_int (257 - 50) / rat_of_int 6\<rceil> = 35" "bit (63 :: u32) 3" by code_simp+
  show ?thesis
    using soft_start_reaches_target [OF r t f(1,2), of 3] r k unfolding f by (simp add: i16_def Let_def)
qed

text \<open>The servo gets the goal that was computed: each joint's two bytes of the goal frame, read back as
  the little-endian sign-magnitude register of the servo, are that joint's goal.\<close>

theorem goal_bytes_roundtrip:
  assumes "j < SO101_NJ" and "\<bar>g ! j\<bar> < 32768"
  shows "fts_decode_sm (le16 (goal_bytes g) (2 * j)) 15 = g ! j"
  using assms decode_encode_sm [of 15 "g ! j"] by (simp add: le16_goal_bytes)

theorem goal_bytes_roundtrip_witness:
  "fts_decode_sm (le16 (goal_bytes [2048, - 17, 0, 4095, 1, 300]) (2 * 1)) 15 = - 17"
  using goal_bytes_roundtrip [of 1 "[2048, - 17, 0, 4095, 1, 300]"] by simp

section \<open>Time\<close>

text \<open>C30. The loop stays on its fixed time grid and always gets to its next slot: with a positive period the
  step ends; the next slot is a whole number of periods after the last; if the pass was in time it is
  the very next one and nothing is counted; else one overrun is counted, every skipped slot is
  counted as missed, and the next slot is the first one not before the present.\<close>

theorem grid_catches_up:
  assumes "0 < period"
  shows "\<exists>st' k. ctl_grid period i st = Some st' \<and> next_ns st' = next_ns st + int (Suc k) * period \<and>
    s_missed_slots (smp st') = s_missed_slots (smp st) + of_nat k \<and>
    (if ci_now i \<le> next_ns st + period then k = 0 \<and> s_overruns (smp st') = s_overruns (smp st)
     else s_overruns (smp st') = s_overruns (smp st) + 1 \<and> ci_now i \<le> next_ns st' \<and> next_ns st' < ci_now i + period)"
proof (cases "ci_now i > next_ns st + period")
  case False
  then show ?thesis by (intro exI [of _ "st\<lparr>next_ns := next_ns st + period\<rparr>"] exI [of _ 0]) (simp add: ctl_grid_def)
next
  case True
  obtain k where k: "grid_loop period (ci_now i) (next_ns st + period) (s_missed_slots (smp st)) =
      Some (next_ns st + period + int k * period, s_missed_slots (smp st) + of_nat k)"
    "ci_now i \<le> next_ns st + period + int k * period" "k > 0 \<longrightarrow> next_ns st + period + int k * period < ci_now i + period"
    using grid_loop_steps [OF assms] by blast
  have "k > 0" using True k(2) by (cases k) simp_all
  define st' where "st' = st\<lparr>next_ns := next_ns st + period + int k * period,
    smp := (smp st)\<lparr>s_overruns := s_overruns (smp st) + 1, s_missed_slots := s_missed_slots (smp st) + of_nat k\<rparr>\<rparr>"
  have "ctl_grid period i st = Some st'" using True k(1) by (simp add: ctl_grid_def Let_def st'_def)
  then show ?thesis
    using True k(2,3) \<open>k > 0\<close> by (intro exI [of _ st'] exI [of _ k]) (simp add: st'_def algebra_simps)
qed

theorem grid_catches_up_witness:
  "\<exists>st' k. ctl_grid 10 \<lparr>ci_wake = 0, ci_t0 = 0, ci_t1 = 0, ci_t2 = 0, ci_end = 0, ci_now = 57\<rparr> (ctl_init 20) = Some st' \<and>
     next_ns st' = 20 + int (Suc k) * 10 \<and> 57 \<le> next_ns st' \<and> next_ns st' < 67"
  using grid_catches_up [of 10 "\<lparr>ci_wake = 0, ci_t0 = 0, ci_t1 = 0, ci_t2 = 0, ci_end = 0, ci_now = 57\<rparr>" "ctl_init 20"]
  by (auto simp: ctl_init_def)

text \<open>C32. A control rate above 1 GHz stops the arm's control for good. For every such rate that a double can hold, the period
  computed from it is zero, and then a pass that ends later than its slot never returns: the loop that skips
  the slots gone by makes no progress.\<close>

theorem zero_period_hangs:
  assumes "1000000000 < freq c" and "rnd64 (freq c) = freq c" and "ci_now i > next_ns (fst (ctl_work c i st wd))"
  shows "ctl_period c = 0 \<and> ctl_cycle c i st wd = None"
proof -
  have "ctl_period c = 0" using giga_quotient_zero [OF assms(1,2)] by (simp add: ctl_period_def)
  then show ?thesis
    using assms(3) by (auto simp: grid_loop_zero ctl_cycle_def ctl_grid_def Let_def split: prod.splits)
qed

theorem zero_period_hangs_witness:
  "ctl_cycle (ex_ctx\<lparr>freq := 2000000000\<rparr>) ex_time ex_ctl (ex_world SO101_MODE_IDLE) = None"
proof -
  have "rnd64 (2000000000 :: rat) = 2000000000" by code_simp
  moreover have "ci_now ex_time > next_ns (fst (ctl_work (ex_ctx\<lparr>freq := 2000000000\<rparr>) ex_time ex_ctl (ex_world SO101_MODE_IDLE)))"
    by code_simp
  ultimately show ?thesis using zero_period_hangs [of "ex_ctx\<lparr>freq := 2000000000\<rparr>" ex_time ex_ctl "ex_world SO101_MODE_IDLE"] by simp
qed

text \<open>C28. The thread ends with a limp follower: with a positive period every sequence of passes ends, and the last
  thing the thread sends, after the last pass, is the frame that switches the follower's torque off
  (in full when the write succeeds).\<close>

theorem shutdown_leaves_limp:
  assumes "0 < ctl_period c"
  shows "\<exists>st1 wd1 st' wd'. ctl_run c is (fst (ctl_start c now wd)) (snd (ctl_start c now wd)) = Some (st1, wd1) \<and>
    control_thread c now is wd = Some (st', wd') \<and>
    (\<exists>n. tty_wire (follower_tty wd') = tty_wire (follower_tty wd1) @ take n (servo_frame (ids_f c) (Torque False)) \<and>
      (fst (servo_send (ids_f c) (Torque False) (follower wd1, follower_tty wd1)) \<longrightarrow>
        n = length (servo_frame (ids_f c) (Torque False))))"
proof -
  obtain st1 wd1 where r: "ctl_run c is (fst (ctl_start c now wd)) (snd (ctl_start c now wd)) = Some (st1, wd1)"
    using ctl_run_total [OF assms] by (metis surj_pair)
  obtain rc b w where t: "set_torque (follower wd1) (ids_f c) False (follower_tty wd1) = (rc, b, w)"
    by (cases "set_torque (follower wd1) (ids_f c) False (follower_tty wd1)")
  then have s: "servo_send (ids_f c) (Torque False) (follower wd1, follower_tty wd1) = (rc = FTS_OK, b, w)"
    by (simp add: servo_send_def)
  have "control_thread c now is wd = Some (st1, wd1\<lparr>follower := b, follower_tty := w\<rparr>)"
    using r t by (cases "ctl_start c now wd") (simp add: control_thread_def ctl_stop_def)
  then show ?thesis
    using r s arm.send_prefix [OF s] by auto
qed

theorem shutdown_leaves_limp_witness:
  "\<exists>st' wd'. control_thread ex_ctx 0 [ex_time, ex_time] (ex_world SO101_MODE_IDLE) = Some (st', wd')"
proof -
  have "0 < ctl_period ex_ctx" by code_simp
  then show ?thesis using shutdown_leaves_limp [of ex_ctx "[ex_time, ex_time]" 0 "ex_world SO101_MODE_IDLE"] by blast
qed

end
