(* ===== verification/Libc.thy ===== *)
theory Libc
  imports Calib
begin

text \<open>
  The conversions of the C library that the programs apply to their command lines and environment.
  \<open>atof\<close> covers decimal numbers; \<open>None\<close> stands for the inputs whose value the rational model of
  doubles does not have: infinities, NaN, overflow and hexadecimal notation.
\<close>

definition isdigit :: "char \<Rightarrow> bool" where
  "isdigit c \<longleftrightarrow> digit_val c \<noteq> None"

definition atoi :: "string \<Rightarrow> int" where
  "atoi p = to_i32 (case strtol p of None \<Rightarrow> 0 | Some v \<Rightarrow> v)"

definition atol :: "string \<Rightarrow> int" where
  "atol p = (case strtol p of None \<Rightarrow> 0 | Some v \<Rightarrow> v)"

definition sign_of :: "string \<Rightarrow> bool \<times> string" where
  "sign_of p = (case p of CHR ''-'' # q \<Rightarrow> (True, q) | CHR ''+'' # q \<Rightarrow> (False, q) | _ \<Rightarrow> (False, p))"

text \<open>\<open>strtoull\<close> in base 10: it saturates, and a minus sign negates the result modulo \<open>2 ^ 64\<close>.\<close>

definition strtoull :: "string \<Rightarrow> u64" where
  "strtoull p =
     (let (neg, p) = sign_of (dropWhile isspace p);
          v = digits 0 (takeWhile isdigit p)
      in if v > 2 ^ 64 - 1 then - 1 else if neg then - word_of_int v else word_of_int v)"

definition exponent_of :: "string \<Rightarrow> int" where
  "exponent_of p =
     (case p of
        [] \<Rightarrow> 0
      | e # q \<Rightarrow>
          if e \<noteq> CHR ''e'' \<and> e \<noteq> CHR ''E'' then 0
          else let (neg, ds) = sign_of q; v = digits 0 (takeWhile isdigit ds) in if neg then - v else v)"

definition atof :: "string \<Rightarrow> rat option" where
  "atof p =
     (let (neg, p) = sign_of (dropWhile isspace p);
          ip = takeWhile isdigit p; rest = dropWhile isdigit p;
          (fp, rest) = (case rest of CHR ''.'' # q \<Rightarrow> (takeWhile isdigit q, dropWhile isdigit q) | _ \<Rightarrow> ([], rest))
      in if ip @ fp = [] then (if p \<noteq> [] \<and> hd p \<in> {CHR ''i'', CHR ''I'', CHR ''n'', CHR ''N''} then None else Some 0)
         else if ip = ''0'' \<and> fp = [] \<and> rest \<noteq> [] \<and> hd rest \<in> {CHR ''x'', CHR ''X''} then None
         else
           let x = rnd64 (of_int (digits 0 (ip @ fp)) * 10 powi (exponent_of rest - int (length fp)))
           in if x \<ge> 2 ^ 1024 then None else Some (if neg then - x else x))"

text \<open>What the programs print, as data: an integer, a string, a number with so many decimals.\<close>

datatype cell =
    CInt int
  | CStr string
  | CDec nat rat

text \<open>Nanoseconds in microseconds and in seconds, in double arithmetic.\<close>

definition ns_us :: "int \<Rightarrow> rat" where
  "ns_us x = rnd64 (rnd64 (of_int x) / 1000)"

definition ns_s :: "int \<Rightarrow> rat" where
  "ns_s x = rnd64 (rnd64 (of_int x) / 1000000000)"

text \<open>A share in percent: \<open>100.0 * part / whole\<close>.\<close>

definition percent :: "int \<Rightarrow> int \<Rightarrow> rat" where
  "percent part whole = rnd64 (rnd64 (100 * rnd64 (of_int part)) / rnd64 (of_int whole))"

text \<open>A 64-bit quotient, as the interval of a timer is made from a frequency: \<open>(long)(1e9 / hz)\<close>.\<close>

definition period_of :: "rat \<Rightarrow> int" where
  "period_of hz = f_trunc (rnd64 (1000000000 / hz))"

text \<open>A \<open>struct timespec\<close> from nanoseconds; division and remainder of C truncate.\<close>

definition ns_ts :: "int \<Rightarrow> int \<times> int" where
  "ns_ts ns = (sgn ns * (\<bar>ns\<bar> div 1000000000), sgn ns * (\<bar>ns\<bar> mod 1000000000))"

text \<open>
  The clocks, from a reading of \<open>CLOCK_MONOTONIC\<close> in seconds and nanoseconds: the control thread counts
  nanoseconds, the supervisor milliseconds, the diagnostics program microseconds in a double.
\<close>

definition mono_ns :: "int \<times> int \<Rightarrow> int" where
  "mono_ns t = fst t * 1000000000 + snd t"

definition mono_ms :: "int \<times> int \<Rightarrow> int" where
  "mono_ms t = fst t * 1000 + snd t div 1000000"

definition now_us :: "int \<times> int \<Rightarrow> rat" where
  "now_us t = rnd64 (rnd64 (rnd64 (of_int (fst t)) * 1000000) + rnd64 (rnd64 (of_int (snd t)) / 1000))"

text \<open>
  The attributes of a thread: the scheduling asked for explicitly (otherwise the creator's is inherited) and the
  CPUs it is confined to. A \<open>cpu_set_t\<close> has 1024 bits, and \<open>CPU_SET\<close> on an empty one ignores a number outside.
\<close>

datatype sched =
    Inherited
  | SchedFifo int

record thread_attr =
  attr_sched :: sched
  attr_cpus :: "int set option"

definition cpu_set :: "int \<Rightarrow> int set" where
  "cpu_set cpu = (if 0 \<le> cpu \<and> cpu < 1024 then {cpu} else {})"

lemma mono_ms_ns: "mono_ms t = mono_ns t div 1000000"
  by (simp add: mono_ms_def mono_ns_def)

lemma mono_ns_ts: "0 \<le> ns \<Longrightarrow> mono_ns (ns_ts ns) = ns"
  by (cases "ns = 0") (auto simp: mono_ns_def ns_ts_def)

lemma ns_ts_valid:
  "0 \<le> ns \<Longrightarrow> ns_ts ns = (sec, nsec) \<Longrightarrow> 0 \<le> nsec \<and> nsec < 1000000000 \<and> sec * 1000000000 + nsec = ns"
  by (cases "ns = 0") (auto simp: ns_ts_def)

end
