(* ===== verification/Daemon.thy ===== *)
theory Daemon
  imports Control_Lemmas Supervisor Libc
begin

text \<open>
  The main thread of the daemon, \<^verbatim>\<open>daemon/src/so101d.c\<close>: options, start-up, the watchdog loop and the
  shutdown. The answers of the operating system during start-up are the record \<open>boot\<close>; what the
  start-up leaves outside the process (the shared-memory object, the two named semaphores) is the
  record \<open>host\<close>. The options come as \<open>getopt\<close> hands them out, letter and argument; an unknown option
  is the letter \<open>?\<close>. Whether \<open>pthread_create\<close> succeeds may depend on the attributes asked for, so \<open>boot\<close>
  answers with a function of them. Memory locking, the signal mask and the names of the threads are not modelled.
\<close>

section \<open>Options\<close>

datatype opt_result =
    OptOk so101d_ctx
  | OptExit int
  | OptNoFloat

definition parse_mode :: "string \<Rightarrow> u32 option" where
  "parse_mode s =
     (if s = ''idle'' then Some SO101_MODE_IDLE
      else if s = ''teleop'' then Some SO101_MODE_TELEOP
      else if s = ''hold'' then Some SO101_MODE_HOLD
      else None)"

text \<open>One option; \<open>getgrnam\<close> is the group database.\<close>

definition parse_opt :: "(string \<Rightarrow> nat option) \<Rightarrow> char \<times> string \<Rightarrow> so101d_ctx \<Rightarrow> opt_result" where
  "parse_opt getgrnam o1 c =
     (let (opt, optarg) = o1 in
      if opt = CHR ''l'' then OptOk (c\<lparr>leader_port := optarg\<rparr>)
      else if opt = CHR ''f'' then OptOk (c\<lparr>follower_port := optarg\<rparr>)
      else if opt = CHR ''L'' then OptOk (c\<lparr>leader_calib := Some optarg\<rparr>)
      else if opt = CHR ''F'' then OptOk (c\<lparr>follower_calib := Some optarg\<rparr>)
      else if opt = CHR ''R'' then (case atof optarg of None \<Rightarrow> OptNoFloat | Some x \<Rightarrow> OptOk (c\<lparr>freq := x\<rparr>))
      else if opt = CHR ''r'' then OptOk (c\<lparr>realtime := True\<rparr>)
      else if opt = CHR ''P'' then OptOk (c\<lparr>prio := atoi optarg\<rparr>)
      else if opt = CHR ''C'' then OptOk (c\<lparr>cpu := atoi optarg\<rparr>)
      else if opt = CHR ''s'' then OptOk (c\<lparr>max_step := atoi optarg\<rparr>)
      else if opt = CHR ''a'' then OptOk (c\<lparr>ramp_step := atoi optarg\<rparr>)
      else if opt = CHR ''T'' then OptOk (c\<lparr>temp_limit := atoi optarg\<rparr>)
      else if opt = CHR ''t'' then OptOk (c\<lparr>bus_timeout_ms := atoi optarg\<rparr>)
      else if opt = CHR ''e'' then OptOk (c\<lparr>ctx_echo := True\<rparr>)
      else if opt = CHR ''g'' then
        (case getgrnam optarg of None \<Rightarrow> OptExit 2 | Some g \<Rightarrow> OptOk (c\<lparr>ipc_gid := Some g, ipc_mode := 432\<rparr>))
      else if opt = CHR ''m'' then
        (case parse_mode optarg of None \<Rightarrow> OptExit 2 | Some m \<Rightarrow> OptOk (c\<lparr>initial_mode := m\<rparr>))
      else OptExit 2)"

fun parse_opts :: "(string \<Rightarrow> nat option) \<Rightarrow> (char \<times> string) list \<Rightarrow> so101d_ctx \<Rightarrow> opt_result" where
  "parse_opts getgrnam [] c =
     (if leader_calib c = None \<or> follower_calib c = None \<or> freq c \<le> 0 \<or> max_step c \<le> 0 \<or> ramp_step c \<le> 0
      then OptExit 2 else OptOk c)"
| "parse_opts getgrnam (x # xs) c =
     (case parse_opt getgrnam x c of OptOk c \<Rightarrow> parse_opts getgrnam xs c | r \<Rightarrow> r)"

section \<open>Scheduling\<close>

text \<open>
  The attributes \<open>main\<close> sets up for its two threads.
\<close>

definition ctl_attr :: "so101d_ctx \<Rightarrow> thread_attr" where
  "ctl_attr c =
     \<lparr>attr_sched = (if realtime c then SchedFifo (prio c) else Inherited),
      attr_cpus = (if cpu c \<ge> 0 then Some (cpu_set (cpu c)) else None)\<rparr>"

definition sup_attr :: "so101d_ctx \<Rightarrow> thread_attr" where
  "sup_attr c =
     \<lparr>attr_sched = (if realtime c then SchedFifo (if prio c > 10 then prio c - 10 else 1) else Inherited),
      attr_cpus = None\<rparr>"

section \<open>Start-up\<close>

record boot =
  b_pid :: int
  b_shm_open :: bool
  b_flock :: bool
  b_fchown :: bool
  b_ftruncate :: bool
  b_mmap :: bool
  b_unlink_lock :: bool
  b_unlink_ready :: bool
  b_open_lock :: bool
  b_open_ready :: bool
  b_chown_sem :: bool
  b_ctl :: "thread_attr \<Rightarrow> bool"
  b_sup :: "thread_attr \<Rightarrow> bool"

record host =
  h_shm :: "so101_shm option"
  h_shm_gid :: "nat option"
  h_shm_mode :: nat
  h_sem_lock :: "nat option"
  h_sem_ready :: "nat option"
  h_sem_gid :: "nat option"

text \<open>A memory of zero bytes.\<close>

definition shm_zero :: so101_shm where
  "shm_zero = \<lparr>shm_magic = 0, shm_version = 0, shm_size = 0, shm_daemon_pid = 0, shm_period_ns = 0, shm_n_joints = 0,
     shm_joint_names = replicate SO101_NJ [], shm_seq = 0, shm_s = sample_zero, shm_mode_req = 0, shm_faults = 0,
     shm_sup_beat = 0, shm_cmd = \<lparr>cmd_id = 0, cmd_cmd = 0, cmd_arg = 0, cmd_client_pid = 0\<rparr>,
     shm_ack = \<lparr>ack_id = 0, ack_result = 0\<rparr>\<rparr>"

definition shm_header :: "so101d_ctx \<Rightarrow> int \<Rightarrow> so101_shm" where
  "shm_header c pid =
     (let shm = shm_zero;
          shm = shm\<lparr>shm_version := SO101_SHM_VERSION, shm_size := of_nat shm_total_size, shm_daemon_pid := pid,
                    shm_period_ns := word_of_int (f_trunc (rnd64 (1000000000 / freq c))), shm_n_joints := of_nat SO101_NJ,
                    shm_joint_names := map (take 15) calib_joint_names\<rparr>;
          shm = shm\<lparr>shm_mode_req := initial_mode c\<rparr>
      in shm\<lparr>shm_magic := SO101_SHM_MAGIC\<rparr>)"

text \<open>\<open>O_CREAT\<close> makes an object of zero bytes when there is none. The boolean is success.\<close>

definition shm_create :: "so101d_ctx \<Rightarrow> boot \<Rightarrow> host \<Rightarrow> bool \<times> host" where
  "shm_create c b h =
     (if \<not> b_shm_open b then (False, h)
      else
        let h = (if h_shm h = None then h\<lparr>h_shm := Some shm_zero, h_shm_mode := ipc_mode c\<rparr> else h) in
        if \<not> b_flock b then (False, h)
        else
          let h = (if ipc_gid c \<noteq> None \<and> b_fchown b then h\<lparr>h_shm_gid := ipc_gid c\<rparr> else h);
              h = h\<lparr>h_shm_mode := ipc_mode c\<rparr>
          in if \<not> b_ftruncate b then (False, h)
             else if \<not> b_mmap b then (False, h)
             else (True, h\<lparr>h_shm := Some (shm_header c (b_pid b))\<rparr>))"

definition open_bus :: "string \<Rightarrow> so101d_ctx \<Rightarrow> tty \<Rightarrow> int \<times> fts_bus \<times> tty" where
  "open_bus port c w =
     (let (rc, bus, w) = fts_open port 1000000 w
      in if rc \<noteq> FTS_OK then (- 1, bus, w)
         else (0, bus\<lparr>timeout_ms := bus_timeout_ms c, echo := ctx_echo c\<rparr>, w))"

text \<open>Opening with \<open>O_EXCL\<close> fails on a semaphore that still exists.\<close>

definition sems_create :: "so101d_ctx \<Rightarrow> boot \<Rightarrow> host \<Rightarrow> bool \<times> host" where
  "sems_create c b h =
     (let h = (if b_unlink_lock b then h\<lparr>h_sem_lock := None\<rparr> else h);
          h = (if b_unlink_ready b then h\<lparr>h_sem_ready := None\<rparr> else h);
          ok_lock = (b_open_lock b \<and> h_sem_lock h = None);
          ok_ready = (b_open_ready b \<and> h_sem_ready h = None);
          h = (if ok_lock then h\<lparr>h_sem_lock := Some 1\<rparr> else h);
          h = (if ok_ready then h\<lparr>h_sem_ready := Some 0\<rparr> else h)
      in if \<not> ok_lock \<or> \<not> ok_ready then (False, h)
         else (True, if ipc_gid c \<noteq> None \<and> b_chown_sem b then h\<lparr>h_sem_gid := ipc_gid c\<rparr> else h))"

text \<open>
  The daemon removes names it created itself, so \<open>sem_unlink\<close> can only find them already gone; the code does not look
  at its answer.
\<close>

definition sems_destroy :: "host \<Rightarrow> host" where
  "sems_destroy h = h\<lparr>h_sem_lock := None, h_sem_ready := None\<rparr>"

datatype main_result =
    Exit int host
  | ControlOnly so101d_ctx fts_bus tty fts_bus tty host
  | Running so101d_ctx fts_bus tty fts_bus tty host

text \<open>
  From the options to the running threads. \<open>files\<close> are the readable files. \<open>ControlOnly\<close>: the control thread
  runs but the supervisor's could not be created; the control thread is then stopped and joined, and the daemon
  ends with exit code 1 (theory Life).
\<close>

definition daemon_start ::
    "(string \<Rightarrow> string option) \<Rightarrow> so101d_ctx \<Rightarrow> boot \<Rightarrow> tty \<Rightarrow> tty \<Rightarrow> host \<Rightarrow> main_result" where
  "daemon_start files c b xl xf h =
     (case (leader_calib c, follower_calib c) of
        (Some lp, Some fp) \<Rightarrow>
          (case calib_load files lp 256 of
             Inl e \<Rightarrow> Exit 1 h
           | Inr al \<Rightarrow>
               (case calib_load files fp 256 of
                  Inl e \<Rightarrow> Exit 1 h
                | Inr af \<Rightarrow>
                    let c = c\<lparr>cal_leader := al, cal_follower := af\<rparr>;
                        (rl, bl, xl) = open_bus (leader_port c) c xl in
                    if rl \<noteq> 0 then Exit 1 h
                    else
                      let (rf, bf, xf) = open_bus (follower_port c) c xf in
                      if rf \<noteq> 0 then Exit 1 h
                      else
                        let (ok, h) = shm_create c b h in
                        if \<not> ok then Exit 1 h
                        else
                          let (ok, h) = sems_create c b h in
                          if \<not> ok then Exit 1 (h\<lparr>h_shm := None\<rparr>)
                          else if \<not> b_ctl b (ctl_attr c) then Exit 1 ((sems_destroy h)\<lparr>h_shm := None\<rparr>)
                          else if \<not> b_sup b (sup_attr c) then ControlOnly c bl xl bf xf h
                          else Running c bl xl bf xf h))
      | _ \<Rightarrow> Exit 2 h)"

section \<open>The watchdog loop\<close>

definition sd_watchdog_usec :: "string option \<Rightarrow> string option \<Rightarrow> int \<Rightarrow> u64" where
  "sd_watchdog_usec u p pid =
     (case u of
        None \<Rightarrow> 0
      | Some u \<Rightarrow> (case p of Some p \<Rightarrow> if atoi p \<noteq> pid then 0 else strtoull u | None \<Rightarrow> strtoull u))"

definition chk_time :: "u64 \<Rightarrow> int \<times> int" where
  "chk_time wd_usec =
     (let chk_usec = (if wd_usec \<noteq> 0 then wd_usec div 2 else 1000000)
      in (uint (chk_usec div 1000000), uint (chk_usec mod 1000000) * 1000))"

text \<open>The address \<open>sd_notifyf\<close> sends to; \<open>sun_path\<close> has 108 bytes.\<close>

definition sd_address :: "string option \<Rightarrow> string option" where
  "sd_address path =
     (case path of
        Some (ch # rest) \<Rightarrow>
          if ch \<noteq> CHR ''/'' \<and> ch \<noteq> CHR ''@'' then None
          else if length (ch # rest) \<ge> 108 then None
          else Some ((if ch = CHR ''@'' then NUL else ch) # rest)
      | _ \<Rightarrow> None)"

datatype main_msg =
    Ready string
  | Ping string bool u64 u32
  | Stopping
  | AliveAgain
  | Stuck string

record dog =
  dog_cycle :: u64
  dog_beat :: u64
  dog_healthy :: bool

definition dog_init :: dog where
  "dog_init = \<lparr>dog_cycle = 0, dog_beat = 0, dog_healthy = True\<rparr>"

text \<open>One pass of the loop that no signal ended.\<close>

definition dog_check :: "so101_shm \<Rightarrow> dog \<Rightarrow> dog \<times> main_msg list" where
  "dog_check mem d =
     (case so101_shm_read mem 100 of
        None \<Rightarrow> (d, [])
      | Some (_, s) \<Rightarrow>
          let beat = shm_sup_beat mem;
              ctl_ok = (s_cycle s \<noteq> dog_cycle d);
              sup_ok = (beat \<noteq> dog_beat d);
              alive = (ctl_ok \<and> sup_ok);
              msgs = (if alive
                then Ping (so101_mode_name (unat (s_mode s))) (s_ramping s \<noteq> 0) (s_cycle s) (s_faults s)
                       # (if \<not> dog_healthy d then [AliveAgain] else [])
                else if dog_healthy d then [Stuck (if \<not> ctl_ok then ''control loop'' else ''supervisor'')]
                else [])
          in (\<lparr>dog_cycle = s_cycle s, dog_beat = beat, dog_healthy = alive\<rparr>, msgs))"

definition pings :: "main_msg list \<Rightarrow> bool" where
  "pings msgs \<longleftrightarrow> (\<exists>m \<in> set msgs. case m of Ping _ _ _ _ \<Rightarrow> True | _ \<Rightarrow> False)"

section \<open>Shutdown\<close>

text \<open>
  After both threads have been joined: semaphores removed, ports closed, the magic number cleared for
  the clients that still map the memory, the name removed. The memory result is what they see.
\<close>

definition daemon_stop :: "world \<Rightarrow> host \<Rightarrow> world \<times> host" where
  "daemon_stop wd h =
     (let h = sems_destroy h;
          (bl, xl) = fts_close (leader wd) (leader_tty wd);
          (bf, xf) = fts_close (follower wd) (follower_tty wd)
      in (wd\<lparr>leader := bl, leader_tty := xl, follower := bf, follower_tty := xf,
             shm := (shm wd)\<lparr>shm_magic := 0\<rparr>\<rparr>, h\<lparr>h_shm := None\<rparr>))"

end
