(* ===== verification/System.thy ===== *)
theory System
  imports Daemon
begin

text \<open>
  The daemon as a whole: passes of the control thread, passes of the supervisor and writes of
  clients to the mailbox, in any order, over one shared memory. The supervisor's snapshot is a
  seqlock read of that memory; \<open>Supervise got seen now lockv\<close> says whether a command was announced and whether the
  snapshot was obtained at all (a read that meets the writer 100 times gives up).
\<close>

datatype sys_event =
    Client so101_cmd
  | Supervise bool bool int int
  | Control ctl_in

record sys =
  sys_ctl :: ctl
  sys_world :: world
  sys_sup :: sup

definition sys_sup_in :: "bool \<Rightarrow> bool \<Rightarrow> int \<Rightarrow> int \<Rightarrow> so101_shm \<Rightarrow> sup_in" where
  "sys_sup_in got seen now lockv mem =
     \<lparr>in_got = got, in_now = now, in_lock = lockv, in_snap = (if seen then map_option snd (so101_shm_read mem 100) else None)\<rparr>"

fun sys_step :: "so101d_ctx \<Rightarrow> sys_event \<Rightarrow> sys \<Rightarrow> sys option" where
  "sys_step c (Client w) s =
     Some (s\<lparr>sys_world := (sys_world s)\<lparr>shm := (shm (sys_world s))\<lparr>shm_cmd := w\<rparr>\<rparr>\<rparr>)"
| "sys_step c (Supervise got seen now lockv) s =
     (let mem = shm (sys_world s);
          (v, mem) = sup_next c (sys_sup_in got seen now lockv mem) (sys_sup s, mem)
      in Some (s\<lparr>sys_sup := v, sys_world := (sys_world s)\<lparr>shm := mem\<rparr>\<rparr>))"
| "sys_step c (Control i) s =
     map_option (\<lambda>(st, wd). s\<lparr>sys_ctl := st, sys_world := wd\<rparr>) (ctl_cycle c i (sys_ctl s) (sys_world s))"

abbreviation (input) mem_of :: "sys \<Rightarrow> so101_shm" where
  "mem_of s \<equiv> shm (sys_world s)"

definition sys_safe :: "sys \<Rightarrow> bool" where
  "sys_safe s \<longleftrightarrow> sup_safe (mem_of s) \<and> torque_ok (sys_ctl s) \<and> even (shm_seq (mem_of s))"

lemma refused_only_safe: "refused_only a b \<Longrightarrow> sup_safe a \<Longrightarrow> sup_safe b"
  by (simp add: refused_only_def sup_safe_def fault_simps)

lemma sys_step_safe: "sys_step c e s = Some s' \<Longrightarrow> sys_safe s \<Longrightarrow> sys_safe s'"
proof (cases e)
  case (Client w)
  assume "sys_step c e s = Some s'" "sys_safe s"
  then show ?thesis using Client by (auto simp: sys_safe_def sup_safe_def)
next
  case (Supervise got seen now lockv)
  assume st: "sys_step c e s = Some s'" and s: "sys_safe s"
  let ?i = "sys_sup_in got seen now lockv (mem_of s)"
  obtain v mem where n: "sup_next c ?i (sys_sup s, mem_of s) = (v, mem)" by fastforce
  have "sup_safe mem" using sup_next_safe [of "(sys_sup s, mem_of s)" c ?i] n s by (simp add: sys_safe_def)
  moreover have "shm_seq mem = shm_seq (mem_of s)" using sup_next_frame [OF n] by simp
  ultimately show ?thesis using st s n Supervise by (auto simp: sys_safe_def)
next
  case (Control i)
  assume st: "sys_step c e s = Some s'" and s: "sys_safe s"
  obtain st' wd' where r: "ctl_cycle c i (sys_ctl s) (sys_world s) = Some (st', wd')"
    and s': "s' = s\<lparr>sys_ctl := st', sys_world := wd'\<rparr>" using st Control by auto
  from r obtain st1 where w: "ctl_work c i (sys_ctl s) (sys_world s) = (st1, wd')"
    and g: "ctl_grid (ctl_period c) i st1 = Some st'" by (rule ctl_cycle_cases)
  have ok: "torque_ok (sys_ctl s)" "sup_safe (mem_of s)" "even (shm_seq (mem_of s))"
    using s by (simp_all add: sys_safe_def)
  note k = ctl_work_step [OF w ok(1)]
  have "torque_ok st'" using k(1) by (simp add: torque_ok_def ctl_grid_keeps [OF g])
  then show ?thesis
    using refused_only_safe [OF k(11) ok(2)] k(10) ok(3) by (simp add: s' sys_safe_def)
qed

definition serves_reset :: "sys_event \<Rightarrow> sys \<Rightarrow> bool" where
  "serves_reset e s = (case e of Supervise got seen now lockv \<Rightarrow> got \<and> cmd_cmd (shm_cmd (mem_of s)) = SO101_CMD_RESET | _ \<Rightarrow> False)"

text \<open>The safety of the system as an invariant of its runs.\<close>

interpretation sys_loop: guarded_run "sys_step c" "\<lambda>e s. True" sys_safe
  for c
  by unfold_locales (rule sys_step_safe)

abbreviation (input) sys_run :: "so101d_ctx \<Rightarrow> sys_event list \<Rightarrow> sys \<Rightarrow> sys option" where
  "sys_run c \<equiv> opt_run (sys_step c)"

abbreviation (input) no_reset_run :: "so101d_ctx \<Rightarrow> sys_event list \<Rightarrow> sys \<Rightarrow> bool" where
  "no_reset_run c \<equiv> ok_run (sys_step c) (\<lambda>e s. \<not> serves_reset e s)"

lemma sys_run_safe: "sys_run c es s = Some s' \<Longrightarrow> sys_safe s \<Longrightarrow> sys_safe s'"
  using sys_loop.inv_run by simp

lemma control_step_off:
  assumes "sys_step c (Control i) s = Some s'" and "sys_safe s" and "shm_mode_req (mem_of s) = SO101_MODE_ESTOP"
  shows "\<not> torque (sys_ctl s') \<and> shm_mode_req (mem_of s') = SO101_MODE_ESTOP"
proof -
  obtain st' wd' where r: "ctl_cycle c i (sys_ctl s) (sys_world s) = Some (st', wd')"
    and s': "s' = s\<lparr>sys_ctl := st', sys_world := wd'\<rparr>" using assms(1) by auto
  from r obtain st1 where w: "ctl_work c i (sys_ctl s) (sys_world s) = (st1, wd')"
    and g: "ctl_grid (ctl_period c) i st1 = Some st'" by (rule ctl_cycle_cases)
  have ok: "torque_ok (sys_ctl s)" using assms(2) by (simp add: sys_safe_def)
  have "mode_wanted (sys_world s) = SO101_MODE_ESTOP" using assms(3) by (simp add: mode_wanted_def)
  then show ?thesis
    using ctl_work_step(3,11) [OF w ok] assms(3) by (simp add: s' ctl_grid_keeps [OF g] refused_only_def)
qed

lemma control_step_powered:
  assumes "sys_step c (Control i) s = Some s'" and "sys_safe s" and "torque (sys_ctl s')"
  shows "shm_mode_req (mem_of s') \<in> {SO101_MODE_TELEOP, SO101_MODE_HOLD} \<and> shm_faults (mem_of s') AND F_BLOCK_ALL = 0 \<and>
    (shm_mode_req (mem_of s') = SO101_MODE_TELEOP \<longrightarrow> shm_faults (mem_of s') AND F_BLOCK_TELEOP = 0)"
proof -
  have safe: "sup_safe (mem_of s')" using sys_step_safe [OF assms(1,2)] by (simp add: sys_safe_def)
  obtain st' wd' where r: "ctl_cycle c i (sys_ctl s) (sys_world s) = Some (st', wd')"
    and s': "s' = s\<lparr>sys_ctl := st', sys_world := wd'\<rparr>" using assms(1) by auto
  from r obtain st1 where w: "ctl_work c i (sys_ctl s) (sys_world s) = (st1, wd')"
    and g: "ctl_grid (ctl_period c) i st1 = Some st'" by (rule ctl_cycle_cases)
  have ok: "torque_ok (sys_ctl s)" using assms(2) by (simp add: sys_safe_def)
  have t: "torque st1" using assms(3) by (simp add: s' ctl_grid_keeps [OF g])
  have "applied st1 = mode_wanted (sys_world s)" "applied st1 \<in> {SO101_MODE_TELEOP, SO101_MODE_HOLD}"
    using ctl_work_step(1,2) [OF w ok] t by (simp_all add: torque_ok_def)
  then have "shm_mode_req (mem_of s) \<in> {SO101_MODE_TELEOP, SO101_MODE_HOLD}"
    by (auto simp: mode_wanted_def split: if_splits)
  then have m: "shm_mode_req (mem_of s') \<in> {SO101_MODE_TELEOP, SO101_MODE_HOLD}"
    using ctl_work_step(11) [OF w ok] by (simp add: s' refused_only_def)
  then show ?thesis using safe by (auto simp: sup_safe_def block_teleop_bits)
qed

text \<open>Under the emergency stop no event but the service of a RESET changes the mode, and torque stays off once off.\<close>

lemma estop_step:
  assumes "sys_step c e s = Some s'" and "sys_safe s" and "shm_mode_req (mem_of s) = SO101_MODE_ESTOP"
    and "\<not> serves_reset e s"
  shows "shm_mode_req (mem_of s') = SO101_MODE_ESTOP \<and> (\<not> torque (sys_ctl s) \<longrightarrow> \<not> torque (sys_ctl s'))"
proof (cases e)
  case (Client w)
  then show ?thesis using assms by auto
next
  case (Supervise got seen now lockv)
  let ?i = "sys_sup_in got seen now lockv (mem_of s)" and ?w = "shm_cmd (mem_of s)"
  have "shm_mode_req (snd (sup_pass c (?w, ?i) (sys_sup s, mem_of s))) = SO101_MODE_ESTOP"
    using assms(2-4) Supervise
    by (intro sup_pass_estop) (simp_all add: sys_safe_def no_reset_def serves_reset_def sys_sup_in_def)
  moreover have "sup_pass c (?w, ?i) (sys_sup s, mem_of s) = sup_next c ?i (sys_sup s, mem_of s)"
    by (simp add: sup_pass_def)
  moreover obtain v mem where n: "sup_next c ?i (sys_sup s, mem_of s) = (v, mem)" by fastforce
  ultimately have m: "shm_mode_req mem = SO101_MODE_ESTOP" by simp
  have "s' = s\<lparr>sys_sup := v, sys_world := (sys_world s)\<lparr>shm := mem\<rparr>\<rparr>"
    using assms(1) Supervise n by simp
  then show ?thesis using m by simp
next
  case (Control i)
  then show ?thesis using control_step_off assms by blast
qed

definition estopped :: "sys \<Rightarrow> bool" where
  "estopped s \<longleftrightarrow> sys_safe s \<and> shm_mode_req (mem_of s) = SO101_MODE_ESTOP"

definition estopped_off :: "sys \<Rightarrow> bool" where
  "estopped_off s \<longleftrightarrow> estopped s \<and> \<not> torque (sys_ctl s)"

interpretation stop_loop: guarded_run "sys_step c" "\<lambda>e s. \<not> serves_reset e s" estopped
  for c
  by unfold_locales (use estop_step sys_step_safe in \<open>auto simp: estopped_def\<close>)

interpretation off_loop: guarded_run "sys_step c" "\<lambda>e s. \<not> serves_reset e s" estopped_off
  for c
  by unfold_locales (use estop_step sys_step_safe in \<open>auto simp: estopped_def estopped_off_def\<close>)

lemma estop_run:
  assumes "sys_run c es s = Some s'" and "estopped s" and "no_reset_run c es s" and "Control i \<in> set es"
  shows "estopped_off s'"
proof -
  obtain es1 es2 where es: "es = es1 @ Control i # es2" using assms(4) by (meson split_list)
  then obtain s1 s2 where s1: "sys_run c es1 s = Some s1" and s2: "sys_step c (Control i) s1 = Some s2"
    and s3: "sys_run c es2 s2 = Some s'" using assms(1) by (auto simp: opt_run_append bind_eq_Some_conv)
  have ok: "no_reset_run c es1 s" "no_reset_run c (Control i # es2) s1"
    using ok_run_append [OF assms(3) [unfolded es] s1] by simp_all
  have e1: "estopped s1" using stop_loop.inv_run [OF assms(2) ok(1) s1] .
  then have "estopped_off s2"
    using control_step_off [OF s2] sys_step_safe [OF s2] by (auto simp: estopped_def estopped_off_def)
  moreover have "no_reset_run c es2 s2" using ok(2) s2 by (simp del: sys_step.simps)
  ultimately show ?thesis using off_loop.inv_run s3 by blast
qed

section \<open>The start\<close>

text \<open>The system when the threads start to loop, at the given readings of the clocks.\<close>

definition sys_start :: "so101d_ctx \<Rightarrow> int \<Rightarrow> int \<Rightarrow> world \<Rightarrow> sys" where
  "sys_start c now_ns now wd =
     (let (st, wd) = ctl_start c now_ns wd in \<lparr>sys_ctl = st, sys_world = wd, sys_sup = sup_init now now now\<rparr>)"

definition start_world :: "fts_bus \<Rightarrow> tty \<Rightarrow> fts_bus \<Rightarrow> tty \<Rightarrow> so101_shm \<Rightarrow> world" where
  "start_world b1 w1 b2 w2 m = \<lparr>leader = b1, leader_tty = w1, follower = b2, follower_tty = w2, shm = m\<rparr>"

lemma ctl_start_keeps: "ctl_start c now wd = (st, wd') \<Longrightarrow> st = ctl_init (now + ctl_period c) \<and> shm wd' = shm wd"
  by (auto simp: ctl_start_def Let_def split: prod.splits)

lemma daemon_start_cases:
  assumes "daemon_start files c b xl xf h = Running c' b1 w1 b2 w2 h'"
  obtains al af h1 where "c' = c\<lparr>cal_leader := al, cal_follower := af\<rparr>"
    "shm_create c' b h = (True, h1)" "sems_create c' b h1 = (True, h')"
  using assms by (auto simp: daemon_start_def Let_def split: option.splits sum.splits prod.splits if_splits)

lemma daemon_start_control_cases:
  assumes "daemon_start files c b xl xf h = ControlOnly c' b1 w1 b2 w2 h'"
  obtains al af h1 where "c' = c\<lparr>cal_leader := al, cal_follower := af\<rparr>"
    "shm_create c' b h = (True, h1)" "sems_create c' b h1 = (True, h')"
  using assms by (auto simp: daemon_start_def Let_def split: option.splits sum.splits prod.splits if_splits)

lemma started_host:
  assumes "shm_create c b h = (True, h1)" and "sems_create c b h1 = (True, h')"
  shows "h_shm h' = Some (shm_header c (b_pid b)) \<and> h_sem_lock h' = Some 1 \<and> h_sem_ready h' = Some 0 \<and>
    h_shm_mode h' = ipc_mode c"
  using assms by (auto simp: shm_create_def sems_create_def Let_def split: if_splits)

lemma daemon_start_memory:
  assumes "daemon_start files c b xl xf h = Running c' b1 w1 b2 w2 h'"
  shows "h_shm h' = Some (shm_header c' (b_pid b)) \<and> h_sem_lock h' = Some 1 \<and> h_sem_ready h' = Some 0"
    and "initial_mode c' = initial_mode c"
proof -
  obtain al af h1 where r: "c' = c\<lparr>cal_leader := al, cal_follower := af\<rparr>"
    "shm_create c' b h = (True, h1)" "sems_create c' b h1 = (True, h')" using assms by (rule daemon_start_cases)
  show "h_shm h' = Some (shm_header c' (b_pid b)) \<and> h_sem_lock h' = Some 1 \<and> h_sem_ready h' = Some 0"
    using started_host [OF r(2,3)] by simp
  show "initial_mode c' = initial_mode c" using r(1) by simp
qed

lemma shm_header_fields:
  "shm_mode_req (shm_header c p) = initial_mode c" "shm_faults (shm_header c p) = 0" "shm_seq (shm_header c p) = 0"
  "shm_s (shm_header c p) = sample_zero" "shm_sup_beat (shm_header c p) = 0" "shm_magic (shm_header c p) = SO101_SHM_MAGIC"
  "shm_version (shm_header c p) = SO101_SHM_VERSION" "shm_size (shm_header c p) = of_nat shm_total_size"
  by (simp_all add: shm_header_def shm_zero_def)

definition counters_agree :: "sys \<Rightarrow> bool" where
  "counters_agree s \<longleftrightarrow> s_cycle (smp (sys_ctl s)) = s_cycle (shm_s (mem_of s))"

lemma sys_start_safe:
  assumes "initial_mode c' \<in> {SO101_MODE_IDLE, SO101_MODE_TELEOP, SO101_MODE_HOLD}"
  shows "sys_safe (sys_start c now_ns now (start_world b1 w1 b2 w2 (shm_header c' p)))" (is "sys_safe ?s")
    and "\<not> torque (sys_ctl (sys_start c now_ns now (start_world b1 w1 b2 w2 (shm_header c' p))))"
    and "counters_agree (sys_start c now_ns now (start_world b1 w1 b2 w2 (shm_header c' p)))"
proof -
  obtain st wd where k: "ctl_start c now_ns (start_world b1 w1 b2 w2 (shm_header c' p)) = (st, wd)" by fastforce
  have s: "?s = \<lparr>sys_ctl = ctl_init (now_ns + ctl_period c), sys_world = wd, sys_sup = sup_init now now now\<rparr>"
    using ctl_start_keeps [OF k] by (simp add: sys_start_def k)
  have m: "shm wd = shm_header c' p" using ctl_start_keeps [OF k] by (simp add: start_world_def)
  have i: "\<not> torque (ctl_init n)" "smp (ctl_init n) = sample_zero" for n by (simp_all add: ctl_init_def)
  have f: "sup_safe (shm_header c' p)" using assms by (auto simp: sup_safe_def shm_header_fields)
  show "sys_safe ?s" "\<not> torque (sys_ctl ?s)" "counters_agree ?s"
    unfolding s by (simp_all add: m i f sys_safe_def torque_ok_def counters_agree_def shm_header_fields)
qed

section \<open>The counters of the watchdog\<close>

lemma raise_fault_beat: "raise_fault m b f safe why = (m', l) \<Longrightarrow> shm_sup_beat m' = shm_sup_beat m"
  by (auto simp: raise_fault_def Let_def split: if_splits)

lemma serve_command_beat: "serve_command m w = (r, m') \<Longrightarrow> shm_sup_beat m' = shm_sup_beat m"
  by (erule serve_command_cases) simp_all

lemma sup_mailbox_beat: "sup_mailbox i v m = (v', m', post, msgs) \<Longrightarrow> shm_sup_beat m' = shm_sup_beat m"
  by (auto simp: sup_mailbox_def Let_def split: if_splits prod.splits dest: serve_command_beat)

lemma checks_beat:
  "chk_stall i s v m = (v', m', l) \<Longrightarrow> shm_sup_beat m' = shm_sup_beat m"
  "chk_comm c s v m = (v', m', l) \<Longrightarrow> shm_sup_beat m' = shm_sup_beat m"
  "chk_servos c s v m = (v', m', l) \<Longrightarrow> shm_sup_beat m' = shm_sup_beat m"
  "chk_overrun i s v m = (v', m', l) \<Longrightarrow> shm_sup_beat m' = shm_sup_beat m"
  by (auto simp: chk_stall_def chk_comm_def chk_servos_def chk_overrun_def Let_def split: if_splits prod.splits dest!: raise_fault_beat)

lemma sup_next_beat:
  assumes "sup_next c i (v, m) = (v', m')"
  shows "shm_sup_beat m' = shm_sup_beat m + of_bool (in_snap i \<noteq> None)"
proof -
  obtain v1 s1 p1 l1 where m: "sup_mailbox i v m = (v1, s1, p1, l1)" by (cases "sup_mailbox i v m")
  show ?thesis
  proof (cases "in_snap i")
    case None
    then show ?thesis using assms sup_mailbox_beat [OF m] by (simp add: sup_next_eq m)
  next
    case (Some s)
    obtain v2 s2 l2 where ck: "sup_checks c i s v1 s1 = (v2, s2, l2)" by (cases "sup_checks c i s v1 s1")
    then have "shm_sup_beat s2 = shm_sup_beat s1 + 1"
      by (cases rule: sup_checks_cases) (auto dest!: checks_beat)
    then show ?thesis using assms Some sup_mailbox_beat [OF m] ck by (simp add: sup_next_eq m)
  qed
qed

text \<open>Each pass of the control thread advances the published cycle by one and each pass of the supervisor its beat.\<close>

definition n_control :: "sys_event list \<Rightarrow> nat" where
  "n_control es = length (filter (\<lambda>e. case e of Control _ \<Rightarrow> True | _ \<Rightarrow> False) es)"

definition n_supervise :: "sys_event list \<Rightarrow> nat" where
  "n_supervise es = length (filter (\<lambda>e. case e of Supervise _ seen _ _ \<Rightarrow> seen | _ \<Rightarrow> False) es)"

lemma step_counters:
  assumes "sys_step c e s = Some s'" and "sys_safe s" and "counters_agree s"
  shows "counters_agree s'" and "s_cycle (shm_s (mem_of s')) = s_cycle (shm_s (mem_of s)) + of_nat (n_control [e])"
    and "shm_sup_beat (mem_of s') = shm_sup_beat (mem_of s) + of_nat (n_supervise [e])"
proof -
  have "counters_agree s' \<and> s_cycle (shm_s (mem_of s')) = s_cycle (shm_s (mem_of s)) + of_nat (n_control [e]) \<and>
    shm_sup_beat (mem_of s') = shm_sup_beat (mem_of s) + of_nat (n_supervise [e])"
  proof (cases e)
    case (Client w)
    then show ?thesis using assms by (auto simp: counters_agree_def n_control_def n_supervise_def)
  next
    case (Supervise got seen now lockv)
    let ?i = "sys_sup_in got seen now lockv (mem_of s)"
    obtain v mem where n: "sup_next c ?i (sys_sup s, mem_of s) = (v, mem)" by fastforce
    have s': "s' = s\<lparr>sys_sup := v, sys_world := (sys_world s)\<lparr>shm := mem\<rparr>\<rparr>" using assms(1) Supervise n by simp
    have "in_snap ?i = (if seen then Some (shm_s (mem_of s)) else None)"
      using assms(2) shm_read_even [of "mem_of s" 99] by (simp add: sys_sup_in_def sys_safe_def bit_0 numeral_eq_Suc)
    then have "shm_sup_beat mem = shm_sup_beat (mem_of s) + of_bool seen"
      using sup_next_beat [OF n] by (cases seen) simp_all
    with sup_next_frame [OF n] show ?thesis
      using assms(3) Supervise by (simp add: s' counters_agree_def n_control_def n_supervise_def)
  next
    case (Control i)
    obtain st' wd' where r: "ctl_cycle c i (sys_ctl s) (sys_world s) = Some (st', wd')"
      and s': "s' = s\<lparr>sys_ctl := st', sys_world := wd'\<rparr>" using assms(1) Control by auto
    from r obtain st1 where w: "ctl_work c i (sys_ctl s) (sys_world s) = (st1, wd')"
      and g: "ctl_grid (ctl_period c) i st1 = Some st'" by (rule ctl_cycle_cases)
    have ok: "torque_ok (sys_ctl s)" using assms(2) by (simp add: sys_safe_def)
    show ?thesis
      using ctl_work_step(8,9,11) [OF w ok] assms(3) Control
      by (simp add: s' ctl_grid_keeps [OF g] counters_agree_def refused_only_def n_control_def n_supervise_def)
  qed
  then show "counters_agree s'" and "s_cycle (shm_s (mem_of s')) = s_cycle (shm_s (mem_of s)) + of_nat (n_control [e])"
    and "shm_sup_beat (mem_of s') = shm_sup_beat (mem_of s) + of_nat (n_supervise [e])" by blast+
qed

lemma n_events_Cons: "n_control (e # es) = n_control [e] + n_control es" "n_supervise (e # es) = n_supervise [e] + n_supervise es"
  by (simp_all add: n_control_def n_supervise_def)

lemma run_counters:
  "sys_run c es s = Some s' \<Longrightarrow> sys_safe s \<Longrightarrow> counters_agree s \<Longrightarrow>
    s_cycle (shm_s (mem_of s')) = s_cycle (shm_s (mem_of s)) + of_nat (n_control es) \<and>
    shm_sup_beat (mem_of s') = shm_sup_beat (mem_of s) + of_nat (n_supervise es)"
proof (induction es arbitrary: s)
  case Nil
  then show ?case by (simp add: n_control_def n_supervise_def)
next
  case (Cons e es)
  then obtain t where t: "sys_step c e s = Some t" "sys_run c es t = Some s'" by (auto simp: bind_eq_Some_conv)
  note k = step_counters [OF t(1) Cons.prems(2,3)]
  have "s_cycle (shm_s (mem_of s')) = s_cycle (shm_s (mem_of t)) + of_nat (n_control es) \<and>
      shm_sup_beat (mem_of s') = shm_sup_beat (mem_of t) + of_nat (n_supervise es)"
    using Cons.IH [OF t(2) sys_step_safe [OF t(1) Cons.prems(2)] k(1)] .
  then show ?case using k(2,3) by (simp add: n_events_Cons [of e es] add.assoc)
qed

end
