(* ===== verification/Daemon_Props.thy ===== *)
theory Daemon_Props
  imports System Feetech_Protocol
begin

text \<open>
  Properties of the daemon's main thread: what the options it accepts guarantee, the state from which the
  threads start, the second instance, the watchdog and the shutdown. First a start with concrete
  files and ports for their instances.
\<close>

definition ex_line :: termios where
  "ex_line = \<lparr>tio_flags = {}, tio_vmin = 0, tio_vtime = 0, tio_ispeed = None, tio_ospeed = None\<rparr>"

definition ex_tty :: tty where
  "ex_tty = \<lparr>tty_now = 0, tty_ticks = [], tty_polls = [], tty_reads = [], tty_writes = replicate 6 (WriteBytes 99),
     tty_opens = [OpenFd 3 (Some ex_line) True], tty_waits = [], tty_wire = [], tty_fds = {}, tty_paths = [], tty_tio = None\<rparr>"

definition ex_opened :: "string \<Rightarrow> tty" where
  "ex_opened p = ex_tty\<lparr>tty_opens := [], tty_fds := {3}, tty_paths := [p], tty_tio := Some (raw_termios B1000000 ex_line)\<rparr>"

definition ex_bus :: fts_bus where
  "ex_bus = bus_zero\<lparr>fd := 3, timeout_ms := 4, echo := False\<rparr>"

definition ex_opts :: "(char \<times> string) list" where
  "ex_opts = [(CHR ''L'', ''a.json''), (CHR ''F'', ''a.json''), (CHR ''m'', ''hold'')]"

definition ex_conf :: so101d_ctx where
  "ex_conf = ctx_default\<lparr>leader_calib := Some ''a.json'', follower_calib := Some ''a.json'', initial_mode := SO101_MODE_HOLD\<rparr>"

definition ex_full :: so101d_ctx where
  "ex_full = ex_conf\<lparr>cal_leader := ex_arm, cal_follower := ex_arm\<rparr>"

definition ex_boot :: boot where
  "ex_boot = \<lparr>b_pid = 77, b_shm_open = True, b_flock = True, b_fchown = True, b_ftruncate = True, b_mmap = True,
     b_unlink_lock = True, b_unlink_ready = True, b_open_lock = True, b_open_ready = True, b_chown_sem = True,
     b_ctl = (\<lambda>a. True), b_sup = (\<lambda>a. True)\<rparr>"

definition ex_host :: host where
  "ex_host = \<lparr>h_shm = None, h_shm_gid = None, h_shm_mode = 0, h_sem_lock = Some 0, h_sem_ready = None, h_sem_gid = None\<rparr>"

definition ex_up :: host where
  "ex_up = ex_host\<lparr>h_shm := Some (shm_header ex_full 77), h_shm_mode := 438, h_sem_lock := Some 1, h_sem_ready := Some 0\<rparr>"

lemma ex_opts_ok: "parse_opts (\<lambda>g. None) ex_opts ctx_default = OptOk ex_conf"
  by (simp add: ex_opts_def ex_conf_def parse_opt_def parse_mode_def ctx_default_def)

lemma ex_conf_fields:
  "leader_calib ex_conf = Some ''a.json''" "follower_calib ex_conf = Some ''a.json''"
  "ex_conf\<lparr>cal_leader := ex_arm, cal_follower := ex_arm\<rparr> = ex_full" "leader_port ex_full = ''/dev/so101_leader''"
  "follower_port ex_full = ''/dev/so101_follower''" "ipc_gid ex_full = None" "ipc_mode ex_full = 438"
  "bus_timeout_ms ex_full = 4" "ctx_echo ex_full = False" "initial_mode ex_full = SO101_MODE_HOLD"
  by (simp_all add: ex_full_def) (simp_all add: ex_conf_def ctx_default_def)

lemma ex_open: "open_bus p ex_full ex_tty = (0, ex_bus, ex_opened p)"
  by (simp add: open_bus_def fts_open_def sys_open_def baud_to_speed_def ex_tty_def ex_bus_def ex_opened_def ex_conf_fields)

lemma ex_start:
  "daemon_start (\<lambda>p. Some ex_file) ex_conf ex_boot ex_tty ex_tty ex_host =
   Running ex_full ex_bus (ex_opened ''/dev/so101_leader'') ex_bus (ex_opened ''/dev/so101_follower'') ex_up"
proof -
  have b: "b_ctl ex_boot a" "b_sup ex_boot a" for a by (simp_all add: ex_boot_def)
  have s: "shm_create ex_full ex_boot ex_host = (True, ex_host\<lparr>h_shm := Some (shm_header ex_full 77), h_shm_mode := 438\<rparr>)"
    by (simp add: shm_create_def ex_boot_def ex_host_def Let_def ex_conf_fields)
  have t: "sems_create ex_full ex_boot (ex_host\<lparr>h_shm := Some (shm_header ex_full 77), h_shm_mode := 438\<rparr>) = (True, ex_up)"
    by (simp add: sems_create_def ex_boot_def ex_host_def ex_up_def Let_def ex_conf_fields)
  show ?thesis
    by (simp add: daemon_start_def ex_conf_fields ex_file_loads Let_def ex_open s t b)
qed


section \<open>Start\<close>

lemma parse_opt_keeps:
  assumes "parse_opt g x c = OptOk c'" and "initial_mode c \<in> {SO101_MODE_IDLE, SO101_MODE_TELEOP, SO101_MODE_HOLD}"
    and "(ipc_gid c = None \<and> ipc_mode c = 438) \<or> (ipc_gid c \<noteq> None \<and> ipc_mode c = 432)"
  shows "initial_mode c' \<in> {SO101_MODE_IDLE, SO101_MODE_TELEOP, SO101_MODE_HOLD} \<and>
    ((ipc_gid c' = None \<and> ipc_mode c' = 438) \<or> (ipc_gid c' \<noteq> None \<and> ipc_mode c' = 432))"
  using assms by (auto simp: parse_opt_def parse_mode_def split: prod.splits if_splits option.splits)

lemma parse_opts_keeps:
  "parse_opts g opts c = OptOk c' \<Longrightarrow> initial_mode c \<in> {SO101_MODE_IDLE, SO101_MODE_TELEOP, SO101_MODE_HOLD} \<Longrightarrow>
    (ipc_gid c = None \<and> ipc_mode c = 438) \<or> (ipc_gid c \<noteq> None \<and> ipc_mode c = 432) \<Longrightarrow>
    initial_mode c' \<in> {SO101_MODE_IDLE, SO101_MODE_TELEOP, SO101_MODE_HOLD} \<and>
    ((ipc_gid c' = None \<and> ipc_mode c' = 438) \<or> (ipc_gid c' \<noteq> None \<and> ipc_mode c' = 432)) \<and>
    leader_calib c' \<noteq> None \<and> follower_calib c' \<noteq> None \<and> 0 < freq c' \<and> 0 < max_step c' \<and> 0 < ramp_step c'"
proof (induction opts arbitrary: c)
  case Nil
  then show ?case by (auto split: if_splits)
next
  case (Cons x xs)
  then obtain c1 where c1: "parse_opt g x c = OptOk c1" "parse_opts g xs c1 = OptOk c'"
    by (auto split: opt_result.splits)
  then show ?case using Cons.IH [OF c1(2)] parse_opt_keeps [OF c1(1) Cons.prems(2,3)] by blast
qed

text \<open>A command line the daemon accepts names both calibration files, has a positive rate and positive step
  limits, starts in IDLE, TELEOP or HOLD and never in ESTOP, and opens the shared objects to everybody
  (0666) exactly when no group was given (0660 otherwise).\<close>

theorem options_checked:
  assumes "parse_opts g opts ctx_default = OptOk c"
  shows "leader_calib c \<noteq> None \<and> follower_calib c \<noteq> None \<and> 0 < freq c \<and> 0 < max_step c \<and> 0 < ramp_step c \<and>
    initial_mode c \<in> {SO101_MODE_IDLE, SO101_MODE_TELEOP, SO101_MODE_HOLD} \<and>
    ipc_mode c = (if ipc_gid c = None then 438 else 432)"
  using parse_opts_keeps [OF assms] by (auto simp: ctx_default_def)

theorem options_checked_witness: "initial_mode ex_conf \<in> {SO101_MODE_IDLE, SO101_MODE_TELEOP, SO101_MODE_HOLD} \<and> 0 < freq ex_conf"
  using options_checked [OF ex_opts_ok] by blast

text \<open>C17. A daemon that gets its threads running starts safe: the mode requested is the one asked for and no fault is
  set, torque is off, the mailbox is free (lock 1, nothing announced), the header carries the magic number,
  version and size clients check, and the counters the watchdog compares agree.\<close>

theorem start_safe:
  assumes "parse_opts g opts ctx_default = OptOk c0"
    and "daemon_start files c0 b xl xf h = Running c b1 w1 b2 w2 h'" and "h_shm h' = Some m"
  shows "sys_safe (sys_start c t0 t1 (start_world b1 w1 b2 w2 m)) \<and> counters_agree (sys_start c t0 t1 (start_world b1 w1 b2 w2 m)) \<and>
    \<not> torque (sys_ctl (sys_start c t0 t1 (start_world b1 w1 b2 w2 m))) \<and>
    shm_mode_req m = initial_mode c0 \<and> shm_faults m = 0 \<and> h_sem_lock h' = Some 1 \<and> h_sem_ready h' = Some 0 \<and>
    shm_magic m = SO101_SHM_MAGIC \<and> shm_version m = SO101_SHM_VERSION \<and> shm_size m = of_nat shm_total_size"
proof -
  have i: "initial_mode c0 \<in> {SO101_MODE_IDLE, SO101_MODE_TELEOP, SO101_MODE_HOLD}"
    using parse_opts_keeps [OF assms(1)] by (simp add: ctx_default_def)
  note d = daemon_start_memory [OF assms(2)]
  have m: "m = shm_header c (b_pid b)" using d(1) assms(3) by simp
  show ?thesis
    unfolding m using d i by (simp add: sys_start_safe shm_header_fields)
qed

theorem start_safe_witness:
  "sys_safe (sys_start ex_full 0 0 (start_world ex_bus (ex_opened ''/dev/so101_leader'') ex_bus (ex_opened ''/dev/so101_follower'')
     (shm_header ex_full 77)))"
  using start_safe [OF ex_opts_ok ex_start, of "shm_header ex_full 77"] by (simp add: ex_up_def)

text \<open>A second daemon does no harm to a running one's interface: when the lock on the shared memory is held by another
  process the start ends with code 1, and the memory, its rights and both semaphores are as before.\<close>

theorem second_instance_harmless:
  assumes "\<not> b_flock b" and "h_shm h = Some m" and "leader_calib c \<noteq> None" and "follower_calib c \<noteq> None"
  shows "daemon_start files c b xl xf h = Exit 1 h"
proof -
  obtain lp fp where "leader_calib c = Some lp" "follower_calib c = Some fp" using assms(3,4) by auto
  moreover have "shm_create c' b h = (False, h)" for c' using assms(1,2) by (simp add: shm_create_def)
  ultimately show ?thesis by (auto simp: daemon_start_def Let_def split: sum.splits prod.splits)
qed

theorem second_instance_harmless_witness:
  "daemon_start (\<lambda>p. Some ex_file) ex_conf (ex_boot\<lparr>b_flock := False\<rparr>) ex_tty ex_tty ex_up = Exit 1 ex_up"
  using second_instance_harmless [of "ex_boot\<lparr>b_flock := False\<rparr>" ex_up "shm_header ex_full 77" ex_conf]
  by (simp add: ex_up_def ex_conf_fields)

section \<open>Watchdog\<close>

lemma dog_reads:
  assumes "even (shm_seq m)"
  shows "dog_check m d =
    (let s = shm_s m; alive = (s_cycle s \<noteq> dog_cycle d \<and> shm_sup_beat m \<noteq> dog_beat d)
     in (\<lparr>dog_cycle = s_cycle s, dog_beat = shm_sup_beat m, dog_healthy = alive\<rparr>, snd (dog_check m d)))"
    and "pings (snd (dog_check m d)) = (s_cycle (shm_s m) \<noteq> dog_cycle d \<and> shm_sup_beat m \<noteq> dog_beat d)"
proof -
  have "so101_shm_read m 100 = Some (0, shm_s m)"
    using shm_read_even [of m 99] assms by (simp add: bit_0 numeral_eq_Suc)
  then show "dog_check m d =
    (let s = shm_s m; alive = (s_cycle s \<noteq> dog_cycle d \<and> shm_sup_beat m \<noteq> dog_beat d)
     in (\<lparr>dog_cycle = s_cycle s, dog_beat = shm_sup_beat m, dog_healthy = alive\<rparr>, snd (dog_check m d)))"
    "pings (snd (dog_check m d)) = (s_cycle (shm_s m) \<noteq> dog_cycle d \<and> shm_sup_beat m \<noteq> dog_beat d)"
    by (simp_all add: dog_check_def Let_def pings_def)
qed

lemma u64_count: "n < 2 ^ 64 \<Longrightarrow> (x + of_nat n = (x :: u64)) = (n = 0)"
  by (auto simp: word_of_nat_eq_0_iff dest: nat_dvd_not_less)

text \<open>C15. systemd is pinged exactly while both threads live. Between two checks of the main thread on a safe system,
  the second check sends the ping if and only if the control thread completed a pass and the supervisor completed
  a pass with a snapshot in between (fewer than 2^64 events); so one hanging thread ends the pings at the next check.\<close>

theorem watchdog_exact:
  assumes "sys_safe s" and "counters_agree s" and "sys_run c es s = Some s'" and "length es < 2 ^ 64"
  shows "pings (snd (dog_check (shm (sys_world s')) (fst (dog_check (shm (sys_world s)) d)))) =
    ((\<exists>i. Control i \<in> set es) \<and> (\<exists>got now lockv. Supervise got True now lockv \<in> set es))"
proof -
  note k = run_counters [OF assms(3,1,2)]
  have e: "even (shm_seq (shm (sys_world s)))" "even (shm_seq (shm (sys_world s')))"
    using sys_run_safe [OF assms(3,1)] assms(1) by (simp_all add: sys_safe_def)
  have b: "n_control es < 2 ^ 64" "n_supervise es < 2 ^ 64"
    using assms(4) length_filter_le order.strict_trans1 unfolding n_control_def n_supervise_def by blast+
  have z: "(n_control es \<noteq> 0) = (\<exists>i. Control i \<in> set es)" "(n_supervise es \<noteq> 0) = (\<exists>got now lockv. Supervise got True now lockv \<in> set es)"
    unfolding n_control_def n_supervise_def
    by (induction es) (auto split: sys_event.splits)
  let ?d = "fst (dog_check (shm (sys_world s)) d)"
  have d: "dog_cycle ?d = s_cycle (shm_s (shm (sys_world s)))" "dog_beat ?d = shm_sup_beat (shm (sys_world s))"
    by (subst dog_reads(1) [OF e(1)], simp add: Let_def)+
  show ?thesis
    unfolding dog_reads(2) [OF e(2)] d using k u64_count [OF b(1)] u64_count [OF b(2)] z by auto
qed

theorem watchdog_exact_witness:
  "\<exists>s'. sys_run ex_full [Supervise False True 5 1] (sys_start ex_full 0 0 (start_world ex_bus ex_tty ex_bus ex_tty (shm_header ex_full 77))) = Some s' \<and>
     \<not> pings (snd (dog_check (shm (sys_world s')) (fst (dog_check (shm_header ex_full 77) dog_init))))"
proof -
  let ?w = "start_world ex_bus ex_tty ex_bus ex_tty (shm_header ex_full 77)"
  let ?s = "sys_start ex_full 0 0 ?w"
  obtain v mem where "sup_next ex_full (sys_sup_in False True 5 1 (shm (sys_world ?s))) (sys_sup ?s, shm (sys_world ?s)) = (v, mem)"
    by fastforce
  then obtain s' where s': "sys_run ex_full [Supervise False True 5 1] ?s = Some s'" by simp
  have "initial_mode ex_full \<in> {SO101_MODE_IDLE, SO101_MODE_TELEOP, SO101_MODE_HOLD}" by (simp add: ex_conf_fields)
  note ok = sys_start_safe [OF this, of ex_full 0 0 ex_bus ex_tty ex_bus ex_tty 77]
  obtain st wd where k: "ctl_start ex_full 0 ?w = (st, wd)" by fastforce
  have "shm (sys_world ?s) = shm_header ex_full 77"
    using ctl_start_keeps [OF k] by (simp add: sys_start_def k) (simp add: start_world_def)
  then show ?thesis using watchdog_exact [OF ok(1,3) s', of dog_init] s' by simp
qed

section \<open>Shutdown\<close>

text \<open>After the shutdown nothing of the daemon is left: the names of the memory and of both semaphores are removed, both
  ports are closed, clients that still map the memory see that the daemon is gone, and the snapshot is untouched.\<close>

theorem stop_cleans_up:
  assumes "daemon_stop wd h = (wd', h')"
  shows "h_shm h' = None \<and> h_sem_lock h' = None \<and> h_sem_ready h' = None \<and> shm_magic (shm wd') \<noteq> SO101_SHM_MAGIC \<and>
    fd (leader wd') = -1 \<and> fd (follower wd') = -1 \<and>
    (0 \<le> fd (follower wd) \<longrightarrow> nat (fd (follower wd)) \<notin> tty_fds (follower_tty wd')) \<and>
    (0 \<le> fd (leader wd) \<longrightarrow> nat (fd (leader wd)) \<notin> tty_fds (leader_tty wd')) \<and> shm_s (shm wd') = shm_s (shm wd)"
  using assms by (auto simp: daemon_stop_def sems_destroy_def fts_close_def sys_close_def Let_def)

theorem stop_cleans_up_witness:
  "\<exists>wd' h'. daemon_stop (start_world ex_bus (ex_opened ''l'') ex_bus (ex_opened ''f'') (shm_header ex_full 77)) ex_up = (wd', h') \<and>
     h_shm h' = None \<and> 3 \<notin> tty_fds (follower_tty wd')"
proof -
  let ?w = "start_world ex_bus (ex_opened ''l'') ex_bus (ex_opened ''f'') (shm_header ex_full 77)"
  obtain wd' h' where r: "daemon_stop ?w ex_up = (wd', h')" by fastforce
  from stop_cleans_up [OF r] show ?thesis
    using r by (auto simp: start_world_def ex_bus_def)
qed

end
