(* ===== verification/Ports.thy ===== *)
theory Ports
  imports Control_Lemmas
begin

text \<open>
  The ports of the control thread over its whole run: each bus owns exactly the descriptor it uses, however often
  it is closed and opened again, and a bus that does not answer is opened again at a fixed rate. The
  retry logic is the same for both buses in \<^verbatim>\<open>daemon/src/control.c\<close>; it is proved once, in a locale.
\<close>

section \<open>Ownership of the descriptors\<close>

definition owns :: "fts_bus \<Rightarrow> tty \<Rightarrow> bool" where
  "owns bus w \<longleftrightarrow> - 1 \<le> fd bus \<and> tty_fds w = (if 0 \<le> fd bus then {nat (fd bus)} else {})"

lemma port_ext_owns: "port_ext bus w bus' w' \<Longrightarrow> owns bus' w' = owns bus w \<and> tty_paths w' = tty_paths w"
  by (simp add: port_ext_def same_settings_def tty_ext_def owns_def)

lemma set_torque_ext: "set_torque bus ids on w = (rc, bus', w') \<Longrightarrow> port_ext bus w bus' w'"
  by (auto simp: set_torque_def dest: fts_sync_write_ext)

lemma write_goal_ext: "write_goal bus ids g w = (rc, bus', w') \<Longrightarrow> port_ext bus w bus' w'"
  by (auto simp: write_goal_def dest: fts_sync_write_ext)

lemma servo_send_ext: "servo_send ids cmd (bus, w) = (ok, bus', w') \<Longrightarrow> port_ext bus w bus' w'"
  by (cases cmd) (auto simp: servo_send_def split: prod.splits dest: set_torque_ext write_goal_ext)

lemma close_owns: "fts_close bus w = (bus', w') \<Longrightarrow> owns bus w \<Longrightarrow> fd bus' = - 1 \<and> tty_fds w' = {} \<and> tty_paths w' = tty_paths w"
  by (auto simp: fts_close_def owns_def sys_close_def Let_def split: if_splits)

lemma open_owns:
  "fts_open path 1000000 w = (rc, bus, w') \<Longrightarrow> tty_fds w = {} \<Longrightarrow> owns bus w' \<and> tty_paths w' = tty_paths w @ [path]"
  by (auto simp: fts_open_def baud_to_speed_def sys_open_def sys_close_def owns_def Let_def
      split: list.splits open_ans.splits option.splits if_splits)

lemma reopen_owns:
  assumes "reopen_bus bus path w = (bus', w')" and "owns bus w"
  shows "owns bus' w' \<and> tty_paths w' = tty_paths w @ [path]"
proof -
  obtain b1 w1 where c: "fts_close bus w = (b1, w1)" by fastforce
  obtain rc b2 w2 where o: "fts_open path 1000000 w1 = (rc, b2, w2)" by (cases "fts_open path 1000000 w1")
  show ?thesis
    using assms c o close_owns [OF c] open_owns [OF o] by (auto simp: reopen_bus_def owns_def Let_def)
qed

section \<open>What a pass does to the ports\<close>

abbreviation (input) due :: "u16 \<Rightarrow> u64 \<Rightarrow> u64 \<Rightarrow> bool" where
  "due streak cycle retry \<equiv> REOPEN_AFTER \<le> unat streak \<and> retry \<le> cycle"

lemma ctl_leader_port:
  assumes "ctl_leader c st wd = (st', wd')" and "owns (leader wd) (leader_tty wd)"
  shows "owns (leader wd') (leader_tty wd')"
    and "s_leader_streak (smp st') = streak_next (s_leader_ok (smp st')) (s_leader_streak (smp st))"
    and "retry_l st' = (if due (s_leader_streak (smp st')) (s_cycle (smp st')) (retry_l st) then s_cycle (smp st') + 50 else retry_l st)"
    and "tty_paths (leader_tty wd') = tty_paths (leader_tty wd) @
      (if due (s_leader_streak (smp st')) (s_cycle (smp st')) (retry_l st) then [leader_port c] else [])"
    and "retry_f st' = retry_f st" "s_follower_ok (smp st') = s_follower_ok (smp st)" "s_follower_streak (smp st') = s_follower_streak (smp st)"
proof -
  obtain rc out b w where r: "fts_sync_read (leader wd) (ids_l c) STS_PRESENT_POSITION 2 (Some (bl st)) (leader_tty wd) = (rc, out, b, w)"
    by (cases "fts_sync_read (leader wd) (ids_l c) STS_PRESENT_POSITION 2 (Some (bl st)) (leader_tty wd)")
  obtain b1 w1 where re: "reopen_bus b (leader_port c) w = (b1, w1)" by fastforce
  obtain rc2 b2 w2 where t: "set_torque b1 (ids_l c) False w1 = (rc2, b2, w2)" by (cases "set_torque b1 (ids_l c) False w1")
  have o: "owns b w" "tty_paths w = tty_paths (leader_tty wd)" using port_ext_owns [OF fts_sync_read_ext [OF r]] assms(2) by simp_all
  have o2: "owns b2 w2" "tty_paths w2 = tty_paths (leader_tty wd) @ [leader_port c]"
    using reopen_owns [OF re o(1)] port_ext_owns [OF set_torque_ext [OF t]] o(2) by simp_all
  note d = ctl_leader_def [of c st wd] leader_decode_def Let_def r re t
  show "owns (leader wd') (leader_tty wd')"
    "s_leader_streak (smp st') = streak_next (s_leader_ok (smp st')) (s_leader_streak (smp st))"
    "retry_l st' = (if due (s_leader_streak (smp st')) (s_cycle (smp st')) (retry_l st) then s_cycle (smp st') + 50 else retry_l st)"
    "tty_paths (leader_tty wd') = tty_paths (leader_tty wd) @
      (if due (s_leader_streak (smp st')) (s_cycle (smp st')) (retry_l st) then [leader_port c] else [])"
    "retry_f st' = retry_f st" "s_follower_ok (smp st') = s_follower_ok (smp st)" "s_follower_streak (smp st') = s_follower_streak (smp st)"
    using assms(1) o o2 by (auto simp: d split: if_splits)
qed

lemma ctl_follower_port:
  assumes "ctl_follower c st wd = (st', wd')" and "owns (follower wd) (follower_tty wd)"
  shows "owns (follower wd') (follower_tty wd')"
    and "s_follower_streak (smp st') = streak_next (s_follower_ok (smp st')) (s_follower_streak (smp st))"
    and "retry_f st' = (if due (s_follower_streak (smp st')) (s_cycle (smp st')) (retry_f st) then s_cycle (smp st') + 50 else retry_f st)"
    and "tty_paths (follower_tty wd') = tty_paths (follower_tty wd) @
      (if due (s_follower_streak (smp st')) (s_cycle (smp st')) (retry_f st) then [follower_port c] else [])"
    and "due (s_follower_streak (smp st')) (s_cycle (smp st')) (retry_f st) \<longrightarrow> \<not> torque st'"
    and "retry_l st' = retry_l st" "s_leader_streak (smp st') = s_leader_streak (smp st)"
proof -
  obtain rc out b w where r: "fts_sync_read (follower wd) (ids_f c) STS_PRESENT_POSITION 8 (Some (bf st)) (follower_tty wd) = (rc, out, b, w)"
    by (cases "fts_sync_read (follower wd) (ids_f c) STS_PRESENT_POSITION 8 (Some (bf st)) (follower_tty wd)")
  obtain b1 w1 where re: "reopen_bus b (follower_port c) w = (b1, w1)" by fastforce
  obtain rc2 b2 w2 where t: "set_torque b1 (ids_f c) False w1 = (rc2, b2, w2)" by (cases "set_torque b1 (ids_f c) False w1")
  have o: "owns b w" "tty_paths w = tty_paths (follower_tty wd)" using port_ext_owns [OF fts_sync_read_ext [OF r]] assms(2) by simp_all
  have o2: "owns b2 w2" "tty_paths w2 = tty_paths (follower_tty wd) @ [follower_port c]"
    using reopen_owns [OF re o(1)] port_ext_owns [OF set_torque_ext [OF t]] o(2) by simp_all
  note d = ctl_follower_def [of c st wd] follower_decode_def Let_def r re t
  show "owns (follower wd') (follower_tty wd')"
    "s_follower_streak (smp st') = streak_next (s_follower_ok (smp st')) (s_follower_streak (smp st))"
    "retry_f st' = (if due (s_follower_streak (smp st')) (s_cycle (smp st')) (retry_f st) then s_cycle (smp st') + 50 else retry_f st)"
    "tty_paths (follower_tty wd') = tty_paths (follower_tty wd) @
      (if due (s_follower_streak (smp st')) (s_cycle (smp st')) (retry_f st) then [follower_port c] else [])"
    "due (s_follower_streak (smp st')) (s_cycle (smp st')) (retry_f st) \<longrightarrow> \<not> torque st'"
    "retry_l st' = retry_l st" "s_leader_streak (smp st') = s_leader_streak (smp st)"
    using assms(1) o o2 by (auto simp: d split: if_splits)
qed

text \<open>The later phases and the next slot leave all of it alone, up to frames on the follower's wire.\<close>

lemma ctl_mode_port:
  assumes "ctl_mode c st wd = (st', wd')"
  shows "port_ext (follower wd) (follower_tty wd) (follower wd') (follower_tty wd')"
    and "leader wd' = leader wd" "leader_tty wd' = leader_tty wd" "smp st' = smp st" "retry_l st' = retry_l st" "retry_f st' = retry_f st"
proof -
  have "port_ext (follower wd) (follower_tty wd) (follower wd') (follower_tty wd') \<and> leader wd' = leader wd \<and>
      leader_tty wd' = leader_tty wd \<and> smp st' = smp st \<and> retry_l st' = retry_l st \<and> retry_f st' = retry_f st"
    using assms
  proof (cases rule: ctl_mode_cases)
    case (Enabled b1 w1 b2 w2 ok1 ok2)
    have "port_ext (follower wd) (follower_tty wd) b2 w2"
      using servo_send_ext [OF Enabled(6)] servo_send_ext [OF Enabled(7)] by (rule port_ext_trans)
    then show ?thesis using Enabled(5,8) by simp
  next
    case (Off b w ok)
    then show ?thesis using servo_send_ext [OF Off(5)] by simp
  qed simp_all
  then show "port_ext (follower wd) (follower_tty wd) (follower wd') (follower_tty wd')"
    and "leader wd' = leader wd" "leader_tty wd' = leader_tty wd" "smp st' = smp st" "retry_l st' = retry_l st" "retry_f st' = retry_f st"
    by blast+
qed

lemma ctl_mode_torque: "ctl_mode c st wd = (st', wd') \<Longrightarrow> torque st' \<Longrightarrow> \<not> s_follower_ok (smp st) \<Longrightarrow> torque st"
  by (erule ctl_mode_cases) simp_all

lemma ctl_goal_port:
  assumes "ctl_goal c st wd = (st', wd')"
  shows "port_ext (follower wd) (follower_tty wd) (follower wd') (follower_tty wd') \<and> retry_l st' = retry_l st \<and> retry_f st' = retry_f st"
  using assms by (auto simp: ctl_goal_def Let_def split: prod.splits if_splits dest!: write_goal_ext)

lemma with_max_port [simp]:
  "s_leader_streak (with_max s) = s_leader_streak s" "s_follower_streak (with_max s) = s_follower_streak s"
  "s_leader_ok (with_max s) = s_leader_ok s"
  by (simp_all add: with_max_def Let_def)

lemma ctl_publish_port:
  assumes "ctl_publish i st wd = (st', wd')"
  shows "retry_l st' = retry_l st \<and> retry_f st' = retry_f st \<and> s_leader_streak (smp st') = s_leader_streak (smp st) \<and>
    s_follower_streak (smp st') = s_follower_streak (smp st) \<and> s_leader_ok (smp st') = s_leader_ok (smp st)"
  using assms by (auto simp: ctl_publish_def Let_def)

lemma ctl_grid_port:
  assumes "ctl_grid p i st = Some st'"
  shows "retry_l st' = retry_l st \<and> retry_f st' = retry_f st \<and> s_leader_streak (smp st') = s_leader_streak (smp st) \<and>
    s_follower_streak (smp st') = s_follower_streak (smp st) \<and> s_leader_ok (smp st') = s_leader_ok (smp st)"
  using assms by (auto simp: ctl_grid_def Let_def split: if_splits option.splits)

definition owned :: "world \<Rightarrow> bool" where
  "owned wd \<longleftrightarrow> owns (leader wd) (leader_tty wd) \<and> owns (follower wd) (follower_tty wd)"

lemma ctl_cycle_port:
  assumes "ctl_cycle c i st wd = Some (st', wd')" and "owned wd"
  shows "owned wd'"
    and "s_cycle (smp st') = s_cycle (smp st) + 1"
    and "s_leader_streak (smp st') = streak_next (s_leader_ok (smp st')) (s_leader_streak (smp st))"
    and "retry_l st' = (if due (s_leader_streak (smp st')) (s_cycle (smp st')) (retry_l st) then s_cycle (smp st') + 50 else retry_l st)"
    and "tty_paths (leader_tty wd') = tty_paths (leader_tty wd) @
      (if due (s_leader_streak (smp st')) (s_cycle (smp st')) (retry_l st) then [leader_port c] else [])"
    and "s_follower_streak (smp st') = streak_next (s_follower_ok (smp st')) (s_follower_streak (smp st))"
    and "retry_f st' = (if due (s_follower_streak (smp st')) (s_cycle (smp st')) (retry_f st) then s_cycle (smp st') + 50 else retry_f st)"
    and "tty_paths (follower_tty wd') = tty_paths (follower_tty wd) @
      (if due (s_follower_streak (smp st')) (s_cycle (smp st')) (retry_f st) then [follower_port c] else [])"
    and "torque st' \<and> \<not> s_follower_ok (smp st') \<longrightarrow> torque st \<and> \<not> due (s_follower_streak (smp st')) (s_cycle (smp st')) (retry_f st)"
proof -
  obtain st5 where w: "ctl_work c i st wd = (st5, wd')" and gr: "ctl_grid (ctl_period c) i st5 = Some st'"
    using assms(1) by (rule ctl_cycle_cases)
  obtain st1 wd1 st2 wd2 st3 wd3 st4 wd4 where
    1: "ctl_leader c (ctl_wake i st) wd = (st1, wd1)" "ctl_follower c st1 wd1 = (st2, wd2)"
      "ctl_mode c st2 wd2 = (st3, wd3)" "ctl_goal c st3 wd3 = (st4, wd4)" "ctl_publish i st4 wd4 = (st5, wd')"
    using w by (rule ctl_work_cases)
  have ol: "owns (leader wd) (leader_tty wd)" and "owns (follower wd) (follower_tty wd)" using assms(2) by (simp_all add: owned_def)
  then have of: "owns (follower wd1) (follower_tty wd1)" using ctl_leader_keeps [OF 1(1)] by simp
  note l = ctl_leader_port [OF 1(1) ol] and lk = ctl_leader_keeps [OF 1(1)]
    and f = ctl_follower_port [OF 1(2) of] and fk = ctl_follower_keeps [OF 1(2)] and m = ctl_mode_port [OF 1(3)]
    and g = ctl_goal_port [OF 1(4)] and gk = ctl_goal_keeps [OF 1(4)]
    and p = ctl_publish_port [OF 1(5)] and pk = ctl_publish_keeps [OF 1(5)]
    and r = ctl_grid_port [OF gr] and rk = ctl_grid_keeps [OF gr]
  have wk: "s_leader_streak (smp (ctl_wake i st)) = s_leader_streak (smp st)" "s_follower_streak (smp (ctl_wake i st)) = s_follower_streak (smp st)"
    "retry_l (ctl_wake i st) = retry_l st" "retry_f (ctl_wake i st) = retry_f st" by (simp_all add: ctl_wake_def)
  have cy: "s_cycle (smp st') = s_cycle (smp st) + 1" "s_cycle (smp st1) = s_cycle (smp st')" "s_cycle (smp st2) = s_cycle (smp st')"
    using lk(10) fk(12) m(4) gk(1) pk(18) rk(7) by simp_all
  have ls: "s_leader_streak (smp st1) = s_leader_streak (smp st')" "s_leader_ok (smp st1) = s_leader_ok (smp st')"
      "retry_l st1 = retry_l st'" and
    fs: "s_follower_streak (smp st2) = s_follower_streak (smp st')" "s_follower_ok (smp st2) = s_follower_ok (smp st')"
      "retry_f st2 = retry_f st'"
    using f(6,7) fk(10) m(4-6) g gk(1) p pk(16) r rk(8) by simp_all
  have lp: "leader wd' = leader wd1" "leader_tty wd' = leader_tty wd1" using fk(7,8) m(2,3) gk(7,8) pk(8,9) by simp_all
  have "port_ext (follower wd2) (follower_tty wd2) (follower wd') (follower_tty wd')"
    using port_ext_trans [OF m(1) conjunct1 [OF g]] pk(6,7) by simp
  note fp = port_ext_owns [OF this]
  show "owned wd'" using l(1) f(1) lp fp by (simp add: owned_def)
  show "s_cycle (smp st') = s_cycle (smp st) + 1" by (rule cy)
  show "s_leader_streak (smp st') = streak_next (s_leader_ok (smp st')) (s_leader_streak (smp st))" using l(2) unfolding ls wk .
  show "retry_l st' = (if due (s_leader_streak (smp st')) (s_cycle (smp st')) (retry_l st) then s_cycle (smp st') + 50 else retry_l st)"
    using l(3) unfolding ls cy(2) wk .
  show "tty_paths (leader_tty wd') = tty_paths (leader_tty wd) @
      (if due (s_leader_streak (smp st')) (s_cycle (smp st')) (retry_l st) then [leader_port c] else [])"
    using l(4) unfolding ls cy(2) wk lp .
  show "s_follower_streak (smp st') = streak_next (s_follower_ok (smp st')) (s_follower_streak (smp st))"
    using f(2) unfolding fs l(7) wk .
  show "retry_f st' = (if due (s_follower_streak (smp st')) (s_cycle (smp st')) (retry_f st) then s_cycle (smp st') + 50 else retry_f st)"
    using f(3) unfolding fs cy(3) l(5) wk .
  show "tty_paths (follower_tty wd') = tty_paths (follower_tty wd) @
      (if due (s_follower_streak (smp st')) (s_cycle (smp st')) (retry_f st) then [follower_port c] else [])"
    using f(4) fp unfolding fs cy(3) l(5) wk lk(8) by simp
  have "torque st3 = torque st'" using gk(4) pk(4) rk(4) by simp
  then show "torque st' \<and> \<not> s_follower_ok (smp st') \<longrightarrow> torque st \<and> \<not> due (s_follower_streak (smp st')) (s_cycle (smp st')) (retry_f st)"
    using ctl_mode_torque [OF 1(3)] f(5) fk(4) lk(4) unfolding fs cy(3) l(5) wk by auto
qed

section \<open>Retries\<close>

lemma streak_grows: "unat (streak_next False k) = min 65535 (unat k + 1)"
proof (cases "k < 0xFFFF")
  case True
  then have "unat k < 65535" by (simp add: word_less_nat_alt)
  then show ?thesis using True by (simp add: streak_next_def unat_word_ariths)
next
  case False
  then have "65535 \<le> unat k" by (simp add: word_less_nat_alt)
  then show ?thesis using False unsigned_less [of k, where ?'a = nat] by (simp add: streak_next_def)
qed

lemma unat_plus: "unat (a :: u64) + n < 2 ^ 64 \<Longrightarrow> unat (a + of_nat n) = unat a + n"
  by (simp add: unat_word_ariths unat_of_nat)

text \<open>A pass after which the port is not answering.\<close>

definition pass_fails :: "('e \<Rightarrow> 's \<Rightarrow> 's option) \<Rightarrow> ('s \<Rightarrow> bool) \<Rightarrow> 'e \<Rightarrow> 's \<Rightarrow> bool" where
  "pass_fails step ok e s = (case step e s of None \<Rightarrow> True | Some s' \<Rightarrow> \<not> ok s')"

lemma ok_run_fails:
  "ok_run step (pass_fails step ok) (e # es) s \<Longrightarrow> step e s = Some t \<Longrightarrow> \<not> ok t \<and> ok_run step (pass_fails step ok) es t"
  by (simp add: pass_fails_def [of step ok e s])

text \<open>
  A port as the retry logic sees it: the pass counter, the streak of failed passes, the earliest pass of the next
  attempt, and the paths opened so far.
\<close>

locale retry_port =
  fixes step :: "'e \<Rightarrow> 's \<Rightarrow> 's option" and good :: "'s \<Rightarrow> bool" and ok :: "'s \<Rightarrow> bool" and cycle :: "'s \<Rightarrow> u64"
    and streak :: "'s \<Rightarrow> u16" and retry :: "'s \<Rightarrow> u64" and opened :: "'s \<Rightarrow> string list" and port :: string
  assumes good_step: "step e s = Some s' \<Longrightarrow> good s \<Longrightarrow> good s'"
    and cycle_step: "step e s = Some s' \<Longrightarrow> good s \<Longrightarrow> cycle s' = cycle s + 1"
    and streak_step: "step e s = Some s' \<Longrightarrow> good s \<Longrightarrow> streak s' = streak_next (ok s') (streak s)"
    and retry_step: "step e s = Some s' \<Longrightarrow> good s \<Longrightarrow>
      retry s' = (if due (streak s') (cycle s') (retry s) then cycle s' + 50 else retry s)"
    and opened_step: "step e s = Some s' \<Longrightarrow> good s \<Longrightarrow>
      opened s' = opened s @ (if due (streak s') (cycle s') (retry s) then [port] else [])"
begin

text \<open>One more failed pass, with no attempt so far or with one; the passes so far are fewer than 50.\<close>

lemma wait_step:
  assumes "step e u = Some t" and "good u" and "\<not> ok t" and "unat (cycle u) = unat (cycle s) + n" and "n < 50"
    and "unat (cycle s) + 100 < 2 ^ 64" and "min 50 n \<le> unat (streak u)" and "opened u = opened s"
  shows "opened t = opened s \<and> retry t = retry u \<and> min 50 (Suc n) \<le> unat (streak t) \<and>
      \<not> (50 \<le> unat (streak t) \<and> unat (retry u) \<le> unat (cycle t)) \<or>
    opened t = opened s @ [port] \<and> unat (retry t) = unat (cycle t) + 50 \<and> unat (cycle s) < unat (cycle t)"
proof -
  have c: "unat (cycle t) = unat (cycle s) + Suc n"
    using cycle_step [OF assms(1,2)] unat_plus [of "cycle u" 1] assms(4-6) by simp
  have k: "unat (streak t) = min 65535 (unat (streak u) + 1)"
    using streak_step [OF assms(1,2)] assms(3) by (simp add: streak_grows)
  show ?thesis
  proof (cases "due (streak t) (cycle t) (retry u)")
    case True
    have "unat (cycle t + 50) = unat (cycle t) + 50" using unat_plus [of "cycle t" 50] c assms(5,6) by simp
    then show ?thesis using True retry_step [OF assms(1,2)] opened_step [OF assms(1,2)] assms(8) c by simp
  next
    case False
    then show ?thesis
      using retry_step [OF assms(1,2)] opened_step [OF assms(1,2)] assms(7,8) k by (auto simp: word_le_nat_alt)
  qed
qed

lemma tried_step:
  assumes "step e u = Some t" and "good u" and "unat (cycle u) = unat (cycle s) + n" and "n < 50"
    and "unat (cycle s) + 100 < 2 ^ 64" and "unat (cycle s) + 50 < unat (retry u)"
  shows "opened t = opened u \<and> retry t = retry u"
proof -
  have "unat (cycle t) = unat (cycle s) + Suc n"
    using cycle_step [OF assms(1,2)] unat_plus [of "cycle u" 1] assms(3-5) by simp
  then have "\<not> retry u \<le> cycle t" using assms(4,6) by (simp add: word_le_nat_alt)
  then show ?thesis using retry_step [OF assms(1,2)] opened_step [OF assms(1,2)] by simp
qed

lemma failed_run:
  assumes "good s" and "unat (cycle s) + 100 < 2 ^ 64"
  shows "opt_run step es s = Some t \<Longrightarrow> ok_run step (pass_fails step ok) es s \<Longrightarrow> length es \<le> 50 \<Longrightarrow>
    good t \<and> unat (cycle t) = unat (cycle s) + length es \<and>
    (opened t = opened s \<and> retry t = retry s \<and> min 50 (length es) \<le> unat (streak t) \<and>
        (es \<noteq> [] \<longrightarrow> \<not> (50 \<le> unat (streak t) \<and> unat (retry t) \<le> unat (cycle t))) \<or>
      opened t = opened s @ [port] \<and> unat (cycle s) + 50 < unat (retry t) \<and> unat (retry t) \<le> unat (cycle t) + 50)"
proof (induction es arbitrary: t rule: rev_induct)
  case Nil
  then show ?case using assms by simp
next
  case (snoc e es)
  obtain u where u: "opt_run step es s = Some u" "step e u = Some t"
    using snoc.prems(1) by (auto simp: opt_run_append bind_eq_Some_conv)
  have ok: "ok_run step (pass_fails step ok) es s" "\<not> ok t"
    using ok_run_append [OF snoc.prems(2) u(1)] u(2) by (blast, simp add: pass_fails_def)
  have n: "length es < 50" using snoc.prems(3) by simp
  note ih = snoc.IH [OF u(1) ok(1) less_imp_le [OF n]]
  then have g: "good u" and c: "unat (cycle u) = unat (cycle s) + length es" by blast+
  have c': "unat (cycle t) = unat (cycle s) + Suc (length es)"
    using cycle_step [OF u(2) g] unat_plus [of "cycle u" 1] c n assms(2) by simp
  from ih consider (wait) "opened u = opened s" "retry u = retry s" "min 50 (length es) \<le> unat (streak u)"
    | (tried) "opened u = opened s @ [port]" "unat (cycle s) + 50 < unat (retry u)" "unat (retry u) \<le> unat (cycle u) + 50" by blast
  then show ?case
  proof cases
    case wait
    from wait_step [OF u(2) g ok(2) c n assms(2) wait(3,1)] show ?thesis
      using good_step [OF u(2) g] c' wait(2) by auto
  next
    case tried
    from tried_step [OF u(2) g c n assms(2) tried(2)] show ?thesis
      using good_step [OF u(2) g] c' c tried by auto
  qed
qed

text \<open>Exactly one attempt in 50 consecutive failed passes.\<close>

lemma one_attempt:
  assumes "good s" and "unat (cycle s) + 100 < 2 ^ 64" and "unat (retry s) \<le> unat (cycle s) + 50"
    and "opt_run step es s = Some t" and "ok_run step (pass_fails step ok) es s" and "length es = 50"
  shows "opened t = opened s @ [port] \<and> unat (retry t) \<le> unat (cycle t) + 50 \<and> good t \<and> unat (cycle t) = unat (cycle s) + 50"
  using failed_run [OF assms(1,2,4,5)] assms(3,6) by auto

end

text \<open>Both buses of the control thread.\<close>

definition ctl_step :: "so101d_ctx \<Rightarrow> ctl_in \<Rightarrow> ctl \<times> world \<Rightarrow> (ctl \<times> world) option" where
  "ctl_step c i s = ctl_cycle c i (fst s) (snd s)"

lemma ctl_step_cycle: "ctl_step c i s = Some s' \<Longrightarrow> ctl_cycle c i (fst s) (snd s) = Some (fst s', snd s')"
  by (simp add: ctl_step_def)

lemmas ctl_step_ports = ctl_cycle_port [OF ctl_step_cycle]

interpretation ports: guarded_run "ctl_step c" "\<lambda>i s. True" "\<lambda>s. owned (snd s)"
  for c
  by unfold_locales (rule ctl_step_ports(1))

interpretation leader_bus: retry_port "ctl_step c" "\<lambda>s. owned (snd s)" "\<lambda>s. s_leader_ok (smp (fst s))" "\<lambda>s. s_cycle (smp (fst s))"
    "\<lambda>s. s_leader_streak (smp (fst s))" "\<lambda>s. retry_l (fst s)" "\<lambda>s. tty_paths (leader_tty (snd s))" "leader_port c"
  for c
  by unfold_locales (rule ctl_step_ports, assumption+)+

interpretation follower_bus: retry_port "ctl_step c" "\<lambda>s. owned (snd s)" "\<lambda>s. s_follower_ok (smp (fst s))" "\<lambda>s. s_cycle (smp (fst s))"
    "\<lambda>s. s_follower_streak (smp (fst s))" "\<lambda>s. retry_f (fst s)" "\<lambda>s. tty_paths (follower_tty (snd s))" "follower_port c"
  for c
  by unfold_locales (rule ctl_step_ports, assumption+)+

section \<open>A port that stays dead\<close>

text \<open>A closed port that cannot be opened: every pass fails on it.\<close>

definition dead :: "fts_bus \<Rightarrow> tty \<Rightarrow> bool" where
  "dead bus w \<longleftrightarrow> fd bus = - 1 \<and> tty_opens w = []"

lemma dead_ext: "port_ext bus w bus' w' \<Longrightarrow> dead bus w \<Longrightarrow> dead bus' w'"
  by (simp add: dead_def port_ext_def same_settings_def tty_ext_def)

lemma dead_reopen: "reopen_bus bus path w = (bus', w') \<Longrightarrow> dead bus w \<Longrightarrow> dead bus' w'"
  by (auto simp: reopen_bus_def fts_close_def fts_open_def baud_to_speed_def sys_open_def sys_close_def dead_def Let_def)

lemma dead_read: "fts_sync_read bus ids addr len out w = (rc, out', bus', w') \<Longrightarrow> dead bus w \<Longrightarrow> rc \<noteq> FTS_OK"
  by (auto simp: fts_sync_read_def dead_def tx_packet_closed fts_build_packet_def Let_def split: option.splits if_splits)

lemma ctl_follower_dead:
  assumes "ctl_follower c st wd = (st', wd')" and "dead (follower wd) (follower_tty wd)"
  shows "dead (follower wd') (follower_tty wd') \<and> \<not> s_follower_ok (smp st')"
proof -
  obtain rc out b w where r: "fts_sync_read (follower wd) (ids_f c) STS_PRESENT_POSITION 8 (Some (bf st)) (follower_tty wd) = (rc, out, b, w)"
    by (cases "fts_sync_read (follower wd) (ids_f c) STS_PRESENT_POSITION 8 (Some (bf st)) (follower_tty wd)")
  obtain b1 w1 where re: "reopen_bus b (follower_port c) w = (b1, w1)" by fastforce
  obtain rc2 b2 w2 where t: "set_torque b1 (ids_f c) False w1 = (rc2, b2, w2)" by (cases "set_torque b1 (ids_f c) False w1")
  have "dead b w" "dead b2 w2" "rc \<noteq> FTS_OK"
    using dead_ext [OF fts_sync_read_ext [OF r] assms(2)] dead_reopen [OF re] dead_ext [OF set_torque_ext [OF t]] dead_read [OF r assms(2)]
    by blast+
  then show ?thesis using assms(1) r re t by (auto simp: ctl_follower_def Let_def split: if_splits)
qed

lemma ctl_step_dead:
  assumes "ctl_step c i s = Some s'" and "dead (follower (snd s)) (follower_tty (snd s))"
  shows "dead (follower (snd s')) (follower_tty (snd s')) \<and> \<not> s_follower_ok (smp (fst s'))"
proof -
  obtain st wd st' wd' where s: "s = (st, wd)" "s' = (st', wd')" by fastforce
  obtain st5 where w: "ctl_work c i st wd = (st5, wd')" and gr: "ctl_grid (ctl_period c) i st5 = Some st'"
    using assms(1) unfolding s ctl_step_def fst_conv snd_conv by (rule ctl_cycle_cases)
  obtain st1 wd1 st2 wd2 st3 wd3 st4 wd4 where
    1: "ctl_leader c (ctl_wake i st) wd = (st1, wd1)" "ctl_follower c st1 wd1 = (st2, wd2)"
      "ctl_mode c st2 wd2 = (st3, wd3)" "ctl_goal c st3 wd3 = (st4, wd4)" "ctl_publish i st4 wd4 = (st5, wd')"
    using w by (rule ctl_work_cases)
  have "dead (follower wd1) (follower_tty wd1)" using assms(2) ctl_leader_keeps(7,8) [OF 1(1)] by (simp add: s)
  note f = ctl_follower_dead [OF 1(2) this]
  have "port_ext (follower wd2) (follower_tty wd2) (follower wd') (follower_tty wd')"
    using port_ext_trans [OF ctl_mode_port(1) [OF 1(3)] conjunct1 [OF ctl_goal_port [OF 1(4)]]] ctl_publish_keeps(6,7) [OF 1(5)] by simp
  then show ?thesis
    using f dead_ext ctl_mode_port(4) [OF 1(3)] ctl_goal_keeps(1) [OF 1(4)] ctl_publish_keeps(16) [OF 1(5)] ctl_grid_keeps(8) [OF gr]
    by (auto simp: s)
qed

lemma dead_run:
  "dead (follower (snd s)) (follower_tty (snd s)) \<Longrightarrow> ok_run (ctl_step c) (pass_fails (ctl_step c) (\<lambda>s. s_follower_ok (smp (fst s)))) is s"
  by (induction "is" arbitrary: s) (auto simp: pass_fails_def split: option.split dest: ctl_step_dead)

end
