(* ===== verification/Life.thy ===== *)
theory Life
  imports Daemon_Props Ports
begin

text \<open>
  The life of the daemon from its command line to its end, \<^verbatim>\<open>main\<close> of \<^verbatim>\<open>daemon/src/so101d.c\<close> around the
  threads: start-up, any interleaving of the threads, the clients and the checks of the main thread,
  then the shutdown after the signal. A list of events is a run up to the join of both threads. When the supervisor's
  thread cannot be created, the control thread runs alone for a while and the daemon ends.
\<close>

section \<open>The run\<close>

datatype life_event =
    Thread sys_event
  | Check bool

text \<open>A check is a pass of the main thread that no signal ended; it may fail to get a snapshot.\<close>

fun life_step :: "so101d_ctx \<Rightarrow> life_event \<Rightarrow> sys \<times> dog \<times> main_msg list \<Rightarrow> (sys \<times> dog \<times> main_msg list) option" where
  "life_step c (Thread e) s = map_option (\<lambda>y. (y, snd s)) (sys_step c e (fst s))"
| "life_step c (Check seen) s =
     (let (y, d, out) = s; (d, msgs) = (if seen then dog_check (mem_of y) d else (d, [])) in Some (y, d, out @ msgs))"

datatype life =
    Refused int host
  | Unknown
  | Hangs
  | Aborted ctl world host
  | Stopped sys world host "main_msg list"

text \<open>The passes the control thread makes alone are those among the events.\<close>

fun control_ins :: "life_event list \<Rightarrow> ctl_in list" where
  "control_ins [] = []"
| "control_ins (Thread (Control i) # es) = i # control_ins es"
| "control_ins (e # es) = control_ins es"

text \<open>
  \<open>Refused\<close> carries the exit code. \<open>Aborted\<close> is the exit with code 1 after the supervisor's thread could not be
  created: the control thread made some passes and left the torque off, the objects are removed; unlike in the
  normal shutdown the ports are not closed and the magic number stays. \<open>Stopped\<close> the system as the threads left it, what the shutdown made
  of the ports, the memory and the host, and the messages to systemd; \<open>Unknown\<close> is a rate without a
  value in the model of \<open>atof\<close>.
\<close>

definition so101d ::
    "(string \<Rightarrow> nat option) \<Rightarrow> (string \<Rightarrow> string option) \<Rightarrow> (char \<times> string) list \<Rightarrow> boot \<Rightarrow> tty \<Rightarrow> tty \<Rightarrow> host \<Rightarrow>
     int \<Rightarrow> int \<Rightarrow> life_event list \<Rightarrow> life" where
  "so101d getgrnam files opts b xl xf h now_ns now es =
     (case parse_opts getgrnam opts ctx_default of
        OptExit rc \<Rightarrow> Refused rc h
      | OptNoFloat \<Rightarrow> Unknown
      | OptOk c \<Rightarrow>
          (case daemon_start files c b xl xf h of
             Exit rc h \<Rightarrow> Refused rc h
           | ControlOnly c b1 w1 b2 w2 h \<Rightarrow>
               (case control_thread c now_ns (control_ins es) (start_world b1 w1 b2 w2 (the (h_shm h))) of
                  None \<Rightarrow> Hangs
                | Some (st, wd) \<Rightarrow> Aborted st wd ((sems_destroy h)\<lparr>h_shm := None\<rparr>))
           | Running c b1 w1 b2 w2 h \<Rightarrow>
               let s = sys_start c now_ns now (start_world b1 w1 b2 w2 (the (h_shm h)));
                   msgs = [Ready (so101_mode_name (unat (initial_mode c)))]
               in case opt_run (life_step c) es (s, dog_init, msgs) of
                    None \<Rightarrow> Hangs
                  | Some (s, d, msgs) \<Rightarrow>
                      let (wd, h) = daemon_stop (ctl_stop c (sys_world s)) h
                      in Stopped s wd h (msgs @ [Stopping])))"

section \<open>Lemmas\<close>

lemma period_positive: "0 < freq c \<Longrightarrow> freq c \<le> 1000000000 \<Longrightarrow> 0 < ctl_period c"
proof -
  assume f: "0 < freq c" "freq c \<le> 1000000000"
  then have "1 \<le> 1000000000 / freq c" by (simp add: pos_le_divide_eq)
  then have "1 \<le> rnd64 (1000000000 / freq c)" by (rule rnd64_ge_one)
  then show ?thesis by (simp add: ctl_period_def f_trunc_def le_floor_iff)
qed

lemma sys_step_total: "0 < ctl_period c \<Longrightarrow> \<exists>s'. sys_step c e s = Some s'"
proof (cases e)
  case (Supervise got seen now lockv)
  then show ?thesis by (simp add: Let_def split: prod.split)
next
  case (Control i)
  assume "0 < ctl_period c"
  then show ?thesis using ctl_cycle_total [of c i "sys_ctl s" "sys_world s"] Control by auto
qed simp

lemma sys_step_owned: "sys_step c e s = Some s' \<Longrightarrow> owned (sys_world s) \<Longrightarrow> owned (sys_world s')"
proof (cases e)
  case (Control i)
  assume "sys_step c e s = Some s'" "owned (sys_world s)"
  then show ?thesis using Control ctl_cycle_port(1) by auto
qed (auto simp: owned_def Let_def split: prod.splits)

lemma open_bus_owns: "open_bus p c w = (0, b, w') \<Longrightarrow> tty_fds w = {} \<Longrightarrow> owns b w'"
  by (auto simp: open_bus_def owns_def split: prod.splits if_splits dest: open_owns)

lemma daemon_start_owns:
  assumes "daemon_start files c b xl xf h = Running c' b1 w1 b2 w2 h'" and "tty_fds xl = {}" and "tty_fds xf = {}"
  shows "owns b1 w1 \<and> owns b2 w2"
  using assms
  by (auto simp: daemon_start_def Let_def split: option.splits sum.splits prod.splits if_splits dest: open_bus_owns)

lemma sys_start_owned:
  assumes "owns b1 w1" and "owns b2 w2"
  shows "owned (sys_world (sys_start c t0 t1 (start_world b1 w1 b2 w2 m)))"
proof -
  obtain r2 b2' w2' where f: "set_torque b2 (ids_f c) False w2 = (r2, b2', w2')" by (cases "set_torque b2 (ids_f c) False w2")
  obtain r1 b1' w1' where l: "set_torque b1 (ids_l c) False w1 = (r1, b1', w1')" by (cases "set_torque b1 (ids_l c) False w1")
  show ?thesis
    using assms port_ext_owns [OF set_torque_ext [OF f]] port_ext_owns [OF set_torque_ext [OF l]]
    by (simp add: sys_start_def ctl_start_def start_world_def owned_def f l)
qed

definition life_safe :: "sys \<times> dog \<times> main_msg list \<Rightarrow> bool" where
  "life_safe s \<longleftrightarrow> sys_safe (fst s) \<and> owned (sys_world (fst s))"

lemma life_step_safe: "life_step c e s = Some s' \<Longrightarrow> life_safe s \<Longrightarrow> life_safe s'"
  by (cases e) (auto simp: life_safe_def split: prod.splits dest: sys_step_safe sys_step_owned)

interpretation life_loop: guarded_run "life_step c" "\<lambda>e s. True" life_safe
  for c
  by unfold_locales (rule life_step_safe)

lemma life_step_total: "0 < ctl_period c \<Longrightarrow> \<exists>s'. life_step c e s = Some s'"
  using sys_step_total [of c _ "fst s"] by (cases e; cases s) (auto simp: Let_def split: prod.split)

lemma life_run_total: "0 < ctl_period c \<Longrightarrow> \<exists>s'. opt_run (life_step c) es s = Some s'"
proof (induction es arbitrary: s)
  case (Cons e es)
  obtain t where "life_step c e s = Some t" using life_step_total [OF Cons.prems] by blast
  then show ?case using Cons.IH [OF Cons.prems, of t] by (simp del: life_step.simps)
qed (intro exI, rule opt_run.simps(1))

lemma ctl_stop_limp:
  obtains n rc b w where "ctl_stop c wd = wd\<lparr>follower := b, follower_tty := w\<rparr>"
    "tty_wire w = tty_wire (follower_tty wd) @ take n (servo_frame (ids_f c) (Torque False))"
    "set_torque (follower wd) (ids_f c) False (follower_tty wd) = (rc, b, w)"
    "rc = FTS_OK \<longrightarrow> n = length (servo_frame (ids_f c) (Torque False))"
proof -
  obtain rc b w where t: "set_torque (follower wd) (ids_f c) False (follower_tty wd) = (rc, b, w)"
    by (cases "set_torque (follower wd) (ids_f c) False (follower_tty wd)")
  then have s: "servo_send (ids_f c) (Torque False) (follower wd, follower_tty wd) = (rc = FTS_OK, b, w)"
    by (simp add: servo_send_def)
  from arm.send_prefix [OF s] t show thesis by (auto simp: ctl_stop_def intro: that)
qed

lemma daemon_stop_closes:
  "daemon_stop wd h = (wd', h') \<Longrightarrow> owns (leader wd) (leader_tty wd) \<Longrightarrow> tty_fds (leader_tty wd') = {}"
  "daemon_stop wd h = (wd', h') \<Longrightarrow> owns (follower wd) (follower_tty wd) \<Longrightarrow> tty_fds (follower_tty wd') = {}"
  by (auto simp: daemon_stop_def Let_def split: prod.splits dest: close_owns)

lemma life_step_log: "life_step c e s = Some s' \<Longrightarrow> \<exists>ms. snd (snd s') = snd (snd s) @ ms"
  by (cases e; cases s) (auto simp: Let_def split: prod.splits)

lemma life_run_log: "opt_run (life_step c) es s = Some s' \<Longrightarrow> \<exists>ms. snd (snd s') = snd (snd s) @ ms"
proof (induction es arbitrary: s)
  case (Cons e es)
  then obtain t where t: "life_step c e s = Some t" "opt_run (life_step c) es t = Some s'"
    by (auto simp: bind_eq_Some_conv simp del: life_step.simps)
  from life_step_log [OF t(1)] Cons.IH [OF t(2)] show ?case by auto
qed simp

section \<open>What the checks see\<close>

datatype worker = ControlLoop | SupervisorLoop

text \<open>The events in which a thread moves the counter the main thread watches; a supervisor pass without a snapshot does not.\<close>

fun progress :: "worker \<Rightarrow> life_event \<Rightarrow> bool" where
  "progress ControlLoop e = (case e of Thread (Control i) \<Rightarrow> True | _ \<Rightarrow> False)"
| "progress SupervisorLoop e = (case e of Thread (Supervise got seen now lockv) \<Rightarrow> seen | _ \<Rightarrow> False)"

fun counter :: "worker \<Rightarrow> sys \<Rightarrow> u64" where
  "counter ControlLoop s = s_cycle (shm_s (mem_of s))"
| "counter SupervisorLoop s = shm_sup_beat (mem_of s)"

fun counter_seen :: "worker \<Rightarrow> dog \<Rightarrow> u64" where
  "counter_seen ControlLoop d = dog_cycle d"
| "counter_seen SupervisorLoop d = dog_beat d"

definition n_pings :: "main_msg list \<Rightarrow> nat" where
  "n_pings msgs = length (filter (\<lambda>m. case m of Ping _ _ _ _ \<Rightarrow> True | _ \<Rightarrow> False) msgs)"

lemma n_pings_simps [simp]: "n_pings [] = 0" "n_pings (a @ b) = n_pings a + n_pings b"
  by (simp_all add: n_pings_def)

lemma dog_check_pings: "n_pings (snd (dog_check m d)) = of_bool (pings (snd (dog_check m d)))"
  by (auto simp: dog_check_def n_pings_def pings_def Let_def split: option.split)

lemma check_step:
  assumes "life_step c (Check True) s = Some s'" and "life_safe s"
  shows "fst s' = fst s \<and> counter_seen w (fst (snd s')) = counter w (fst s) \<and>
    (\<exists>ms. snd (snd s') = snd (snd s) @ ms \<and> n_pings ms \<le> 1 \<and>
      (counter_seen w (fst (snd s)) = counter w (fst s) \<longrightarrow> n_pings ms = 0 \<and> \<not> dog_healthy (fst (snd s'))))"
proof -
  obtain y d out where s: "s = (y, d, out)" by (cases s)
  have e: "even (shm_seq (mem_of y))" using assms(2) by (simp add: s life_safe_def sys_safe_def)
  have s': "s' = (y, fst (dog_check (mem_of y) d), out @ snd (dog_check (mem_of y) d))"
    using assms(1) by (simp add: s split: prod.splits)
  have f: "fst (dog_check (mem_of y) d) = \<lparr>dog_cycle = s_cycle (shm_s (mem_of y)), dog_beat = shm_sup_beat (mem_of y),
      dog_healthy = (s_cycle (shm_s (mem_of y)) \<noteq> dog_cycle d \<and> shm_sup_beat (mem_of y) \<noteq> dog_beat d)\<rparr>"
    by (subst dog_reads(1) [OF e]) (simp add: Let_def)
  show ?thesis
    unfolding s' s by (cases w) (auto simp: f dog_check_pings dog_reads(2) [OF e])
qed

lemma life_step_agree: "life_step c e s = Some s' \<Longrightarrow> life_safe s \<Longrightarrow> counters_agree (fst s) \<Longrightarrow> counters_agree (fst s')"
  by (cases e) (auto simp: life_safe_def split: prod.splits dest: step_counters(1))

text \<open>Any other event of a run in which one thread does not move: its counter and what was seen of it stay, nothing is sent.\<close>

lemma idle_step:
  assumes "life_step c e s = Some s'" and "life_safe s" and "counters_agree (fst s)" and "\<not> progress w e" and "e \<noteq> Check True"
  shows "counter w (fst s') = counter w (fst s) \<and> snd s' = snd s"
proof (cases e)
  case (Thread x)
  then obtain y where y: "sys_step c x (fst s) = Some y" "s' = (y, snd s)" using assms(1) by auto
  have n: "w = ControlLoop \<Longrightarrow> n_control [x] = 0" "w = SupervisorLoop \<Longrightarrow> n_supervise [x] = 0"
    using assms(4) Thread by (auto simp: n_control_def n_supervise_def split: sys_event.splits)
  have "sys_safe (fst s)" using assms(2) by (simp add: life_safe_def)
  then show ?thesis using step_counters(2,3) [OF y(1) _ assms(3)] n y(2) by (cases w) simp_all
next
  case (Check seen)
  then show ?thesis using assms(1,5) by (cases s) simp
qed

lemma stuck_run:
  "opt_run (life_step c) es s = Some s' \<Longrightarrow> life_safe s \<Longrightarrow> counters_agree (fst s) \<Longrightarrow> list_all (\<lambda>e. \<not> progress w e) es \<Longrightarrow>
    counter_seen w (fst (snd s)) = counter w (fst s) \<Longrightarrow>
    (\<exists>ms. snd (snd s') = snd (snd s) @ ms \<and> n_pings ms = 0) \<and>
    (Check True \<in> set es \<or> \<not> dog_healthy (fst (snd s)) \<longrightarrow> \<not> dog_healthy (fst (snd s')))"
proof (induction es arbitrary: s)
  case (Cons e es)
  then obtain t where t: "life_step c e s = Some t" "opt_run (life_step c) es t = Some s'"
    by (auto simp: bind_eq_Some_conv simp del: life_step.simps)
  note k = life_step_safe [OF t(1) Cons.prems(2)] life_step_agree [OF t(1) Cons.prems(2,3)]
  have l: "list_all (\<lambda>e. \<not> progress w e) es" "\<not> progress w e" using Cons.prems(4) by simp_all
  show ?case
  proof (cases "e = Check True")
    case True
    from check_step [OF t(1) [unfolded True] Cons.prems(2), of w] Cons.prems(5) obtain ms where
      m: "fst t = fst s" "counter_seen w (fst (snd t)) = counter w (fst t)" "snd (snd t) = snd (snd s) @ ms"
        "n_pings ms = 0" "\<not> dog_healthy (fst (snd t))" by auto
    then show ?thesis using Cons.IH [OF t(2) k l(1) m(2)] by fastforce
  next
    case False
    note i = idle_step [OF t(1) Cons.prems(2,3) l(2) False]
    then have "counter_seen w (fst (snd t)) = counter w (fst t)" using Cons.prems(5) by simp
    then show ?thesis using Cons.IH [OF t(2) k l(1)] i False by simp
  qed
qed simp

section \<open>Properties\<close>

text \<open>C8. A thread that hangs silences the watchdog. In any stretch of the daemon's life in which the control thread completes no
  pass, or the supervisor none with a snapshot, whatever the other threads and the clients do, however often the main
  thread checks and however many of its checks get no snapshot, systemd gets at most one more ping; and after two checks that
  got one the main thread holds the daemon for stuck.\<close>

theorem stuck_thread_silences:
  assumes "life_safe s" and "counters_agree (fst s)" and "opt_run (life_step c) es s = Some s'"
    and "list_all (\<lambda>e. \<not> progress w e) es"
  shows "(\<exists>ms. snd (snd s') = snd (snd s) @ ms \<and> n_pings ms \<le> 1) \<and>
    (2 \<le> count_list es (Check True) \<longrightarrow> \<not> dog_healthy (fst (snd s')))"
  using assms
proof (induction es arbitrary: s)
  case (Cons e es)
  then obtain t where t: "life_step c e s = Some t" "opt_run (life_step c) es t = Some s'"
    by (auto simp: bind_eq_Some_conv simp del: life_step.simps)
  note k = life_step_safe [OF t(1) Cons.prems(1)] life_step_agree [OF t(1) Cons.prems(1,2)]
  have l: "list_all (\<lambda>e. \<not> progress w e) es" "\<not> progress w e" using Cons.prems(4) by simp_all
  show ?case
  proof (cases "e = Check True")
    case True
    from check_step [OF t(1) [unfolded True] Cons.prems(1), of w] obtain ms where
      m: "counter_seen w (fst (snd t)) = counter w (fst t)" "snd (snd t) = snd (snd s) @ ms" "n_pings ms \<le> 1" by auto
    have "2 \<le> count_list (e # es) (Check True) \<Longrightarrow> Check True \<in> set es" using True count_list_0_iff [of es "Check True"] by fastforce
    with stuck_run [OF t(2) k l(1) m(1)] m(2,3) show ?thesis by fastforce
  next
    case False
    from Cons.IH [OF k t(2) l(1)] idle_step [OF t(1) Cons.prems(1,2) l(2) False] False show ?thesis by simp
  qed
qed simp

text \<open>Two checks after a pass of the supervisor alone: the control thread never ran.\<close>

theorem stuck_thread_silences_witness:
  "\<exists>s'. opt_run (life_step ex_full) [Check True, Thread (Supervise False True 5 1), Check False, Check True]
       (sys_start ex_full 0 0 (start_world ex_bus (ex_opened ''l'') ex_bus (ex_opened ''f'') (shm_header ex_full 77)), dog_init, []) = Some s' \<and>
     n_pings (snd (snd s')) \<le> 1 \<and> \<not> dog_healthy (fst (snd s'))"
proof -
  let ?y = "sys_start ex_full 0 0 (start_world ex_bus (ex_opened ''l'') ex_bus (ex_opened ''f'') (shm_header ex_full 77))"
    and ?es = "[Check True, Thread (Supervise False True 5 1), Check False, Check True]"
  have "0 < ctl_period ex_full" by (rule period_positive) (simp_all add: ex_full_def ex_conf_def ctx_default_def)
  then obtain s' where r: "opt_run (life_step ex_full) ?es (?y, dog_init, []) = Some s'" using life_run_total by blast
  have "owns ex_bus (ex_opened p)" for p by (simp add: owns_def ex_bus_def ex_opened_def)
  then have o1: "owned (sys_world ?y)" by (simp add: sys_start_owned)
  have "initial_mode ex_full \<in> {SO101_MODE_IDLE, SO101_MODE_TELEOP, SO101_MODE_HOLD}" by (simp add: ex_conf_fields)
  note ok = sys_start_safe [OF this, of ex_full 0 0 ex_bus "ex_opened ''l''" ex_bus "ex_opened ''f''" 77]
  have "life_safe (?y, dog_init, [])" using ok(1) o1 by (simp add: life_safe_def)
  moreover have "list_all (\<lambda>e. \<not> progress ControlLoop e) ?es" by simp
  ultimately show ?thesis using stuck_thread_silences [OF _ _ r, of ControlLoop] ok(3) r by auto
qed

text \<open>C18. The daemon from its start to its end: once its threads run, with a control rate of at most 1 GHz and whatever clients,
  servos and scheduler do until a signal ends it, it does end; the system is safe to the last; the last thing it
  sends to the follower switches torque off (completely, if the port takes it); shared memory and semaphores
  are removed, clients that still map the memory see it invalid, every descriptor that was ever opened for a port,
  the ones of reconnections included, is closed; and systemd is told of the readiness first and of the end last.\<close>

theorem daemon_life:
  assumes "parse_opts g opts ctx_default = OptOk c0" and "freq c0 \<le> 1000000000"
    and "daemon_start files c0 b xl xf h = Running c b1 w1 b2 w2 h1"
    and "tty_fds xl = {}" and "tty_fds xf = {}"
  shows "\<exists>s wd h' msgs. so101d g files opts b xl xf h t0 t1 es =
      Stopped s wd h' (Ready (so101_mode_name (unat (initial_mode c))) # msgs @ [Stopping]) \<and> sys_safe s \<and>
    (\<exists>n. tty_wire (follower_tty wd) = tty_wire (follower_tty (sys_world s)) @ take n (servo_frame (ids_f c) (Torque False)) \<and>
      (fst (set_torque (follower (sys_world s)) (ids_f c) False (follower_tty (sys_world s))) = FTS_OK \<longrightarrow>
        n = length (servo_frame (ids_f c) (Torque False)))) \<and>
    h_shm h' = None \<and> h_sem_lock h' = None \<and> h_sem_ready h' = None \<and> shm_magic (shm wd) = 0 \<and>
    tty_fds (leader_tty wd) = {} \<and> tty_fds (follower_tty wd) = {}"
proof -
  note o = parse_opts_keeps [OF assms(1)]
  have i: "initial_mode c0 \<in> {SO101_MODE_IDLE, SO101_MODE_TELEOP, SO101_MODE_HOLD}" "0 < freq c0"
    using o by (simp_all add: ctx_default_def)
  obtain al af where "c = c0\<lparr>cal_leader := al, cal_follower := af\<rparr>" using assms(3) by (rule daemon_start_cases)
  then have p: "0 < ctl_period c" using period_positive [of c] i(2) assms(2) by simp
  have m: "h_shm h1 = Some (shm_header c (b_pid b))" "initial_mode c = initial_mode c0"
    using daemon_start_memory [OF assms(3)] by simp_all
  let ?s = "sys_start c t0 t1 (start_world b1 w1 b2 w2 (shm_header c (b_pid b)))"
  let ?m = "Ready (so101_mode_name (unat (initial_mode c)))"
  obtain s d msgs where r: "opt_run (life_step c) es (?s, dog_init, [?m]) = Some (s, d, msgs)"
    using life_run_total [OF p] by (metis surj_pair)
  have "owned (sys_world ?s)" using sys_start_owned daemon_start_owns [OF assms(3-5)] by blast
  then have "life_safe (?s, dog_init, [?m])" using sys_start_safe(1) [of c] i(1) m(2) by (simp add: life_safe_def)
  then have safe: "sys_safe s" and own: "owned (sys_world s)" using life_loop.inv_run [OF _ _ r] by (simp_all add: life_safe_def)
  obtain ms where ms: "msgs = ?m # ms" using life_run_log [OF r] by auto
  obtain n rc bb w where st: "ctl_stop c (sys_world s) = (sys_world s)\<lparr>follower := bb, follower_tty := w\<rparr>"
    "tty_wire w = tty_wire (follower_tty (sys_world s)) @ take n (servo_frame (ids_f c) (Torque False))"
    "set_torque (follower (sys_world s)) (ids_f c) False (follower_tty (sys_world s)) = (rc, bb, w)"
    "rc = FTS_OK \<longrightarrow> n = length (servo_frame (ids_f c) (Torque False))" by (rule ctl_stop_limp)
  obtain wd h' where e: "daemon_stop (ctl_stop c (sys_world s)) h1 = (wd, h')" by fastforce
  have "so101d g files opts b xl xf h t0 t1 es = Stopped s wd h' (?m # ms @ [Stopping])"
    using assms(1,3) m(1) r e ms by (simp add: so101d_def)
  moreover have "tty_wire (follower_tty wd) = tty_wire w" "shm_magic (shm wd) = 0"
    "h_shm h' = None" "h_sem_lock h' = None" "h_sem_ready h' = None"
    using e st(1) by (auto simp: daemon_stop_def sems_destroy_def fts_close_def sys_close_def Let_def)
  moreover have "tty_fds (leader_tty wd) = {}" "tty_fds (follower_tty wd) = {}"
    using e st(1) own port_ext_owns [OF set_torque_ext [OF st(3)]] by (auto simp: daemon_stop_closes owned_def)
  ultimately show ?thesis using safe st(2-4) by (intro exI [of _ s] exI [of _ wd] exI [of _ h'] exI [of _ ms]) auto
qed

theorem daemon_life_witness:
  "\<exists>s wd h' msgs. so101d (\<lambda>g. None) (\<lambda>p. Some ex_file) ex_opts ex_boot ex_tty ex_tty ex_host 0 0 [Thread (Supervise False True 5 1), Check True] =
      Stopped s wd h' (Ready ''HOLD'' # msgs @ [Stopping]) \<and> sys_safe s \<and> h_shm h' = None \<and> tty_fds (follower_tty wd) = {}"
proof -
  have "freq ex_conf \<le> 1000000000" by (simp add: ex_conf_def ctx_default_def)
  moreover have "so101_mode_name (unat (initial_mode ex_full)) = ''HOLD''" by (simp add: ex_conf_fields so101_mode_name_def)
  moreover have "tty_fds ex_tty = {}" by (simp add: ex_tty_def)
  ultimately show ?thesis
    using daemon_life [OF ex_opts_ok _ ex_start, of 0 0 "[Thread (Supervise False True 5 1), Check True]"] by fastforce
qed

end
