(* ===== verification/Ports_Props.thy ===== *)
theory Ports_Props
  imports Ports Control_Props
begin

text \<open>
  The properties of the control thread's ports: what happens when a bus stops answering.
\<close>

lemma torque_untried:
  "opt_run (ctl_step c) is s = Some t \<Longrightarrow> ok_run (ctl_step c) (pass_fails (ctl_step c) (\<lambda>s. s_follower_ok (smp (fst s)))) is s \<Longrightarrow>
    owned (snd s) \<Longrightarrow> torque (fst t) \<Longrightarrow> torque (fst s) \<and> tty_paths (follower_tty (snd t)) = tty_paths (follower_tty (snd s))"
proof (induction "is" arbitrary: s)
  case (Cons i "is")
  then obtain u where u: "ctl_step c i s = Some u" "opt_run (ctl_step c) is u = Some t" by (auto simp: bind_eq_Some_conv)
  have f: "\<not> s_follower_ok (smp (fst u))" "ok_run (ctl_step c) (pass_fails (ctl_step c) (\<lambda>s. s_follower_ok (smp (fst s)))) is u"
    using ok_run_fails [OF Cons.prems(2) u(1)] by simp_all
  have o: "owned (snd u)" using ctl_step_ports(1) [OF u(1) Cons.prems(3)] .
  then have k: "torque (fst u)" "tty_paths (follower_tty (snd t)) = tty_paths (follower_tty (snd u))"
    using Cons.IH [OF u(2) f(2)] Cons.prems(4) by blast+
  then show ?case using ctl_step_ports(8,9) [OF u(1) Cons.prems(3)] f(1) by simp
qed simp

text \<open>C27. A follower that has gone is looked for. In any 50 consecutive passes of the control thread in which the follower does
  not answer, its port is closed and opened again exactly once, and at their end torque is off, so that a servo
  that comes back is not driven to a stale goal; the condition on the next attempt holds again, so this repeats
  every 50 passes; and each bus owns exactly the descriptor it uses, none is leaked.\<close>

theorem follower_retried:
  assumes "owned (snd s)" and "unat (s_cycle (smp (fst s))) + 100 < 2 ^ 64"
    and "unat (retry_f (fst s)) \<le> unat (s_cycle (smp (fst s))) + 50"
    and "opt_run (ctl_step c) is s = Some t"
    and "ok_run (ctl_step c) (pass_fails (ctl_step c) (\<lambda>s. s_follower_ok (smp (fst s)))) is s" and "length is = REOPEN_AFTER"
  shows "tty_paths (follower_tty (snd t)) = tty_paths (follower_tty (snd s)) @ [follower_port c] \<and> \<not> torque (fst t) \<and>
    unat (retry_f (fst t)) \<le> unat (s_cycle (smp (fst t))) + 50 \<and> owned (snd t)"
  using follower_bus.one_attempt [OF assms] torque_untried [OF assms(4,5,1)] by auto

definition ex_gone :: "u32 \<Rightarrow> world" where
  "ex_gone m = (ex_world m)\<lparr>follower := bus_zero\<lparr>fd := - 1, timeout_ms := 4\<rparr>, follower_tty := ex_port\<lparr>tty_fds := {}\<rparr>\<rparr>"

theorem follower_retried_witness:
  "\<exists>t. opt_run (ctl_step ex_ctx) (replicate 50 ex_time) (ex_ctl\<lparr>torque := True, applied := SO101_MODE_HOLD\<rparr>, ex_gone SO101_MODE_HOLD) = Some t \<and>
     tty_paths (follower_tty (snd t)) = [''/dev/so101_follower''] \<and> \<not> torque (fst t)"
proof -
  let ?s = "(ex_ctl\<lparr>torque := True, applied := SO101_MODE_HOLD\<rparr>, ex_gone SO101_MODE_HOLD)"
  have p: "0 < ctl_period ex_ctx" by code_simp
  have "\<exists>t. opt_run (ctl_step ex_ctx) is s = Some t" for "is" s
  proof (induction "is" arbitrary: s)
    case (Cons i "is")
    then show ?case using ctl_cycle_total [OF p, of i "fst s" "snd s"] by (auto simp: ctl_step_def)
  qed (intro exI, rule opt_run.simps(1))
  then obtain t where t: "opt_run (ctl_step ex_ctx) (replicate 50 ex_time) ?s = Some t" by blast
  have d: "dead (follower (snd ?s)) (follower_tty (snd ?s))" "owned (snd ?s)"
    by (simp_all add: dead_def owned_def owns_def ex_gone_def ex_world_def ex_port_def)
  have c: "s_cycle (smp (fst ?s)) = 0" "retry_f (fst ?s) = 0" "tty_paths (follower_tty (snd ?s)) = []" "follower_port ex_ctx = ''/dev/so101_follower''"
    by (simp_all add: ex_ctl_def ctl_init_def sample_zero_def ex_gone_def ex_port_def ex_ctx_def ctx_default_def)
  from follower_retried [OF d(2) _ _ t dead_run [OF d(1)]] show ?thesis unfolding c using t by (intro exI [of _ t]) simp
qed

text \<open>The leader's port is retried at the same rate.\<close>

theorem leader_retried:
  assumes "owned (snd s)" and "unat (s_cycle (smp (fst s))) + 100 < 2 ^ 64"
    and "unat (retry_l (fst s)) \<le> unat (s_cycle (smp (fst s))) + 50"
    and "opt_run (ctl_step c) is s = Some t"
    and "ok_run (ctl_step c) (pass_fails (ctl_step c) (\<lambda>s. s_leader_ok (smp (fst s)))) is s" and "length is = REOPEN_AFTER"
  shows "tty_paths (leader_tty (snd t)) = tty_paths (leader_tty (snd s)) @ [leader_port c] \<and>
    unat (retry_l (fst t)) \<le> unat (s_cycle (smp (fst t))) + 50 \<and> owned (snd t)"
  using leader_bus.one_attempt [OF assms] by auto

end
