(* ===== verification/Races.thy ===== *)
theory Races
  imports System
begin

text \<open>
  The daemon at the grain of single accesses. In the theory System a pass of a thread is one event; here the
  supervisor stores to the requested mode and to the fault word one access at a time, and the control
  thread loads the requested mode at one moment, acts on the loaded value later, makes its own access to the fault word
  after that, writes the goals and publishes later still (\<^verbatim>\<open>daemon/src/supervisor.c\<close>, \<^verbatim>\<open>daemon/src/control.c\<close>). Other
  events may happen in between, so the control thread can act on a mode that is no longer requested. A pass without
  interruption is a pass of System; what survives of its guarantees under every interleaving is stated for this model.

  The supervisor is the only writer of the mode and of all fault bits but the one for refused torque,
  which none of its decisions reads; so what a pass will store is settled when it begins, from an
  arbitrary snapshot. Accesses are atomic and sequentially consistent, as those of \<open>stdatomic\<close> are.
\<close>

section \<open>The stores of the supervisor\<close>

datatype access =
    OrFaults u32
  | SetFaults u32
  | SetMode u32

fun put :: "access \<Rightarrow> so101_shm \<Rightarrow> so101_shm" where
  "put (OrFaults b) m = m\<lparr>shm_faults := shm_faults m OR b\<rparr>"
| "put (SetFaults f) m = m\<lparr>shm_faults := f\<rparr>"
| "put (SetMode r) m = m\<lparr>shm_mode_req := r\<rparr>"

abbreviation (input) puts :: "access list \<Rightarrow> so101_shm \<Rightarrow> so101_shm" where
  "puts \<equiv> fold put"

definition raise_acc :: "so101_shm \<Rightarrow> u32 \<Rightarrow> bool \<Rightarrow> u32 \<Rightarrow> access list" where
  "raise_acc mem b force_mode safe =
     OrFaults b #
     (let m = shm_mode_req mem;
          lower = (safe = SO101_MODE_ESTOP \<or>
                   (safe = SO101_MODE_IDLE \<and> m \<noteq> SO101_MODE_ESTOP) \<or>
                   (safe = SO101_MODE_HOLD \<and> m = SO101_MODE_TELEOP))
      in if force_mode \<and> lower \<and> m \<noteq> safe then [SetMode safe] else [])"

definition serve_acc :: "so101_shm \<Rightarrow> so101_cmd \<Rightarrow> access list" where
  "serve_acc mem cmd =
     (if cmd_cmd cmd = SO101_CMD_SET_MODE then
        (if cmd_arg cmd = uint SO101_MODE_IDLE \<and> shm_mode_req mem \<noteq> SO101_MODE_ESTOP \<or>
            cmd_arg cmd = uint SO101_MODE_TELEOP \<and> shm_faults mem AND F_BLOCK_TELEOP = 0 \<or>
            cmd_arg cmd = uint SO101_MODE_HOLD \<and> shm_faults mem AND F_BLOCK_ALL = 0
         then [SetMode (word_of_int (cmd_arg cmd))] else [])
      else if cmd_cmd cmd = SO101_CMD_ESTOP then [OrFaults SO101_F_ESTOP, SetMode SO101_MODE_ESTOP]
      else if cmd_cmd cmd = SO101_CMD_RESET then [SetFaults 0, SetMode SO101_MODE_IDLE]
      else [])"

text \<open>The faults a pass raises, in the order of the code, each under its condition.\<close>

fun raises :: "(bool \<times> u32 \<times> bool \<times> u32) list \<Rightarrow> so101_shm \<Rightarrow> access list" where
  "raises [] mem = []"
| "raises ((p, b, force_mode, safe) # xs) mem =
     (if p then (let a = raise_acc mem b force_mode safe in a @ raises xs (puts a mem)) else raises xs mem)"

definition pass_faults :: "so101d_ctx \<Rightarrow> sup_in \<Rightarrow> so101_sample \<Rightarrow> sup \<Rightarrow> (bool \<times> u32 \<times> bool \<times> u32) list" where
  "pass_faults c i s v =
     [(s_cycle s = last_cycle v \<and> in_now i - last_advance v > STALL_MS, SO101_F_STALL, True, SO101_MODE_ESTOP),
      (int (unat (s_leader_streak s)) \<ge> comm_streak c, SO101_F_LEADER_COMM, True, SO101_MODE_HOLD),
      (int (unat (s_follower_streak s)) \<ge> comm_streak c, SO101_F_FOLLOWER_COMM, True, SO101_MODE_IDLE),
      (s_follower_ok s \<and> (if sample_hot c s then temp_ticks v + 1 else 0) \<ge> PERSIST_TICKS, SO101_F_OVERTEMP, True, SO101_MODE_IDLE),
      (s_follower_ok s \<and> (if sample_badv c s then volt_ticks v + 1 else 0) \<ge> PERSIST_TICKS, SO101_F_VOLTAGE, True, SO101_MODE_IDLE),
      (in_now i - ovr_t0 v \<ge> 1000 \<and> s_overruns s - ovr_base v > OVERRUN_PER_S, SO101_F_OVERRUN, False, 0)]"

definition sup_acc :: "so101d_ctx \<Rightarrow> sup_in \<Rightarrow> sup \<Rightarrow> so101_shm \<Rightarrow> access list" where
  "sup_acc c i v mem =
     (let a = (if in_got i then serve_acc mem (shm_cmd mem) else [])
      in a @ (case in_snap i of None \<Rightarrow> [] | Some s \<Rightarrow> raises (pass_faults c i s v) (puts a mem)))"

text \<open>The stores are those of a pass.\<close>

definition same_word :: "so101_shm \<Rightarrow> so101_shm \<Rightarrow> bool" where
  "same_word a b \<longleftrightarrow> shm_mode_req a = shm_mode_req b \<and> shm_faults a = shm_faults b"

lemma same_word_refl [simp]: "same_word a a"
  by (simp add: same_word_def)

lemma same_word_puts: "same_word a b \<Longrightarrow> same_word (puts xs a) (puts xs b)"
proof (induction xs arbitrary: a b)
  case (Cons x xs)
  then have "same_word (put x a) (put x b)" by (cases x) (simp_all add: same_word_def)
  then show ?case using Cons.IH by simp
qed simp

lemma same_word_raises: "same_word a b \<Longrightarrow> raises xs a = raises xs b"
proof (induction xs arbitrary: a b)
  case (Cons x xs)
  obtain p w f sf where x: "x = (p, w, f, sf)" by (cases x)
  have r: "raise_acc a w f sf = raise_acc b w f sf" using Cons.prems by (simp add: raise_acc_def same_word_def)
  show ?case using Cons.IH [OF Cons.prems] Cons.IH [OF same_word_puts [OF Cons.prems]] by (simp add: x r Let_def)
qed simp

lemma raise_fault_acc: "raise_fault m b force_mode safe why = (m', l) \<Longrightarrow> m' = puts (raise_acc m b force_mode safe) m"
  by (auto simp: raise_fault_def raise_acc_def Let_def split: if_splits)

lemma serve_command_acc: "serve_command m w = (r, m') \<Longrightarrow> m' = puts (serve_acc m w) m"
  by (auto simp: serve_command_def serve_acc_def Let_def split: if_splits)

lemma raises_append: "raises (xs @ ys) m = raises xs m @ raises ys (puts (raises xs m) m)"
  by (induction xs m rule: raises.induct) (auto simp: Let_def)

lemma raise_if:
  "(if p then raise_fault m b f sf why else (m, [])) = (m', l) \<Longrightarrow> m' = puts (raises [(p, b, f, sf)] m) m"
  by (cases p) (auto dest: raise_fault_acc simp: Let_def)

lemma chk_stall_acc:
  assumes "chk_stall i s v m = (v', m', l)"
  shows "m' = puts (raises (take 1 (pass_faults c i s v)) m) m \<and> temp_ticks v' = temp_ticks v \<and> volt_ticks v' = volt_ticks v \<and>
    ovr_t0 v' = ovr_t0 v \<and> ovr_base v' = ovr_base v"
proof -
  have "(if s_cycle s = last_cycle v \<and> in_now i - last_advance v > STALL_MS
      then raise_fault m SO101_F_STALL True SO101_MODE_ESTOP ''control loop not publishing'' else (m, [])) = (m', l)"
    using assms by (auto simp: chk_stall_def Let_def split: if_splits prod.splits)
  from raise_if [OF this] show ?thesis
    using assms by (auto simp: pass_faults_def chk_stall_def Let_def split: if_splits prod.splits)
qed

lemma chk_comm_acc:
  assumes "chk_comm c s v m = (v', m', l)"
  shows "m' = puts (raises (take 2 (drop 1 (pass_faults c i s w))) m) m \<and> temp_ticks v' = temp_ticks v \<and> volt_ticks v' = volt_ticks v \<and>
    ovr_t0 v' = ovr_t0 v \<and> ovr_base v' = ovr_base v"
proof -
  let ?p = "int (unat (s_leader_streak s)) \<ge> comm_streak c" and ?q = "int (unat (s_follower_streak s)) \<ge> comm_streak c"
  obtain m1 l1 where 1: "(if ?p then raise_fault m SO101_F_LEADER_COMM True SO101_MODE_HOLD ''leader bus not answering'' else (m, [])) = (m1, l1)"
    by fastforce
  obtain m2 l2 where 2: "(if ?q then raise_fault m1 SO101_F_FOLLOWER_COMM True SO101_MODE_IDLE ''follower bus not answering'' else (m1, [])) = (m2, l2)"
    by fastforce
  have "m' = m2 \<and> v' = v\<lparr>prev_ls := s_leader_streak s, prev_fs := s_follower_streak s\<rparr>"
    using assms by (simp only: chk_comm_def Let_def 1 2 prod.case prod.inject simp_thms)
  then show ?thesis
    using raise_if [OF 1] raise_if [OF 2]
      raises_append [of "[(?p, SO101_F_LEADER_COMM, True, SO101_MODE_HOLD)]" "[(?q, SO101_F_FOLLOWER_COMM, True, SO101_MODE_IDLE)]" m]
    by (simp add: pass_faults_def del: raises.simps)
qed

lemma chk_servos_acc:
  assumes "chk_servos c s v m = (v', m', l)" and "temp_ticks v = temp_ticks w" and "volt_ticks v = volt_ticks w"
  shows "m' = puts (raises (take 2 (drop 3 (pass_faults c i s w))) m) m \<and> ovr_t0 v' = ovr_t0 v \<and> ovr_base v' = ovr_base v"
proof (cases "s_follower_ok s")
  case True
  let ?p = "(if sample_hot c s then temp_ticks w + 1 else 0) \<ge> PERSIST_TICKS"
    and ?q = "(if sample_badv c s then volt_ticks w + 1 else 0) \<ge> PERSIST_TICKS"
  let ?v = "v\<lparr>temp_ticks := (if sample_hot c s then temp_ticks v + 1 else 0), volt_ticks := (if sample_badv c s then volt_ticks v + 1 else 0)\<rparr>"
  obtain m1 l1 where 1: "(if ?p then raise_fault m SO101_F_OVERTEMP True SO101_MODE_IDLE ''servo temperature above limit'' else (m, [])) = (m1, l1)"
    by fastforce
  obtain m2 l2 where 2: "(if ?q then raise_fault m1 SO101_F_VOLTAGE True SO101_MODE_IDLE ''servo supply voltage out of range'' else (m1, [])) = (m2, l2)"
    by fastforce
  have t: "temp_ticks ?v = (if sample_hot c s then temp_ticks w + 1 else 0)" "volt_ticks ?v = (if sample_badv c s then volt_ticks w + 1 else 0)"
    using assms(2,3) by simp_all
  have "m' = m2 \<and> v' = ?v"
    using assms(1) by (simp only: chk_servos_def True if_True Let_def t 1 2 prod.case prod.inject simp_thms)
  then show ?thesis
    using raise_if [OF 1] raise_if [OF 2] True
      raises_append [of "[(?p, SO101_F_OVERTEMP, True, SO101_MODE_IDLE)]" "[(?q, SO101_F_VOLTAGE, True, SO101_MODE_IDLE)]" m]
    by (simp add: pass_faults_def del: raises.simps)
qed (use assms in \<open>simp add: chk_servos_def pass_faults_def\<close>)

lemma chk_overrun_acc:
  assumes "chk_overrun i s v m = (v', m', l)" and "ovr_t0 v = ovr_t0 w" and "ovr_base v = ovr_base w"
  shows "m' = puts (raises (drop 5 (pass_faults c i s w)) m) m"
proof -
  have "(if in_now i - ovr_t0 w \<ge> 1000 \<and> s_overruns s - ovr_base w > OVERRUN_PER_S
      then raise_fault m SO101_F_OVERRUN False 0 ''sustained deadline misses'' else (m, [])) = (m', l)"
    using assms by (auto simp: chk_overrun_def Let_def split: if_splits prod.splits)
  from raise_if [OF this] show ?thesis by (simp add: pass_faults_def)
qed

lemma sup_checks_acc:
  assumes "sup_checks c i s v m = (v', m', l)"
  shows "same_word (puts (raises (pass_faults c i s v) m) m) m'"
  using assms
proof (cases rule: sup_checks_cases)
  case (1 v1 s1 m1 v2 s2 m2 v3 s3 m3 v4 s4 m4)
  let ?f = "pass_faults c i s v"
  have p: "?f = take 1 ?f @ take 2 (drop 1 ?f) @ take 2 (drop 3 ?f) @ drop 5 ?f" by (simp add: pass_faults_def)
  note a = chk_stall_acc [OF 1(1), of c]
  note b = chk_comm_acc [OF 1(2), of i v]
  note d = chk_servos_acc [OF 1(3), of v i]
  note e = chk_overrun_acc [OF 1(4), of v c]
  have "s4 = puts (raises ?f m) m"
    using a b d e by (subst p) (simp add: raises_append del: raises.simps)
  then show ?thesis using 1(5) by (simp add: same_word_def)
qed

lemma sup_next_acc:
  assumes "sup_next c i (v, m) = (v', m')"
  shows "same_word (puts (sup_acc c i v m) m) m'"
proof -
  let ?a = "if in_got i then serve_acc m (shm_cmd m) else []"
  obtain v1 s1 p1 l1 where mb: "sup_mailbox i v m = (v1, s1, p1, l1)" by (cases "sup_mailbox i v m")
  obtain r q where s: "serve_command m (shm_cmd m) = (r, q)" by fastforce
  have w: "same_word (puts ?a m) s1" and v1: "pass_faults c i x v1 = pass_faults c i x v" for x
    using mb serve_command_acc [OF s] s by (auto simp: sup_mailbox_def same_word_def pass_faults_def Let_def split: if_splits)
  show ?thesis
  proof (cases "in_snap i")
    case None
    then show ?thesis using assms w by (simp add: sup_next_eq mb sup_acc_def)
  next
    case (Some x)
    obtain v2 s2 l2 where ck: "sup_checks c i x v1 s1 = (v2, s2, l2)" by (cases "sup_checks c i x v1 s1")
    have "same_word (puts (raises (pass_faults c i x v) s1) s1) m'"
      using sup_checks_acc [OF ck] assms Some ck by (simp add: sup_next_eq mb v1)
    moreover have "same_word (puts (raises (pass_faults c i x v) (puts ?a m)) (puts ?a m)) (puts (raises (pass_faults c i x v) s1) s1)"
      using same_word_puts [OF w] same_word_raises [OF w] by simp
    ultimately show ?thesis using Some by (cases "in_got i") (simp_all add: sup_acc_def same_word_def Let_def del: raises.simps)
  qed
qed

section \<open>The interleaved system\<close>

text \<open>
  Where the control thread is in its pass: it has loaded a mode; it has acted on it and may still have to set
  (\<open>Some True\<close>) or clear (\<open>Some False\<close>) the bit of refused torque; it has written the goals.
\<close>

datatype ctl_pc =
    Asleep
  | Loaded ctl_in u32
  | Moded ctl_in "bool option"
  | Acted ctl_in

record race =
  r_ctl :: ctl
  r_world :: world
  r_pc :: ctl_pc
  r_sup :: sup
  r_todo :: "access list"

datatype race_event =
    RClient so101_cmd
  | RSup sup_in
  | RStore
  | RLoad ctl_in
  | RAct
  | RNote
  | RGoal
  | RPublish

abbreviation (input) r_mem :: "race \<Rightarrow> so101_shm" where
  "r_mem s \<equiv> shm (r_world s)"

definition set_mode :: "u32 \<Rightarrow> so101_shm \<Rightarrow> so101_shm" where
  "set_mode r m = m\<lparr>shm_mode_req := r\<rparr>"

definition set_mem :: "world \<Rightarrow> so101_shm \<Rightarrow> world" where
  "set_mem wd m = wd\<lparr>shm := m\<rparr>"

text \<open>The access to the fault word that goes with the mode part of a pass, by the mode it loaded.\<close>

definition refused_note :: "ctl \<Rightarrow> u32 \<Rightarrow> bool option" where
  "refused_note st req =
     (if (req = SO101_MODE_TELEOP \<or> req = SO101_MODE_HOLD) \<and> req \<noteq> applied st \<and> \<not> torque st
      then Some (\<not> s_follower_ok (smp st)) else None)"

definition note_refused :: "bool \<Rightarrow> so101_shm \<Rightarrow> so101_shm" where
  "note_refused r m =
     m\<lparr>shm_faults := (if r then shm_faults m OR SO101_F_TORQUE_REFUSED else shm_faults m AND NOT SO101_F_TORQUE_REFUSED)\<rparr>"

text \<open>
  \<open>RLoad\<close>: wake-up, both readings, the load of the requested mode. \<open>RAct\<close>: the mode part of the pass on the
  loaded value, without its access to the fault word; \<open>RNote\<close> is that access, \<open>RGoal\<close> the goals. \<open>RPublish\<close>: the
  sample and the next slot. \<open>RSup\<close>: the supervisor takes its
  input and settles its stores; \<open>RStore\<close> is the next of them. Its other stores (acknowledgement, heartbeat)
  are not read by the control thread.
\<close>

fun race_step :: "so101d_ctx \<Rightarrow> race_event \<Rightarrow> race \<Rightarrow> race option" where
  "race_step c (RClient w) s = Some (s\<lparr>r_world := set_mem (r_world s) ((r_mem s)\<lparr>shm_cmd := w\<rparr>)\<rparr>)"
| "race_step c (RSup i) s =
     (if r_todo s \<noteq> [] then None
      else let (v, m) = sup_next c i (r_sup s, r_mem s)
           in Some (s\<lparr>r_sup := v, r_todo := sup_acc c i (r_sup s) (r_mem s),
                r_world := set_mem (r_world s) (m\<lparr>shm_mode_req := shm_mode_req (r_mem s), shm_faults := shm_faults (r_mem s)\<rparr>)\<rparr>))"
| "race_step c RStore s =
     (case r_todo s of [] \<Rightarrow> None
      | a # as \<Rightarrow> Some (s\<lparr>r_todo := as, r_world := set_mem (r_world s) (put a (r_mem s))\<rparr>))"
| "race_step c (RLoad i) s =
     (if r_pc s \<noteq> Asleep then None
      else let (st, wd) = ctl_leader c (ctl_wake i (r_ctl s)) (r_world s);
               (st, wd) = ctl_follower c st wd
           in Some (s\<lparr>r_ctl := st, r_world := wd, r_pc := Loaded i (shm_mode_req (shm wd))\<rparr>))"
| "race_step c RAct s =
     (case r_pc s of Loaded i req \<Rightarrow>
        let (st, wd) = ctl_mode c (r_ctl s) (set_mem (r_world s) (set_mode req (r_mem s)))
        in Some (s\<lparr>r_ctl := st, r_world := set_mem wd (r_mem s), r_pc := Moded i (refused_note (r_ctl s) req)\<rparr>)
      | _ \<Rightarrow> None)"
| "race_step c RNote s =
     (case r_pc s of Moded i (Some r) \<Rightarrow>
        Some (s\<lparr>r_world := set_mem (r_world s) (note_refused r (r_mem s)), r_pc := Moded i None\<rparr>)
      | _ \<Rightarrow> None)"
| "race_step c RGoal s =
     (case r_pc s of Moded i None \<Rightarrow>
        let (st, wd) = ctl_goal c (r_ctl s) (r_world s)
        in Some (s\<lparr>r_ctl := st, r_world := wd, r_pc := Acted i\<rparr>)
      | _ \<Rightarrow> None)"
| "race_step c RPublish s =
     (case r_pc s of Acted i \<Rightarrow>
        let (st, wd) = ctl_publish i (r_ctl s) (r_world s)
        in map_option (\<lambda>st. s\<lparr>r_ctl := st, r_world := wd, r_pc := Asleep\<rparr>) (ctl_grid (ctl_period c) i st)
      | _ \<Rightarrow> None)"

abbreviation (input) race_run :: "so101d_ctx \<Rightarrow> race_event list \<Rightarrow> race \<Rightarrow> race option" where
  "race_run c \<equiv> opt_run (race_step c)"

section \<open>Passes without interruption\<close>

definition at_rest :: "ctl \<Rightarrow> world \<Rightarrow> sup \<Rightarrow> race" where
  "at_rest st wd v = \<lparr>r_ctl = st, r_world = wd, r_pc = Asleep, r_sup = v, r_todo = []\<rparr>"

lemma set_mem_simps [simp]: "shm (set_mem wd m) = m" "set_mem wd (shm wd) = wd" "set_mem (set_mem wd m) m' = set_mem wd m'"
  "leader (set_mem wd m) = leader wd" "leader_tty (set_mem wd m) = leader_tty wd"
  "follower (set_mem wd m) = follower wd" "follower_tty (set_mem wd m) = follower_tty wd"
  by (simp_all add: set_mem_def)

lemma set_mode_simps [simp]: "set_mode (shm_mode_req m) m = m" "shm_mode_req (set_mode r m) = r" "shm_faults (set_mode r m) = shm_faults m"
  by (simp_all add: set_mode_def)

lemma mode_noted:
  assumes "ctl_mode c st wd = (st', wd')"
  shows "shm wd' = (case refused_note st (shm_mode_req (shm wd)) of None \<Rightarrow> shm wd | Some r \<Rightarrow> note_refused r (shm wd))"
proof -
  have r: "refused_note st (shm_mode_req (shm wd)) =
    (if mode_wanted wd \<in> {SO101_MODE_TELEOP, SO101_MODE_HOLD} \<and> mode_wanted wd \<noteq> applied st \<and> \<not> torque st
     then Some (\<not> s_follower_ok (smp st)) else None)"
    by (auto simp: refused_note_def mode_wanted_def)
  show ?thesis using assms by (cases rule: ctl_mode_cases) (auto simp: r note_refused_def)
qed

definition pass_events :: "ctl_in \<Rightarrow> bool option \<Rightarrow> race_event list" where
  "pass_events i n = [RLoad i, RAct] @ (if n = None then [] else [RNote]) @ [RGoal, RPublish]"

lemma race_control_whole:
  "\<exists>n. race_run c (pass_events i n) (at_rest st wd v) = map_option (\<lambda>(st, wd). at_rest st wd v) (ctl_cycle c i st wd)"
proof -
  obtain st1 wd1 where 1: "ctl_leader c (ctl_wake i st) wd = (st1, wd1)" by fastforce
  obtain st2 wd2 where 2: "ctl_follower c st1 wd1 = (st2, wd2)" by fastforce
  obtain st3 wd3 where 3: "ctl_mode c st2 wd2 = (st3, wd3)" by fastforce
  obtain st4 wd4 where 4: "ctl_goal c st3 wd3 = (st4, wd4)" by fastforce
  obtain st5 wd5 where 5: "ctl_publish i st4 wd4 = (st5, wd5)" by fastforce
  let ?n = "refused_note st2 (shm_mode_req (shm wd2))"
  have "set_mem wd3 (shm wd3) = wd3" by simp
  then have m: "(case ?n of None \<Rightarrow> set_mem wd3 (shm wd2) | Some r \<Rightarrow> set_mem wd3 (note_refused r (shm wd2))) = wd3"
    using mode_noted [OF 3] by (cases ?n) simp_all
  have "race_run c (pass_events i ?n) (at_rest st wd v) = map_option (\<lambda>(st, wd). at_rest st wd v) (ctl_cycle c i st wd)"
    using m by (cases ?n; cases "ctl_grid (ctl_period c) i st5")
      (simp_all add: pass_events_def at_rest_def 1 2 3 4 5 ctl_cycle_def ctl_work_def)
  then show ?thesis by blast
qed

lemma stores_run:
  "race_run c (replicate (length (r_todo s)) RStore) s = Some (s\<lparr>r_todo := [], r_world := set_mem (r_world s) (puts (r_todo s) (r_mem s))\<rparr>)"
proof (induction "r_todo s" arbitrary: s)
  case (Cons a as)
  let ?s = "s\<lparr>r_todo := as, r_world := set_mem (r_world s) (put a (r_mem s))\<rparr>"
  have "race_run c (replicate (length (r_todo ?s)) RStore) ?s = Some (?s\<lparr>r_todo := [], r_world := set_mem (r_world ?s) (puts (r_todo ?s) (r_mem ?s))\<rparr>)"
    by (rule Cons.hyps(1)) simp
  then show ?case using Cons.hyps(2) by (simp flip: Cons.hyps(2))
qed simp

lemma puts_frame: "puts xs m = m\<lparr>shm_mode_req := shm_mode_req (puts xs m), shm_faults := shm_faults (puts xs m)\<rparr>"
proof -
  have "\<exists>a b. puts xs m = m\<lparr>shm_mode_req := a, shm_faults := b\<rparr>"
  proof (induction xs arbitrary: m)
    case Nil
    have "m = m\<lparr>shm_mode_req := shm_mode_req m, shm_faults := shm_faults m\<rparr>" by simp
    then show ?case unfolding fold_simps id_apply by blast
  next
    case (Cons x xs)
    obtain a b where "puts xs (put x m) = (put x m)\<lparr>shm_mode_req := a, shm_faults := b\<rparr>" using Cons.IH by blast
    then have "puts (x # xs) m = m\<lparr>shm_mode_req := a, shm_faults := b\<rparr>" by (cases x) simp_all
    then show ?case by blast
  qed
  then show ?thesis by auto
qed

lemma race_supervise_whole:
  assumes "sup_next c i (v, shm wd) = (v', m)"
  shows "race_run c (RSup i # replicate (length (sup_acc c i v (shm wd))) RStore) (at_rest st wd v) = Some (at_rest st (set_mem wd m) v')"
proof -
  let ?acc = "sup_acc c i v (shm wd)" and ?m = "m\<lparr>shm_mode_req := shm_mode_req (shm wd), shm_faults := shm_faults (shm wd)\<rparr>"
  have "same_word (puts ?acc ?m) (puts ?acc (shm wd))" by (rule same_word_puts) (simp add: same_word_def)
  moreover have "same_word (puts ?acc (shm wd)) m" by (rule sup_next_acc [OF assms])
  ultimately have "puts ?acc ?m = m" using puts_frame [of ?acc ?m] by (simp add: same_word_def)
  then show ?thesis
    using assms stores_run [of c "\<lparr>r_ctl = st, r_world = set_mem wd ?m, r_pc = Asleep, r_sup = v', r_todo = ?acc\<rparr>"]
    by (simp add: at_rest_def)
qed

abbreviation (input) rest :: "sys \<Rightarrow> race" where
  "rest s \<equiv> at_rest (sys_ctl s) (sys_world s) (sys_sup s)"

lemma event_refined:
  assumes "sys_step c e s = Some s'"
  shows "\<exists>fs. race_run c fs (rest s) = Some (rest s')"
proof (cases e)
  case (Client w)
  then have "race_run c [RClient w] (rest s) = Some (rest s')" using assms by (auto simp: at_rest_def set_mem_def)
  then show ?thesis by blast
next
  case (Supervise got seen now lockv)
  let ?i = "sys_sup_in got seen now lockv (mem_of s)"
  obtain v m where n: "sup_next c ?i (sys_sup s, mem_of s) = (v, m)" by fastforce
  have "s' = s\<lparr>sys_sup := v, sys_world := set_mem (sys_world s) m\<rparr>" using assms Supervise n by (simp add: set_mem_def)
  then show ?thesis using race_supervise_whole [OF n, of "sys_ctl s"] by (auto simp del: opt_run.simps race_step.simps)
next
  case (Control i)
  then obtain st wd where "ctl_cycle c i (sys_ctl s) (sys_world s) = Some (st, wd)" "s' = s\<lparr>sys_ctl := st, sys_world := wd\<rparr>"
    using assms by auto
  then show ?thesis
    using race_control_whole [of c i "sys_ctl s" "sys_world s" "sys_sup s"] by (auto simp del: opt_run.simps race_step.simps)
qed

lemma run_refined: "opt_run (sys_step c) es s = Some s' \<Longrightarrow> \<exists>fs. race_run c fs (rest s) = Some (rest s')"
proof (induction es arbitrary: s)
  case Nil
  then show ?case by (intro exI [of _ "[]"]) simp
next
  case (Cons e es)
  then obtain t where t: "sys_step c e s = Some t" "opt_run (sys_step c) es t = Some s'" by (auto simp: bind_eq_Some_conv)
  then obtain fs gs where "race_run c fs (rest s) = Some (rest t)" "race_run c gs (rest t) = Some (rest s')"
    using event_refined Cons.IH by blast
  then have "race_run c (fs @ gs) (rest s) = Some (rest s')" by (simp add: opt_run_append)
  then show ?case by blast
qed

section \<open>The invariant\<close>

text \<open>Once the supervisor has made the stores it has settled, mode and faults agree.\<close>

definition race_safe :: "race \<Rightarrow> bool" where
  "race_safe s \<longleftrightarrow> sup_safe (puts (r_todo s) (r_mem s)) \<and> torque_ok (r_ctl s)"

lemma same_word_safe: "same_word a b \<Longrightarrow> sup_safe a = sup_safe b"
  by (simp add: same_word_def sup_safe_def)

lemma refused_only_puts: "refused_only a b \<Longrightarrow> refused_only (puts xs a) (puts xs b)"
proof (induction xs arbitrary: a b)
  case (Cons x xs)
  then have "refused_only (put x a) (put x b)" by (cases x) (simp_all add: refused_only_def bit_or_iff)
  then show ?case using Cons.IH by simp
qed simp

lemma note_refused_only: "refused_only m (note_refused r m)"
  using refused_only_set [of m] refused_only_clear [of m] by (cases r) (simp_all add: note_refused_def)

lemma load_keeps:
  assumes "ctl_leader c (ctl_wake i st) wd = (st1, wd1)" and "ctl_follower c st1 wd1 = (st2, wd2)"
  shows "shm wd2 = shm wd" "torque_ok st \<Longrightarrow> torque_ok st2" "torque st2 \<Longrightarrow> torque st"
  using ctl_leader_keeps [OF assms(1)] ctl_follower_keeps [OF assms(2)] by (auto simp: torque_ok_def)

lemma act_cases:
  assumes "race_step c RAct s = Some s'"
  obtains i req st wd where "r_pc s = Loaded i req" "ctl_mode c (r_ctl s) (set_mem (r_world s) (set_mode req (r_mem s))) = (st, wd)"
    "torque (r_ctl s') = torque st" "applied (r_ctl s') = applied st" "r_mem s' = r_mem s"
    "r_todo s' = r_todo s" "r_pc s' = Moded i (refused_note (r_ctl s) req)"
proof -
  obtain i req where pc: "r_pc s = Loaded i req" using assms by (auto split: ctl_pc.splits)
  obtain st wd where m: "ctl_mode c (r_ctl s) (set_mem (r_world s) (set_mode req (r_mem s))) = (st, wd)" by fastforce
  have "s' = s\<lparr>r_ctl := st, r_world := set_mem wd (r_mem s), r_pc := Moded i (refused_note (r_ctl s) req)\<rparr>" using assms pc m by simp
  then show thesis by (intro that [OF pc m]) simp_all
qed

lemma note_cases:
  assumes "race_step c RNote s = Some s'"
  obtains i r where "r_pc s = Moded i (Some r)" "r_pc s' = Moded i None" "r_ctl s' = r_ctl s" "r_todo s' = r_todo s"
    "r_mem s' = note_refused r (r_mem s)"
  using assms by (auto split: ctl_pc.splits option.splits)

lemma goal_cases:
  assumes "race_step c RGoal s = Some s'"
  obtains i where "r_pc s = Moded i None" "r_pc s' = Acted i" "r_todo s' = r_todo s" "r_mem s' = r_mem s"
    "torque (r_ctl s') = torque (r_ctl s)" "applied (r_ctl s') = applied (r_ctl s)"
proof -
  obtain i where pc: "r_pc s = Moded i None" using assms by (auto split: ctl_pc.splits option.splits)
  obtain st wd where g: "ctl_goal c (r_ctl s) (r_world s) = (st, wd)" by fastforce
  have "s' = s\<lparr>r_ctl := st, r_world := wd, r_pc := Acted i\<rparr>" using assms pc g by simp
  with ctl_goal_keeps [OF g] show thesis by (intro that [OF pc]) simp_all
qed

lemma race_step_safe:
  assumes "race_step c e s = Some s'" and "race_safe s"
  shows "race_safe s'"
proof (cases e)
  case (RClient w)
  have "same_word (puts (r_todo s) (r_mem s)) (puts (r_todo s) ((r_mem s)\<lparr>shm_cmd := w\<rparr>))"
    by (rule same_word_puts) (simp add: same_word_def)
  then show ?thesis using assms RClient same_word_safe by (auto simp: race_safe_def)
next
  case (RSup i)
  obtain v m where n: "sup_next c i (r_sup s, r_mem s) = (v, m)" by fastforce
  let ?acc = "sup_acc c i (r_sup s) (r_mem s)"
  have t: "r_todo s = []" and s': "s' = s\<lparr>r_sup := v, r_todo := ?acc,
      r_world := set_mem (r_world s) (m\<lparr>shm_mode_req := shm_mode_req (r_mem s), shm_faults := shm_faults (r_mem s)\<rparr>)\<rparr>"
    using assms(1) RSup n by (auto split: if_splits)
  have "sup_safe m" using sup_next_safe [of "(r_sup s, r_mem s)" c i] n assms(2) t by (simp add: race_safe_def)
  moreover have "same_word (puts ?acc (r_mem s')) (puts ?acc (r_mem s))" by (rule same_word_puts) (simp add: same_word_def s')
  moreover have "same_word (puts ?acc (r_mem s)) m" by (rule sup_next_acc [OF n])
  ultimately show ?thesis using assms(2) same_word_safe by (auto simp: race_safe_def s')
next
  case RStore
  then show ?thesis using assms by (auto simp: race_safe_def split: list.splits)
next
  case (RLoad i)
  then show ?thesis using assms load_keeps by (fastforce simp: race_safe_def split: if_splits prod.splits)
next
  case RAct
  obtain i req st wd where a: "r_pc s = Loaded i req" "ctl_mode c (r_ctl s) (set_mem (r_world s) (set_mode req (r_mem s))) = (st, wd)"
    "torque (r_ctl s') = torque st" "applied (r_ctl s') = applied st" "r_mem s' = r_mem s"
    "r_todo s' = r_todo s" using assms(1) unfolding RAct by (rule act_cases)
  have "torque_ok (r_ctl s')" using ctl_mode_step(2) [OF a(2)] assms(2) a(3,4) by (simp add: race_safe_def torque_ok_def)
  then show ?thesis using assms(2) by (simp add: race_safe_def a(5,6))
next
  case RNote
  from assms(1) [unfolded RNote] show ?thesis
  proof (rule note_cases)
    fix i r
    assume n: "r_ctl s' = r_ctl s" "r_todo s' = r_todo s" "r_mem s' = note_refused r (r_mem s)"
    show ?thesis using refused_only_safe [OF refused_only_puts [OF note_refused_only]] assms(2) by (simp add: race_safe_def n)
  qed
next
  case RGoal
  from assms(1) [unfolded RGoal] show ?thesis
    by (rule goal_cases) (use assms(2) in \<open>simp add: race_safe_def torque_ok_def\<close>)
next
  case RPublish
  obtain i where pc: "r_pc s = Acted i" using assms(1) RPublish by (auto split: ctl_pc.splits)
  obtain st wd where p: "ctl_publish i (r_ctl s) (r_world s) = (st, wd)" by fastforce
  obtain st' where g: "ctl_grid (ctl_period c) i st = Some st'" and s': "s' = s\<lparr>r_ctl := st', r_world := wd, r_pc := Asleep\<rparr>"
    using assms(1) RPublish pc p by auto
  note k = ctl_publish_keeps [OF p] and l = ctl_grid_keeps [OF g]
  have "same_word (puts (r_todo s) (r_mem s)) (puts (r_todo s) (shm wd))"
    by (rule same_word_puts) (simp add: k(11) same_word_def)
  then show ?thesis using assms(2) same_word_safe k(3,4) l(3,4) by (auto simp: race_safe_def torque_ok_def s')
qed

interpretation race_loop: guarded_run "race_step c" "\<lambda>e s. True" race_safe
  for c
  by unfold_locales (rule race_step_safe)

section \<open>The emergency stop\<close>

abbreviation (input) keeps_stop :: "access \<Rightarrow> bool" where
  "keeps_stop a \<equiv> (case a of SetMode r \<Rightarrow> r = SO101_MODE_ESTOP | _ \<Rightarrow> True)"

lemma puts_stop: "shm_mode_req m = SO101_MODE_ESTOP \<Longrightarrow> list_all keeps_stop xs \<Longrightarrow> shm_mode_req (puts xs m) = SO101_MODE_ESTOP"
proof (induction xs arbitrary: m)
  case (Cons x xs)
  then have "shm_mode_req (put x m) = SO101_MODE_ESTOP" by (cases x) simp_all
  then show ?case using Cons by simp
qed simp

lemma raises_stop: "shm_mode_req m = SO101_MODE_ESTOP \<Longrightarrow> list_all keeps_stop (raises xs m)"
proof (induction xs m rule: raises.induct)
  case (2 p b force_mode safe xs m)
  have "list_all keeps_stop (raise_acc m b force_mode safe)" using "2.prems" by (simp add: raise_acc_def)
  then show ?case using 2 puts_stop by (simp add: Let_def)
qed simp

lemma sup_acc_stop:
  assumes "shm_mode_req m = SO101_MODE_ESTOP" and "sup_safe m" and "\<not> (in_got i \<and> cmd_cmd (shm_cmd m) = SO101_CMD_RESET)"
  shows "list_all keeps_stop (sup_acc c i v m)"
proof -
  let ?a = "if in_got i then serve_acc m (shm_cmd m) else []"
  have "list_all keeps_stop ?a"
    using assms by (auto simp: serve_acc_def sup_safe_def block_teleop_bits block_all_bits)
  moreover have "list_all keeps_stop (raises xs (puts ?a m))" for xs
    using raises_stop [OF puts_stop [OF assms(1) calculation]] .
  ultimately show ?thesis by (cases "in_snap i") (simp_all add: sup_acc_def Let_def)
qed

definition serves_no_reset :: "race_event \<Rightarrow> race \<Rightarrow> bool" where
  "serves_no_reset e s = (case e of RSup i \<Rightarrow> \<not> (in_got i \<and> cmd_cmd (shm_cmd (r_mem s)) = SO101_CMD_RESET) | _ \<Rightarrow> True)"

text \<open>The stop stands: it is requested and no other store to the mode is pending; then the control thread has seen it;
  then torque is off.\<close>

definition stop_stands :: "race \<Rightarrow> bool" where
  "stop_stands s \<longleftrightarrow> race_safe s \<and> shm_mode_req (r_mem s) = SO101_MODE_ESTOP \<and> list_all keeps_stop (r_todo s)"

definition stop_seen :: "race \<Rightarrow> bool" where
  "stop_seen s \<longleftrightarrow> stop_stands s \<and> (case r_pc s of Loaded i req \<Rightarrow> req = SO101_MODE_ESTOP | _ \<Rightarrow> True)"

definition stop_done :: "race \<Rightarrow> bool" where
  "stop_done s \<longleftrightarrow> stop_seen s \<and> \<not> torque (r_ctl s)"

lemma stop_stands_step:
  assumes "race_step c e s = Some s'" and "stop_stands s" and "serves_no_reset e s"
  shows "stop_stands s'"
proof -
  have safe: "race_safe s" "race_safe s'" using race_step_safe [OF assms(1)] assms(2) by (simp_all add: stop_stands_def)
  have m: "shm_mode_req (r_mem s) = SO101_MODE_ESTOP" "list_all keeps_stop (r_todo s)" using assms(2) by (simp_all add: stop_stands_def)
  have "shm_mode_req (r_mem s') = SO101_MODE_ESTOP \<and> list_all keeps_stop (r_todo s')"
  proof (cases e)
    case (RSup i)
    have t: "r_todo s = []" using assms(1) RSup by (auto split: if_splits)
    then have "list_all keeps_stop (sup_acc c i (r_sup s) (r_mem s))"
      using safe(1) assms(3) RSup by (intro sup_acc_stop [OF m(1)]) (simp_all add: race_safe_def serves_no_reset_def)
    then show ?thesis using assms(1) RSup m t by (auto split: prod.splits)
  next
    case RStore
    obtain a as where "r_todo s = a # as" using assms(1) RStore by (auto split: list.splits)
    then show ?thesis using assms(1) RStore m by (cases a) auto
  next
    case (RLoad i)
    then show ?thesis using assms(1) m load_keeps(1) by (auto split: if_splits prod.splits)
  next
    case RAct
    from assms(1) [unfolded RAct] show ?thesis by (rule act_cases) (use m in simp)
  next
    case RNote
    from assms(1) [unfolded RNote] show ?thesis by (rule note_cases) (use m in \<open>simp add: note_refused_def\<close>)
  next
    case RGoal
    from assms(1) [unfolded RGoal] show ?thesis by (rule goal_cases) (use m in simp)
  next
    case RPublish
    then show ?thesis using assms(1) m ctl_publish_keeps(11) by (fastforce split: ctl_pc.splits prod.splits)
  qed (use assms(1) m in auto)
  then show ?thesis using safe(2) by (simp add: stop_stands_def)
qed

lemma stop_load:
  assumes "race_step c (RLoad i) s = Some s'" and "stop_stands s"
  shows "stop_seen s'"
proof -
  have "stop_stands s'" by (rule stop_stands_step [OF assms]) (simp add: serves_no_reset_def)
  moreover have "\<exists>i. r_pc s' = Loaded i (shm_mode_req (r_mem s'))" using assms(1) by (auto split: if_splits prod.splits)
  ultimately show ?thesis by (auto simp: stop_seen_def stop_stands_def)
qed

lemma stop_act:
  assumes "race_step c RAct s = Some s'" and "stop_seen s"
  shows "stop_done s'"
proof -
  have "stop_stands s'" by (rule stop_stands_step [OF assms(1)]) (use assms(2) in \<open>simp_all add: stop_seen_def serves_no_reset_def\<close>)
  obtain i req st wd where a: "r_pc s = Loaded i req" "ctl_mode c (r_ctl s) (set_mem (r_world s) (set_mode req (r_mem s))) = (st, wd)"
    "torque (r_ctl s') = torque st" "r_pc s' = Moded i (refused_note (r_ctl s) req)" using assms(1) by (rule act_cases)
  have "mode_wanted (set_mem (r_world s) (set_mode req (r_mem s))) = SO101_MODE_ESTOP"
    using assms(2) a(1) by (simp add: stop_seen_def mode_wanted_def)
  then have "\<not> torque st" using ctl_mode_step(3) [OF a(2)] assms(2) by (simp add: stop_seen_def stop_stands_def race_safe_def)
  then show ?thesis using \<open>stop_stands s'\<close> a(3,4) by (simp add: stop_done_def stop_seen_def)
qed

lemma stop_seen_step:
  assumes "race_step c e s = Some s'" and "stop_seen s" and "serves_no_reset e s"
  shows "stop_seen s'"
proof (cases "\<exists>i. e = RLoad i")
  case True
  then show ?thesis using assms(1,2) stop_load by (auto simp: stop_seen_def simp del: race_step.simps)
next
  case False
  have "stop_stands s'" using stop_stands_step [OF assms(1) _ assms(3)] assms(2) by (simp add: stop_seen_def)
  moreover have "r_pc s' = r_pc s \<or> (case r_pc s' of Loaded i req \<Rightarrow> False | _ \<Rightarrow> True)"
    using assms(1) False by (cases e) (auto split: if_splits list.splits ctl_pc.splits option.splits prod.splits)
  ultimately show ?thesis using assms(2) by (auto simp: stop_seen_def split: ctl_pc.splits)
qed

lemma stop_done_step:
  assumes "race_step c e s = Some s'" and "stop_done s" and "serves_no_reset e s"
  shows "stop_done s'"
proof (cases "e = RAct")
  case True
  then show ?thesis using assms(1,2) stop_act by (auto simp: stop_done_def simp del: race_step.simps)
next
  case False
  have "stop_seen s'" using stop_seen_step [OF assms(1) _ assms(3)] assms(2) by (simp add: stop_done_def)
  moreover have "\<not> torque (r_ctl s')"
  proof (cases e)
    case RNote
    from assms(1) [unfolded RNote] show ?thesis by (rule note_cases) (use assms(2) in \<open>simp add: stop_done_def\<close>)
  next
    case RGoal
    from assms(1) [unfolded RGoal] show ?thesis by (rule goal_cases) (use assms(2) in \<open>simp add: stop_done_def\<close>)
  next
    case (RLoad i)
    then show ?thesis using assms(1,2) load_keeps(3) by (fastforce simp: stop_done_def split: if_splits prod.splits)
  next
    case RPublish
    obtain i where pc: "r_pc s = Acted i" using assms(1) RPublish by (auto split: ctl_pc.splits)
    obtain st wd where p: "ctl_publish i (r_ctl s) (r_world s) = (st, wd)" by fastforce
    obtain st' where g: "ctl_grid (ctl_period c) i st = Some st'" and "r_ctl s' = st'"
      using assms(1) RPublish pc p by auto
    then show ?thesis using ctl_publish_keeps(4) [OF p] ctl_grid_keeps(4) [OF g] assms(2) by (simp add: stop_done_def)
  qed (use assms(1,2) False in \<open>auto simp: stop_done_def split: if_splits list.splits prod.splits\<close>)
  ultimately show ?thesis by (simp add: stop_done_def)
qed

interpretation stands: guarded_run "race_step c" serves_no_reset stop_stands
  for c
  by unfold_locales (rule stop_stands_step)

interpretation seen: guarded_run "race_step c" serves_no_reset stop_seen
  for c
  by unfold_locales (rule stop_seen_step)

interpretation off: guarded_run "race_step c" serves_no_reset stop_done
  for c
  by unfold_locales (rule stop_done_step)

lemma seen_then_off:
  assumes "race_run c (RLoad i # es @ RAct # fs) s = Some s'" and "stop_stands s" and "ok_run (race_step c) serves_no_reset (RLoad i # es @ RAct # fs) s"
  shows "stop_done s'"
proof -
  obtain s1 s2 s3 where r: "race_step c (RLoad i) s = Some s1" "race_run c es s1 = Some s2" "race_step c RAct s2 = Some s3" "race_run c fs s3 = Some s'"
    using assms(1) by (auto simp: opt_run_append bind_eq_Some_conv simp del: race_step.simps)
  have "ok_run (race_step c) serves_no_reset (es @ RAct # fs) s1" using assms(3) r(1) by (simp del: race_step.simps)
  from ok_run_append [OF this r(2)] have ok: "ok_run (race_step c) serves_no_reset es s1" "ok_run (race_step c) serves_no_reset fs s3"
    using r(3) by (simp_all del: race_step.simps)
  have "stop_seen s2" using seen.inv_run [OF stop_load [OF r(1) assms(2)] ok(1) r(2)] .
  from off.inv_run [OF stop_act [OF r(3) this] ok(2) r(4)] show ?thesis .
qed

lemma loaded_step:
  assumes "race_step c e s = Some s'" and "r_pc s = Loaded i req" and "e \<noteq> RAct"
  shows "r_pc s' = Loaded i req \<and> r_ctl s' = r_ctl s"
  using assms by (cases e) (auto split: if_splits list.splits prod.splits)

lemma loaded_run:
  "race_run c es s = Some s' \<Longrightarrow> r_pc s = Loaded i req \<Longrightarrow> RAct \<notin> set es \<Longrightarrow> r_pc s' = Loaded i req \<and> r_ctl s' = r_ctl s"
proof (induction es arbitrary: s)
  case (Cons e es)
  then obtain t where t: "race_step c e s = Some t" "race_run c es t = Some s'" by (auto simp: bind_eq_Some_conv simp del: race_step.simps)
  from loaded_step [OF t(1) Cons.prems(2)] Cons.IH [OF t(2)] Cons.prems(3) show ?case by auto
qed simp

end
