(* ===== verification/Races_Props.thy ===== *)
theory Races_Props
  imports Races Control_Props
begin

text \<open>
  The properties of the daemon at the grain of single accesses, and a run in which the control thread acts on a
  mode that has been withdrawn in the meantime.
\<close>

definition ra_state :: "u32 \<Rightarrow> u32 \<Rightarrow> ctl_pc \<Rightarrow> race" where
  "ra_state m f pc = \<lparr>r_ctl = ex_ctl\<lparr>torque := True, applied := SO101_MODE_HOLD\<rparr>,
     r_world = (ex_world m)\<lparr>shm := (ex_mem m)\<lparr>shm_faults := f,
       shm_cmd := \<lparr>cmd_id = 8, cmd_cmd = SO101_CMD_ESTOP, cmd_arg = 0, cmd_client_pid = 900\<rparr>\<rparr>\<rparr>,
     r_pc = pc, r_sup = sup_init 0 0 0, r_todo = []\<rparr>"

definition ra_in :: sup_in where
  "ra_in = \<lparr>in_got = True, in_now = 20, in_lock = 0, in_snap = None\<rparr>"

text \<open>C3. The emergency stop under every interleaving of accesses. Once ESTOP is requested and the supervisor has no other store
  to the mode pending, and as long as it serves no RESET, the mode stays ESTOP; as soon as the control
  thread has loaded the mode once more and acted, torque is off and stays off. A pass that was under way with an
  older mode may still act on it; the next one does not.\<close>

theorem race_estop:
  assumes "stop_stands s" and "opt_run (race_step c) (ds @ RLoad i # es @ RAct # fs) s = Some s'"
    and "ok_run (race_step c) serves_no_reset (ds @ RLoad i # es @ RAct # fs) s"
  shows "shm_mode_req (shm (r_world s')) = SO101_MODE_ESTOP \<and> \<not> torque (r_ctl s')"
proof -
  obtain t where t: "race_run c ds s = Some t" "race_run c (RLoad i # es @ RAct # fs) t = Some s'"
    using assms(2) by (auto simp: opt_run_append bind_eq_Some_conv simp del: race_step.simps opt_run.simps)
  note ok = ok_run_append [OF assms(3) t(1)]
  have "stop_done s'" using seen_then_off [OF t(2) stands.inv_run [OF assms(1) conjunct1 [OF ok] t(1)] conjunct2 [OF ok]] .
  then show ?thesis by (simp add: stop_done_def stop_seen_def stop_stands_def)
qed

theorem race_estop_witness:
  "\<exists>s'. opt_run (race_step ex_ctx) ([RAct, RGoal, RPublish] @ RLoad ex_time # [] @ RAct # [RGoal, RPublish])
       (ra_state SO101_MODE_ESTOP SO101_F_ESTOP (Loaded ex_time SO101_MODE_HOLD)) = Some s' \<and>
     shm_mode_req (shm (r_world s')) = SO101_MODE_ESTOP \<and> \<not> torque (r_ctl s')"
proof -
  let ?s = "ra_state SO101_MODE_ESTOP SO101_F_ESTOP (Loaded ex_time SO101_MODE_HOLD)"
    and ?es = "[RAct, RGoal, RPublish] @ RLoad ex_time # [] @ RAct # [RGoal, RPublish]"
  have "\<not> Option.is_none (opt_run (race_step ex_ctx) ?es ?s)" by code_simp
  then obtain s' where r: "opt_run (race_step ex_ctx) ?es ?s = Some s'" by (cases "opt_run (race_step ex_ctx) ?es ?s") simp_all
  have "stop_stands ?s"
    by (simp add: stop_stands_def race_safe_def ra_state_def sup_safe_def torque_ok_def ex_mem_def and_fault bit_fault)
  moreover have "ok_run (race_step ex_ctx) serves_no_reset ?es ?s"
  proof -
    have k: "ok_run step serves_no_reset es s" if "list_all (\<lambda>e. case e of RSup i \<Rightarrow> False | _ \<Rightarrow> True) es" for step es s
      using that by (induction es arbitrary: s) (auto simp: serves_no_reset_def split: option.split race_event.splits)
    show ?thesis by (rule k) simp
  qed
  ultimately show ?thesis using race_estop [OF _ r] r by blast
qed

text \<open>C4. Torque under every interleaving of accesses. When the control thread acts on a mode it loaded earlier and torque is on
  afterwards, that mode was TELEOP or HOLD and was the one requested at the moment of the load; and if the supervisor
  was not in the middle of its stores then, no fault stood against it.\<close>

theorem race_powered:
  assumes "race_safe s" and "race_step c (RLoad i) s = Some s1" and "opt_run (race_step c) es s1 = Some s2" and "RAct \<notin> set es"
    and "race_step c RAct s2 = Some s3" and "torque (r_ctl s3)"
  shows "shm_mode_req (shm (r_world s)) \<in> {SO101_MODE_TELEOP, SO101_MODE_HOLD} \<and> applied (r_ctl s3) = shm_mode_req (shm (r_world s)) \<and>
    (r_todo s = [] \<longrightarrow> shm_faults (shm (r_world s)) AND F_BLOCK_ALL = 0 \<and>
      (applied (r_ctl s3) = SO101_MODE_TELEOP \<longrightarrow> shm_faults (shm (r_world s)) AND F_BLOCK_TELEOP = 0))"
proof -
  let ?req = "shm_mode_req (r_mem s)"
  have "r_mem s1 = r_mem s \<and> r_pc s1 = Loaded i ?req" using assms(2) load_keeps(1) by (auto split: if_splits prod.splits)
  then have pc: "r_pc s2 = Loaded i ?req" using loaded_run [OF assms(3) _ assms(4)] by simp
  have safe: "torque_ok (r_ctl s2)"
    using race_loop.inv_run [OF race_step_safe [OF assms(2,1)] _ assms(3)] by (simp add: race_safe_def)
  obtain st wd where a: "ctl_mode c (r_ctl s2) (set_mem (r_world s2) (set_mode ?req (r_mem s2))) = (st, wd)"
    "torque (r_ctl s3) = torque st" "applied (r_ctl s3) = applied st"
    using assms(5) by (rule act_cases) (use pc in auto)
  have t: "applied st = mode_wanted (set_mem (r_world s2) (set_mode ?req (r_mem s2)))" "applied st = SO101_MODE_TELEOP \<or> applied st = SO101_MODE_HOLD"
    using ctl_mode_step(1,2) [OF a(1) safe] assms(6) a(2) by (simp_all add: torque_ok_def)
  then have q: "applied st = ?req" by (auto simp: mode_wanted_def split: if_splits)
  have "r_todo s = [] \<longrightarrow> sup_safe (r_mem s)" using assms(1) by (auto simp: race_safe_def)
  then show ?thesis using t(2) unfolding a(3) q by (auto simp: sup_safe_def block_teleop_bits)
qed

theorem race_powered_witness:
  "\<exists>s1 s2 s3. race_step ex_ctx (RLoad ex_time) (ra_state SO101_MODE_HOLD 0 Asleep) = Some s1 \<and>
     opt_run (race_step ex_ctx) [RSup ra_in, RStore, RStore] s1 = Some s2 \<and> race_step ex_ctx RAct s2 = Some s3 \<and>
     torque (r_ctl s3) \<and> applied (r_ctl s3) = SO101_MODE_HOLD \<and> shm_mode_req (shm (r_world s3)) = SO101_MODE_ESTOP"
proof -
  let ?s = "ra_state SO101_MODE_HOLD 0 Asleep" and ?es = "[RSup ra_in, RStore, RStore]"
  have "case opt_run (race_step ex_ctx) (RLoad ex_time # ?es @ [RAct]) ?s of None \<Rightarrow> False
    | Some s \<Rightarrow> torque (r_ctl s) \<and> shm_mode_req (shm (r_world s)) = SO101_MODE_ESTOP" by code_simp
  then obtain s1 s2 s3 where r: "race_step ex_ctx (RLoad ex_time) ?s = Some s1" "opt_run (race_step ex_ctx) ?es s1 = Some s2"
    "race_step ex_ctx RAct s2 = Some s3" "torque (r_ctl s3)" "shm_mode_req (shm (r_world s3)) = SO101_MODE_ESTOP"
    by (auto simp: opt_run_append bind_eq_Some_conv simp del: race_step.simps split: option.splits)
  have "race_safe ?s" by (simp add: race_safe_def ra_state_def sup_safe_def torque_ok_def ex_mem_def)
  from race_powered [OF this r(1,2) _ r(3,4)] r show ?thesis by (auto simp: ra_state_def ex_mem_def simp del: race_step.simps opt_run.simps)
qed

end
