(* ===== verification/Mailbox.thy ===== *)
theory Mailbox
  imports Supervisor
begin

text \<open>
  The command mailbox between any number of clients and the supervisor: \<open>send_cmd\<close> of
  \<^verbatim>\<open>daemon/tools/so101ctl.c\<close> against part 2 of the supervisor's loop, over the two named semaphores
  and the shared memory. One event is one access to shared state, so every interleaving of the
  stores of a client with the loads of the supervisor is a list of events. \<open>mb_step\<close> gives the
  state after an event, or nothing when the event is not possible in the state.

  Clients are numbered by their process id. Time is abstracted: a waiting client may give up at any
  moment (\<open>LockBusy\<close>), a polling one after 1000 polls, and the supervisor may release a mailbox it
  finds locked (\<open>SupRelease\<close>, the outcome of \<open>LOCK_STUCK_MS\<close>) at any moment it is not serving.
\<close>

section \<open>State\<close>

text \<open>Where a client stands in \<open>send_cmd\<close>; the command it sends comes along.\<close>

datatype cl =
    Outside
  | Waiting u32 int
  | Busy u32 int
  | Holding u32 int
  | Filling nat so101_cmd
  | Polling nat so101_cmd
  | Answered so101_cmd
  | Releasing so101_cmd int
  | Done so101_cmd int
  | NoAnswer so101_cmd
  | Dead

datatype sv =
    SIdle
  | SGot
  | SCopied so101_cmd
  | SServed so101_cmd int
  | SAcking so101_cmd

text \<open>\<open>mb_posted\<close> and \<open>mb_log\<close> are ghosts: the commands announced to the supervisor, the commands served with their result.\<close>

record mbox =
  mb_lock :: nat
  mb_ready :: nat
  mb_shm :: so101_shm
  mb_sup :: sv
  mb_cl :: "int \<Rightarrow> cl"
  mb_posted :: "so101_cmd list"
  mb_log :: "(so101_cmd \<times> int) list"

datatype mb_event =
    Enter int u32 int
  | TakeLock int
  | LockBusy int
  | MakeId int u32
  | Store int
  | PostReady int
  | PollAck int
  | ReadResult int
  | ReleaseLock int
  | GiveUp int
  | Die int
  | SupTake
  | SupCopy
  | SupServe
  | SupResult
  | SupId
  | SupRelease

section \<open>Operations\<close>

text \<open>The identifier of a command: process id and clock, never zero.\<close>

definition new_id :: "int \<Rightarrow> u32 \<Rightarrow> u32" where
  "new_id pid nsec = (let i = push_bit 12 (word_of_int pid) XOR nsec in if i = 0 then 1 else i)"

text \<open>The four stores to the mailbox in their order.\<close>

definition store_field :: "nat \<Rightarrow> so101_cmd \<Rightarrow> so101_cmd \<Rightarrow> so101_cmd" where
  "store_field k w m =
     (if k = 0 then m\<lparr>cmd_cmd := cmd_cmd w\<rparr>
      else if k = 1 then m\<lparr>cmd_arg := cmd_arg w\<rparr>
      else if k = 2 then m\<lparr>cmd_client_pid := cmd_client_pid w\<rparr>
      else m\<lparr>cmd_id := cmd_id w\<rparr>)"

definition goes :: "mbox \<Rightarrow> int \<Rightarrow> cl \<Rightarrow> mbox" where
  "goes s p c = s\<lparr>mb_cl := (mb_cl s)(p := c)\<rparr>"

fun mb_step :: "mb_event \<Rightarrow> mbox \<Rightarrow> mbox option" where
  "mb_step (Enter p c a) s = (case mb_cl s p of Outside \<Rightarrow> Some (goes s p (Waiting c a)) | _ \<Rightarrow> None)"
| "mb_step (TakeLock p) s =
     (case mb_cl s p of Waiting c a \<Rightarrow>
        if mb_lock s > 0 then Some (goes (s\<lparr>mb_lock := mb_lock s - 1\<rparr>) p (Holding c a)) else None
      | _ \<Rightarrow> None)"
| "mb_step (LockBusy p) s = (case mb_cl s p of Waiting c a \<Rightarrow> Some (goes s p (Busy c a)) | _ \<Rightarrow> None)"
| "mb_step (MakeId p t) s =
     (case mb_cl s p of Holding c a \<Rightarrow>
        Some (goes s p (Filling 0 \<lparr>cmd_id = new_id p t, cmd_cmd = c, cmd_arg = a, cmd_client_pid = p\<rparr>))
      | _ \<Rightarrow> None)"
| "mb_step (Store p) s =
     (case mb_cl s p of Filling k w \<Rightarrow>
        if k < 4
        then Some (goes (s\<lparr>mb_shm := (mb_shm s)\<lparr>shm_cmd := store_field k w (shm_cmd (mb_shm s))\<rparr>\<rparr>) p (Filling (Suc k) w))
        else None
      | _ \<Rightarrow> None)"
| "mb_step (PostReady p) s =
     (case mb_cl s p of Filling k w \<Rightarrow>
        if k = 4 then Some (goes (s\<lparr>mb_ready := mb_ready s + 1, mb_posted := mb_posted s @ [w]\<rparr>) p (Polling 0 w)) else None
      | _ \<Rightarrow> None)"
| "mb_step (PollAck p) s =
     (case mb_cl s p of Polling k w \<Rightarrow>
        if k < 1000
        then Some (goes s p (if ack_id (shm_ack (mb_shm s)) = cmd_id w then Answered w else Polling (Suc k) w))
        else None
      | _ \<Rightarrow> None)"
| "mb_step (ReadResult p) s =
     (case mb_cl s p of Answered w \<Rightarrow> Some (goes s p (Releasing w (ack_result (shm_ack (mb_shm s))))) | _ \<Rightarrow> None)"
| "mb_step (ReleaseLock p) s =
     (case mb_cl s p of Releasing w r \<Rightarrow> Some (goes (s\<lparr>mb_lock := mb_lock s + 1\<rparr>) p (Done w r)) | _ \<Rightarrow> None)"
| "mb_step (GiveUp p) s =
     (case mb_cl s p of Polling k w \<Rightarrow>
        if k \<ge> 1000 then Some (goes (s\<lparr>mb_lock := mb_lock s + 1\<rparr>) p (NoAnswer w)) else None
      | _ \<Rightarrow> None)"
| "mb_step (Die p) s = Some (goes s p Dead)"
| "mb_step SupTake s =
     (case mb_sup s of SIdle \<Rightarrow>
        if mb_ready s > 0 then Some (s\<lparr>mb_ready := mb_ready s - 1, mb_sup := SGot\<rparr>) else None
      | _ \<Rightarrow> None)"
| "mb_step SupCopy s = (case mb_sup s of SGot \<Rightarrow> Some (s\<lparr>mb_sup := SCopied (shm_cmd (mb_shm s))\<rparr>) | _ \<Rightarrow> None)"
| "mb_step SupServe s =
     (case mb_sup s of SCopied c \<Rightarrow>
        let (r, m) = serve_command (mb_shm s) c
        in Some (s\<lparr>mb_shm := m, mb_sup := SServed c r, mb_log := mb_log s @ [(c, r)]\<rparr>)
      | _ \<Rightarrow> None)"
| "mb_step SupResult s =
     (case mb_sup s of SServed c r \<Rightarrow>
        Some (s\<lparr>mb_shm := (mb_shm s)\<lparr>shm_ack := (shm_ack (mb_shm s))\<lparr>ack_result := r\<rparr>\<rparr>, mb_sup := SAcking c\<rparr>)
      | _ \<Rightarrow> None)"
| "mb_step SupId s =
     (case mb_sup s of SAcking c \<Rightarrow>
        Some (s\<lparr>mb_shm := (mb_shm s)\<lparr>shm_ack := (shm_ack (mb_shm s))\<lparr>ack_id := cmd_id c\<rparr>\<rparr>, mb_sup := SIdle\<rparr>)
      | _ \<Rightarrow> None)"
| "mb_step SupRelease s =
     (case mb_sup s of SIdle \<Rightarrow>
        if mb_ready s = 0 \<and> mb_lock s = 0 then Some (s\<lparr>mb_lock := mb_lock s + 1\<rparr>) else None
      | _ \<Rightarrow> None)"

text \<open>The mailbox as the daemon creates it, over a shared memory \<open>m\<close>.\<close>

definition mb_init :: "so101_shm \<Rightarrow> mbox" where
  "mb_init m = \<lparr>mb_lock = 1, mb_ready = 0, mb_shm = m, mb_sup = SIdle, mb_cl = (\<lambda>p. Outside), mb_posted = [], mb_log = []\<rparr>"

text \<open>
  The conditions of the protocol: no client dies or gives up holding the mailbox, the supervisor
  does not take the mailbox from a client, and the identifier a client chooses is not the one of
  the last answer.
\<close>

fun orderly :: "mb_event \<Rightarrow> mbox \<Rightarrow> bool" where
  "orderly (GiveUp _) s = False"
| "orderly (Die _) s = False"
| "orderly SupRelease s = False"
| "orderly (MakeId p t) s = (new_id p t \<noteq> ack_id (shm_ack (mb_shm s)))"
| "orderly _ s = True"

section \<open>Invariant\<close>

fun holder :: "cl \<Rightarrow> bool" where
  "holder (Holding _ _) = True" | "holder (Filling _ _) = True" | "holder (Polling _ _) = True"
| "holder (Answered _) = True" | "holder (Releasing _ _) = True" | "holder _ = False"

definition stored :: "nat \<Rightarrow> so101_cmd \<Rightarrow> so101_cmd \<Rightarrow> bool" where
  "stored k w m \<longleftrightarrow> k \<le> 4 \<and> (0 < k \<longrightarrow> cmd_cmd m = cmd_cmd w) \<and> (1 < k \<longrightarrow> cmd_arg m = cmd_arg w) \<and>
     (2 < k \<longrightarrow> cmd_client_pid m = cmd_client_pid w) \<and> (3 < k \<longrightarrow> cmd_id m = cmd_id w)"

definition quiet :: "mbox \<Rightarrow> bool" where
  "quiet s \<longleftrightarrow> mb_ready s = 0 \<and> mb_sup s = SIdle \<and> mb_posted s = map fst (mb_log s)"

abbreviation (input) the_ack :: "mbox \<Rightarrow> so101_ack" where
  "the_ack s \<equiv> shm_ack (mb_shm s)"

text \<open>The announced command \<open>w\<close> on its way through the supervisor.\<close>

fun serving :: "sv \<Rightarrow> so101_cmd \<Rightarrow> mbox \<Rightarrow> bool" where
  "serving SIdle w s = (if ack_id (the_ack s) = cmd_id w then quiet s \<and> (w, ack_result (the_ack s)) \<in> set (mb_log s)
     else mb_ready s = 1 \<and> mb_posted s = map fst (mb_log s) @ [w])"
| "serving SGot w s = (mb_ready s = 0 \<and> ack_id (the_ack s) \<noteq> cmd_id w \<and> mb_posted s = map fst (mb_log s) @ [w])"
| "serving (SCopied c) w s =
     (mb_ready s = 0 \<and> ack_id (the_ack s) \<noteq> cmd_id w \<and> c = w \<and> mb_posted s = map fst (mb_log s) @ [w])"
| "serving (SServed c r) w s =
     (mb_ready s = 0 \<and> ack_id (the_ack s) \<noteq> cmd_id w \<and> c = w \<and> (w, r) \<in> set (mb_log s) \<and> mb_posted s = map fst (mb_log s))"
| "serving (SAcking c) w s =
     (mb_ready s = 0 \<and> ack_id (the_ack s) \<noteq> cmd_id w \<and> c = w \<and> (w, ack_result (the_ack s)) \<in> set (mb_log s) \<and>
      mb_posted s = map fst (mb_log s))"

fun phase_ok :: "cl \<Rightarrow> mbox \<Rightarrow> bool" where
  "phase_ok (Holding c a) s = quiet s"
| "phase_ok (Filling k w) s = (quiet s \<and> stored k w (shm_cmd (mb_shm s)) \<and> ack_id (the_ack s) \<noteq> cmd_id w)"
| "phase_ok (Polling k w) s = (shm_cmd (mb_shm s) = w \<and> serving (mb_sup s) w s)"
| "phase_ok (Answered w) s = (quiet s \<and> (w, ack_result (the_ack s)) \<in> set (mb_log s))"
| "phase_ok (Releasing w r) s = (quiet s \<and> (w, r) \<in> set (mb_log s))"
| "phase_ok _ s = True"

definition done_ok :: "mbox \<Rightarrow> bool" where
  "done_ok s \<longleftrightarrow> (\<forall>p w r. mb_cl s p = Done w r \<longrightarrow> (w, r) \<in> set (mb_log s))"

definition mb_free :: "mbox \<Rightarrow> bool" where
  "mb_free s \<longleftrightarrow> mb_lock s = 1 \<and> (\<forall>p. \<not> holder (mb_cl s p)) \<and> quiet s"

definition mb_held :: "int \<Rightarrow> mbox \<Rightarrow> bool" where
  "mb_held p s \<longleftrightarrow> mb_lock s = 0 \<and> holder (mb_cl s p) \<and> (\<forall>q. q \<noteq> p \<longrightarrow> \<not> holder (mb_cl s q)) \<and> phase_ok (mb_cl s p) s"

definition mb_inv :: "mbox \<Rightarrow> bool" where
  "mb_inv s \<longleftrightarrow> done_ok s \<and> (mb_free s \<or> (\<exists>p. mb_held p s))"

lemma mb_init_inv: "mb_inv (mb_init m)"
  by (simp add: mb_inv_def mb_free_def done_ok_def mb_init_def quiet_def)

lemma mb_inv_cases:
  assumes "mb_inv s"
  obtains (free) "mb_free s" "done_ok s" | (held) p where "mb_held p s" "done_ok s"
  using assms by (auto simp: mb_inv_def)

lemma goes_simps [simp]:
  "mb_cl (goes s p c) q = (if q = p then c else mb_cl s q)" "mb_lock (goes s p c) = mb_lock s" "mb_ready (goes s p c) = mb_ready s"
  "mb_shm (goes s p c) = mb_shm s" "mb_sup (goes s p c) = mb_sup s" "mb_posted (goes s p c) = mb_posted s" "mb_log (goes s p c) = mb_log s"
  by (simp_all add: goes_def)

lemma quiet_goes [simp]: "quiet (goes s p c) = quiet s"
  by (simp add: quiet_def)

lemma serving_goes [simp]: "serving v w (goes s p c) = serving v w s"
  by (cases v) simp_all

lemma phase_ok_goes [simp]: "phase_ok x (goes s p c) = phase_ok x s"
  by (cases x) simp_all

lemma done_ok_goes: "done_ok s \<Longrightarrow> (\<And>w r. c = Done w r \<Longrightarrow> (w, r) \<in> set (mb_log s)) \<Longrightarrow> done_ok (goes s p c)"
  by (auto simp: done_ok_def)

text \<open>A client that does not hold the mailbox moves to a place where it does not either.\<close>

lemma inv_outsider:
  assumes "mb_inv s" and "\<not> holder (mb_cl s p)" and "\<not> holder c" and "\<And>w r. c \<noteq> Done w r"
  shows "mb_inv (goes s p c)"
  using assms(1)
proof (cases rule: mb_inv_cases)
  case free
  then show ?thesis using assms by (auto simp: mb_inv_def mb_free_def intro: done_ok_goes)
next
  case (held q)
  then have "q \<noteq> p" using assms(2) by (auto simp: mb_held_def)
  then have "mb_held q (goes s p c)" using held assms(3) by (simp add: mb_held_def)
  then show ?thesis using held assms(4) by (auto simp: mb_inv_def intro: done_ok_goes)
qed

lemma inv_holder:
  assumes "mb_inv s" and "holder (mb_cl s p)"
  shows "mb_held p s" "done_ok s"
proof -
  obtain q where q: "mb_held q s" "done_ok s" using assms by (auto simp: mb_inv_def mb_free_def)
  then have "q = p" using assms(2) by (auto simp: mb_held_def)
  then show "mb_held p s" "done_ok s" using q by simp_all
qed

text \<open>The holder moves on, or back out.\<close>

lemma held_move:
  assumes "mb_held p s" and "done_ok s" and "holder c" and "phase_ok c t"
    and "mb_cl t = mb_cl s" "mb_lock t = mb_lock s" "mb_log t = mb_log s"
  shows "mb_inv (goes t p c)"
proof -
  have "mb_held p (goes t p c)" using assms by (simp add: mb_held_def)
  moreover have "done_ok (goes t p c)" using assms(2,3,5,7) by (auto simp: done_ok_def)
  ultimately show ?thesis by (auto simp: mb_inv_def)
qed

lemma stored_step:
  "stored k w m \<Longrightarrow> k < 4 \<Longrightarrow> stored (Suc k) w (store_field k w m)"
  by (auto simp: stored_def store_field_def)

lemma stored_all: "stored 4 w m \<Longrightarrow> m = w"
  by (simp add: stored_def)

lemmas event_splits = cl.splits sv.splits if_splits

text \<open>Every step of an orderly run keeps the invariant: first the client that takes the mailbox and the one
  that gives it back, then the steps of its holder and of the supervisor.\<close>

lemma take_inv: "mb_inv s \<Longrightarrow> mb_step (TakeLock p) s = Some s' \<Longrightarrow> mb_inv s'"
proof -
  assume i: "mb_inv s" and st: "mb_step (TakeLock p) s = Some s'"
  then obtain c a where s': "mb_lock s > 0" "s' = goes (s\<lparr>mb_lock := mb_lock s - 1\<rparr>) p (Holding c a)"
    by (auto split: event_splits)
  then have "mb_free s" "done_ok s" using i by (auto simp: mb_inv_def mb_held_def)
  then have "mb_held p s'" "done_ok s'" using s' by (auto simp: mb_held_def mb_free_def quiet_def done_ok_def)
  then show ?thesis by (auto simp: mb_inv_def)
qed

lemma release_inv: "mb_inv s \<Longrightarrow> mb_step (ReleaseLock p) s = Some s' \<Longrightarrow> mb_inv s'"
proof -
  assume i: "mb_inv s" and st: "mb_step (ReleaseLock p) s = Some s'"
  then obtain w r where w: "mb_cl s p = Releasing w r" and s': "s' = goes (s\<lparr>mb_lock := mb_lock s + 1\<rparr>) p (Done w r)"
    by (auto split: event_splits)
  then have "mb_held p s" "done_ok s" using inv_holder [OF i, of p] by simp_all
  then have "mb_free s'" "done_ok s'" using w s' by (auto simp: mb_held_def mb_free_def quiet_def done_ok_def)
  then show ?thesis by (simp add: mb_inv_def)
qed

lemma holder_inv:
  assumes "mb_inv s" and "orderly e s"
    and "e \<in> {MakeId p t, Store p, PostReady p, PollAck p, ReadResult p}" and "mb_step e s = Some s'"
  shows "mb_inv s'"
proof -
  have hold: "holder (mb_cl s p)" using assms(3,4) by (auto split: event_splits)
  note h = inv_holder [OF assms(1) hold]
  then have ph: "phase_ok (mb_cl s p) s" by (simp add: mb_held_def)
  have "\<exists>t c. s' = goes t p c \<and> holder c \<and> phase_ok c t \<and> mb_cl t = mb_cl s \<and> mb_lock t = mb_lock s \<and> mb_log t = mb_log s"
    using assms(3)
  proof (elim insertE)
    assume "e = MakeId p t"
    then show ?thesis using assms(2,4) ph by (force simp: stored_def split: event_splits)
  next
    assume "e = Store p"
    then show ?thesis using assms(4) ph by (force simp: quiet_def stored_step split: event_splits)
  next
    assume "e = PostReady p"
    then show ?thesis using assms(4) ph by (force simp: quiet_def dest: stored_all split: event_splits)
  next
    assume "e = PollAck p"
    then show ?thesis using assms(4) ph by (cases "mb_sup s") (force split: event_splits)+
  next
    assume "e = ReadResult p"
    then show ?thesis using assms(4) ph by (force split: event_splits)
  qed simp
  then show ?thesis using held_move [OF h] by blast
qed

lemma serve_command_mail:
  "serve_command m c = (r, m') \<Longrightarrow> shm_cmd m' = shm_cmd m \<and> shm_ack m' = shm_ack m"
  by (auto simp: serve_command_def Let_def split: if_splits)

lemma busy_polling:
  assumes "mb_inv s" and "\<not> quiet s"
  obtains p k w where "mb_held p s" "mb_cl s p = Polling k w" "serving (mb_sup s) w s" "shm_cmd (mb_shm s) = w"
proof -
  obtain p where p: "mb_held p s" using assms by (auto simp: mb_inv_def mb_free_def)
  then obtain k w where "mb_cl s p = Polling k w"
    using assms(2) by (cases "mb_cl s p") (auto simp: mb_held_def)
  then show thesis using p that by (auto simp: mb_held_def)
qed

lemma sup_inv:
  assumes "mb_inv s" and "e \<in> {SupTake, SupCopy, SupServe, SupResult, SupId}" and "mb_step e s = Some s'"
  shows "mb_inv s'"
proof -
  have "\<not> quiet s" using assms(2,3) by (auto simp: quiet_def split: event_splits)
  then obtain p k w where h: "mb_held p s" and w: "mb_cl s p = Polling k w" by (rule busy_polling [OF assms(1)])
  have d: "done_ok s" using assms(1) by (simp add: mb_inv_def)
  have "mb_cl s' = mb_cl s \<and> mb_lock s' = mb_lock s \<and> shm_cmd (mb_shm s') = shm_cmd (mb_shm s) \<and>
      set (mb_log s) \<subseteq> set (mb_log s') \<and> serving (mb_sup s') w s'"
    using assms(2,3) h w
    by (auto simp: mb_held_def quiet_def split: event_splits prod.splits dest!: serve_command_mail)
  then have "mb_held p s'" "done_ok s'" using h d w by (auto simp: mb_held_def done_ok_def)
  then show ?thesis by (auto simp: mb_inv_def)
qed

lemma outsider_inv:
  "mb_inv s \<Longrightarrow> e \<in> {Enter p c a, LockBusy p} \<Longrightarrow> mb_step e s = Some s' \<Longrightarrow> mb_inv s'"
  by (auto split: event_splits intro!: inv_outsider)

lemma mb_step_inv:
  assumes i: "mb_inv s" and o: "orderly e s" and s: "mb_step e s = Some s'"
  shows "mb_inv s'"
proof (cases e)
  case (Enter p c a)
  then show ?thesis using outsider_inv [OF i _ s] by blast
next
  case (LockBusy p)
  then show ?thesis using outsider_inv [OF i _ s] by blast
next
  case (TakeLock p)
  then show ?thesis using take_inv i s by blast
next
  case (ReleaseLock p)
  then show ?thesis using release_inv i s by blast
next
  case (MakeId p t)
  then show ?thesis using holder_inv [OF i o _ s] by blast
next
  case (Store p)
  then show ?thesis using holder_inv [OF i o _ s] by blast
next
  case (PostReady p)
  then show ?thesis using holder_inv [OF i o _ s] by blast
next
  case (PollAck p)
  then show ?thesis using holder_inv [OF i o _ s] by blast
next
  case (ReadResult p)
  then show ?thesis using holder_inv [OF i o _ s] by blast
qed (use o sup_inv [OF i _ s] in simp_all)

interpretation mail: guarded_run mb_step orderly mb_inv
  by unfold_locales (rule mb_step_inv)

section \<open>One exchange\<close>

text \<open>A client and the supervisor alone: the events in the order of the header of \<^verbatim>\<open>so101_shm.h\<close>.\<close>

definition exchange :: "int \<Rightarrow> u32 \<Rightarrow> int \<Rightarrow> u32 \<Rightarrow> mb_event list" where
  "exchange p c a t = [Enter p c a, TakeLock p, MakeId p t, Store p, Store p, Store p, Store p, PostReady p,
     SupTake, SupCopy, SupServe, SupResult, SupId, PollAck p, ReadResult p, ReleaseLock p]"

definition sent :: "int \<Rightarrow> u32 \<Rightarrow> int \<Rightarrow> u32 \<Rightarrow> so101_cmd" where
  "sent p c a t = \<lparr>cmd_id = new_id p t, cmd_cmd = c, cmd_arg = a, cmd_client_pid = p\<rparr>"

lemma bind_Some_step: "step e s = Some t \<Longrightarrow> opt_run step (e # es) s = opt_run step es t"
  by simp

lemma store_four: "store_field (Suc (Suc (Suc 0))) w (store_field (Suc (Suc 0)) w (store_field (Suc 0) w (store_field 0 w m))) = w"
  by (simp add: store_field_def)

text \<open>The five steps of the supervisor are part 2 of its loop body.\<close>

lemma sup_steps_mailbox:
  assumes "mb_sup s = SIdle" and "mb_ready s > 0" and "in_got i"
  shows "\<exists>s' v' post log. opt_run mb_step [SupTake, SupCopy, SupServe, SupResult, SupId] s = Some s' \<and>
    sup_mailbox i v (mb_shm s) = (v', mb_shm s', post, log) \<and> mb_sup s' = SIdle \<and> mb_ready s' = mb_ready s - 1 \<and>
    mb_cl s' = mb_cl s \<and> mb_lock s' = mb_lock s"
  using assms by (auto simp: sup_mailbox_def Let_def split: prod.splits)

lemma poll_wait_run:
  "mb_cl s p = Polling k w \<Longrightarrow> ack_id (the_ack s) \<noteq> cmd_id w \<Longrightarrow> k + n \<le> 1000 \<Longrightarrow>
    opt_run mb_step (replicate n (PollAck p)) s = Some (goes s p (Polling (k + n) w))"
proof (induction n arbitrary: s k)
  case 0
  then show ?case by (simp add: goes_def fun_upd_idem)
next
  case (Suc n)
  let ?t = "goes s p (Polling (Suc k) w)"
  have "opt_run mb_step (replicate n (PollAck p)) ?t = Some (goes ?t p (Polling (Suc k + n) w))"
    using Suc.prems by (intro Suc.IH) simp_all
  then show ?case using Suc.prems by (simp add: goes_def)
qed

lemma exchange_runs:
  assumes "mb_lock s = 1" and "quiet s" and "mb_cl s p = Outside" and "new_id p t \<noteq> ack_id (shm_ack (mb_shm s))"
    and "serve_command ((mb_shm s)\<lparr>shm_cmd := sent p c a t\<rparr>) (sent p c a t) = (r, m)"
  shows "\<exists>s'. opt_run mb_step (exchange p c a t) s = Some s' \<and> mb_cl s' p = Done (sent p c a t) r \<and>
    mb_shm s' = m\<lparr>shm_ack := \<lparr>ack_id = new_id p t, ack_result = r\<rparr>\<rparr> \<and> mb_lock s' = 1 \<and> quiet s'"
  using assms unfolding exchange_def quiet_def by (simp add: store_four sent_def)

section \<open>Properties\<close>

text \<open>C9. The mailbox protocol is exact: in every interleaving of any number of clients with the supervisor in which
  no client dies or times out while it holds the mailbox and the supervisor does not take it away, at
  most one client is between taking and releasing the lock; the commands served are the commands announced,
  whole, in order and once each, with at most the last one still open; and a client that returns a result
  returns what serving its own command gave.\<close>

theorem mailbox_exact:
  assumes "opt_run mb_step es (mb_init m) = Some s" and "ok_run mb_step orderly es (mb_init m)"
  shows "(holder (mb_cl s p) \<and> holder (mb_cl s q) \<longrightarrow> p = q) \<and>
    (\<exists>open_cmds. mb_posted s = map fst (mb_log s) @ open_cmds \<and> length open_cmds \<le> 1) \<and>
    (mb_cl s p = Done w r \<longrightarrow> (w, r) \<in> set (mb_log s))"
proof -
  have i: "mb_inv s" using mail.inv_run [OF mb_init_inv assms(2,1)] .
  have 1: "holder (mb_cl s p) \<and> holder (mb_cl s q) \<longrightarrow> p = q"
    using inv_holder(1) [OF i] by (auto simp: mb_held_def)
  have 2: "\<exists>open_cmds. mb_posted s = map fst (mb_log s) @ open_cmds \<and> length open_cmds \<le> 1"
  proof (cases "quiet s")
    case True
    then show ?thesis by (simp add: quiet_def)
  next
    case False
    then obtain x k v where "mb_cl s x = Polling k v" "serving (mb_sup s) v s" by (rule busy_polling [OF i])
    then show ?thesis by (cases "mb_sup s") (auto split: if_splits simp: quiet_def)
  qed
  show ?thesis using 1 2 i by (auto simp: mb_inv_def done_ok_def)
qed

definition ex_memory :: so101_shm where
  "ex_memory = \<lparr>shm_magic = SO101_SHM_MAGIC, shm_version = 2, shm_size = 360, shm_daemon_pid = 1, shm_period_ns = 10000000,
     shm_n_joints = 6, shm_joint_names = [], shm_seq = 0, shm_s = sample_zero, shm_mode_req = SO101_MODE_IDLE, shm_faults = 0,
     shm_sup_beat = 0, shm_cmd = \<lparr>cmd_id = 0, cmd_cmd = 0, cmd_arg = 0, cmd_client_pid = 0\<rparr>,
     shm_ack = \<lparr>ack_id = 0, ack_result = 0\<rparr>\<rparr>"

theorem mailbox_exact_witness:
  "\<exists>s. opt_run mb_step (Enter 7 2 0 # exchange 5 1 1 33) (mb_init ex_memory) = Some s \<and>
     mb_cl s 5 = Done (sent 5 1 1 33) 0 \<and> (sent 5 1 1 33, 0) \<in> set (mb_log s)"
proof -
  let ?es = "Enter 7 2 0 # exchange 5 1 1 33"
  have "case opt_run mb_step ?es (mb_init ex_memory) of None \<Rightarrow> False | Some s \<Rightarrow> mb_cl s 5 = Done (sent 5 1 1 33) 0" by code_simp
  then obtain s where s: "opt_run mb_step ?es (mb_init ex_memory) = Some s" "mb_cl s 5 = Done (sent 5 1 1 33) 0"
    by (auto simp del: opt_run.simps mb_step.simps split: option.splits)
  have "ok_run mb_step orderly ?es (mb_init ex_memory)" by code_simp
  from mailbox_exact [OF s(1) this, of 5] s show ?thesis by blast
qed

text \<open>A command sent to an idle mailbox is carried out: when a client finds the mailbox free and nothing interferes,
  the exchange runs to its end, the client gets the result of serving exactly its command on the shared memory
  it found, that service is the only change to modes and faults, and the mailbox is free again.\<close>

theorem exchange_served:
  assumes "mb_lock s = 1" and "quiet s" and "mb_cl s p = Outside" and "new_id p t \<noteq> ack_id (shm_ack (mb_shm s))"
  shows "\<exists>s' r m. opt_run mb_step (exchange p c a t) s = Some s' \<and>
    serve_command ((mb_shm s)\<lparr>shm_cmd := sent p c a t\<rparr>) (sent p c a t) = (r, m) \<and> mb_cl s' p = Done (sent p c a t) r \<and>
    mb_shm s' = m\<lparr>shm_ack := \<lparr>ack_id = new_id p t, ack_result = r\<rparr>\<rparr> \<and>
    mb_lock s' = 1 \<and> quiet s'"
proof -
  let ?w = "sent p c a t"
  obtain r m where rm: "serve_command ((mb_shm s)\<lparr>shm_cmd := ?w\<rparr>) ?w = (r, m)" by fastforce
  from exchange_runs [OF assms rm] rm show ?thesis by blast
qed

theorem exchange_served_witness:
  "\<exists>s' m. opt_run mb_step (exchange 5 SO101_CMD_ESTOP 0 33) (mb_init ex_memory) = Some s' \<and>
     mb_cl s' 5 = Done (sent 5 SO101_CMD_ESTOP 0 33) 0 \<and> shm_mode_req (mb_shm s') = SO101_MODE_ESTOP"
proof -
  have "new_id 5 33 \<noteq> ack_id (shm_ack (mb_shm (mb_init ex_memory)))" by code_simp
  then show ?thesis
    using exchange_served [of "mb_init ex_memory" 5 33 SO101_CMD_ESTOP 0]
    by (auto simp: mb_init_def quiet_def serve_command_def sent_def ex_memory_def)
qed

text \<open>
  Outside that protocol. A first client sends ESTOP and gives up after 1000 polls because the
  supervisor is late; a second client then starts to send HOLD.
\<close>

definition late_start :: "mb_event list" where
  "late_start = [Enter 100 SO101_CMD_ESTOP 0, TakeLock 100, MakeId 100 0, Store 100, Store 100, Store 100, Store 100, PostReady 100]"

definition late_rest :: "mb_event list" where
  "late_rest = [GiveUp 100, Enter 200 SO101_CMD_SET_MODE 2, TakeLock 200, MakeId 200 0, Store 200,
     SupTake, SupCopy, SupServe, SupResult, SupId,
     Store 200, Store 200, Store 200, PostReady 200, SupTake, SupCopy, SupServe, SupResult, SupId,
     PollAck 200, ReadResult 200, ReleaseLock 200]"

lemma late_start_state:
  "opt_run mb_step late_start (mb_init ex_memory) = Some
     (goes ((mb_init ex_memory)\<lparr>mb_lock := 0, mb_ready := 1, mb_shm := ex_memory\<lparr>shm_cmd := sent 100 SO101_CMD_ESTOP 0 0\<rparr>,
        mb_posted := [sent 100 SO101_CMD_ESTOP 0 0]\<rparr>) 100 (Polling 0 (sent 100 SO101_CMD_ESTOP 0 0)))"
  by (simp add: late_start_def mb_init_def goes_def store_four sent_def ex_memory_def)

text \<open>C23. A flaw of the protocol. A client announces an emergency stop and gives up waiting before the supervisor is
  scheduled; its announcement stays. The next client has made the first of its four stores when the supervisor takes that
  announcement and serves the half-written command, which nobody sent. So there is a run in which the announced ESTOP of the first
  client is never carried out and the system ends in HOLD, as the second client asked, with every announcement consumed.\<close>

theorem late_estop_lost:
  "\<exists>es s. opt_run mb_step es (mb_init ex_memory) = Some s \<and> mb_ready s = 0 \<and> mb_sup s = SIdle \<and> mb_lock s = 1 \<and>
     mb_cl s 100 = NoAnswer (sent 100 SO101_CMD_ESTOP 0 0) \<and>
     sent 100 SO101_CMD_ESTOP 0 0 \<in> set (mb_posted s) \<and> sent 100 SO101_CMD_ESTOP 0 0 \<notin> fst ` set (mb_log s) \<and>
     (\<exists>x. x \<in> fst ` set (mb_log s) \<and> x \<notin> set (mb_posted s)) \<and>
     shm_mode_req (mb_shm s) = SO101_MODE_HOLD"
proof -
  let ?w = "sent 100 SO101_CMD_ESTOP 0 0" and ?h = "sent 200 SO101_CMD_SET_MODE 2 0"
  let ?s1 = "goes ((mb_init ex_memory)\<lparr>mb_lock := 0, mb_ready := 1, mb_shm := ex_memory\<lparr>shm_cmd := ?w\<rparr>, mb_posted := [?w]\<rparr>)
        100 (Polling 0 ?w)"
  let ?s2 = "goes ?s1 100 (Polling 1000 ?w)"
  let ?x = "\<lparr>cmd_id = cmd_id ?w, cmd_cmd = SO101_CMD_SET_MODE, cmd_arg = 0, cmd_client_pid = 100\<rparr>"
  have id: "ack_id (the_ack ?s1) \<noteq> cmd_id ?w" by code_simp
  have run: "opt_run mb_step (late_start @ replicate 1000 (PollAck 100) @ late_rest) (mb_init ex_memory) = opt_run mb_step late_rest ?s2"
    using poll_wait_run [of ?s1 100 0 ?w 1000] id by (simp add: opt_run_append late_start_state)
  have "case opt_run mb_step late_rest ?s2 of None \<Rightarrow> False
    | Some s \<Rightarrow> mb_ready s = 0 \<and> mb_sup s = SIdle \<and> mb_lock s = 1 \<and> mb_cl s 100 = NoAnswer ?w \<and>
        mb_posted s = [?w, ?h] \<and> map fst (mb_log s) = [?x, ?h] \<and> shm_mode_req (mb_shm s) = SO101_MODE_HOLD" by code_simp
  then obtain s where s: "opt_run mb_step late_rest ?s2 = Some s" "mb_ready s = 0" "mb_sup s = SIdle" "mb_lock s = 1"
    "mb_cl s 100 = NoAnswer ?w" "mb_posted s = [?w, ?h]" "map fst (mb_log s) = [?x, ?h]" "shm_mode_req (mb_shm s) = SO101_MODE_HOLD"
    by (auto simp del: opt_run.simps mb_step.simps split: option.splits)
  have l: "fst ` set (mb_log s) = {?x, ?h}" using s(7) by (metis list.set_map list.simps(15) empty_set)
  have ne: "?x \<noteq> ?w" "?x \<noteq> ?h" "?w \<noteq> ?h" by (simp_all add: sent_def)
  show ?thesis using s run l ne by (intro exI [of _ "late_start @ replicate 1000 (PollAck 100) @ late_rest"] exI [of _ s]) auto
qed

text \<open>Releasing the mailbox of a client that is only slow lets a second one in.\<close>

lemma forced_release_two_holders:
  "\<exists>s. opt_run mb_step [Enter 1 4 0, TakeLock 1, SupRelease, Enter 2 4 0, TakeLock 2] (mb_init m) = Some s \<and>
     holder (mb_cl s 1) \<and> holder (mb_cl s 2)"
  by (simp add: mb_init_def)

end
