(* ===== verification/Clients.thy ===== *)
theory Clients
  imports Mailbox Libc
begin

text \<open>
  The two C clients of the daemon: \<^verbatim>\<open>daemon/tools/so101ctl.c\<close>, which sends commands and shows the state, and
  \<^verbatim>\<open>daemon/tools/so101_log.c\<close>, which records every control cycle. Sending a command is the protocol of the
  mailbox theory; here is everything around it. Text is modelled as far as it is data: the names of
  the faults, the values of the status page, the columns and cells of the CSV file; the alignment is not.
\<close>

section \<open>so101ctl\<close>

text \<open>\<open>attach\<close>: the object named \<open>SO101_SHM_NAME\<close>, if there is one, and whether it can be mapped.\<close>

definition attach :: "so101_shm option \<Rightarrow> bool \<Rightarrow> so101_shm option" where
  "attach obj mapped =
     (case obj of
        None \<Rightarrow> None
      | Some m \<Rightarrow>
          if \<not> mapped then None
          else if shm_magic m \<noteq> SO101_SHM_MAGIC \<or> shm_version m \<noteq> SO101_SHM_VERSION \<or> shm_size m \<noteq> of_nat shm_total_size
          then None
          else Some m)"

definition fault_names :: "string list" where
  "fault_names = [''LEADER_COMM'', ''FOLLOWER_COMM'', ''OVERTEMP'', ''VOLTAGE'', ''OVERRUN'', ''STALL'', ''ESTOP'', ''TORQUE_REFUSED'']"

definition print_faults :: "u32 \<Rightarrow> string" where
  "print_faults f =
     (if f = 0 then ''none''
      else concat (map (\<lambda>b. if f AND push_bit b 1 \<noteq> 0 then fault_names ! b @ '' '' else []) [0..<8]))"

definition ctl_cmds :: "(string \<times> u32 \<times> int) list" where
  "ctl_cmds =
     [(''idle'', SO101_CMD_SET_MODE, uint SO101_MODE_IDLE), (''teleop'', SO101_CMD_SET_MODE, uint SO101_MODE_TELEOP),
      (''hold'', SO101_CMD_SET_MODE, uint SO101_MODE_HOLD), (''estop'', SO101_CMD_ESTOP, 0),
      (''reset'', SO101_CMD_RESET, 0), (''ping'', SO101_CMD_PING, 0)]"

text \<open>What \<open>send_cmd\<close> returns and prints, from the place in which the protocol left the client.\<close>

fun send_result :: "cl \<Rightarrow> (int \<times> string) option" where
  "send_result (Busy c a) = Some (1, ''mailbox busy'')"
| "send_result (Done w r) =
     Some (if r = SO101_RES_OK then 0 else 1,
           if r = SO101_RES_OK then ''OK''
           else if r = SO101_RES_REFUSED then ''REFUSED (active faults: try 'reset')'' else ''BAD_CMD'')"
| "send_result (NoAnswer w) = Some (1, ''no answer from supervisor'')"
| "send_result _ = None"

text \<open>The status page, line by line as the values printed; headings and alignment are left out.\<close>

definition show_page :: "so101_shm \<Rightarrow> so101_sample \<Rightarrow> cell list list" where
  "show_page m s =
     [[CInt (shm_daemon_pid m), CInt (uint (s_cycle s)), CStr (so101_mode_name (unat (s_mode s))),
       CStr (if s_ramping s \<noteq> 0 then '' (soft start)'' else []), CStr (if s_torque_on s then ''ON'' else ''off''),
       CStr (if s_leader_ok s then ''ok'' else ''ERR''), CStr (if s_follower_ok s then ''ok'' else ''ERR'')],
      map (\<lambda>x. CDec 1 (ns_us x)) [s_wake_lat_ns s, s_max_wake_lat_ns s, s_exec_ns s, s_max_exec_ns s, s_bus_leader_ns s, s_bus_follower_ns s],
      map (\<lambda>x. CInt (uint x)) [s_overruns s, s_missed_slots s, s_leader_errs s, s_follower_errs s],
      [CStr (print_faults (s_faults s))]] @
     map (\<lambda>j. [CStr (shm_joint_names m ! j), CInt (s_leader_pos s ! j), CDec 1 (s_leader_norm s ! j), CInt (s_follower_goal s ! j),
        CInt (s_follower_pos s ! j), CDec 1 (s_follower_norm s ! j), CInt (s_follower_vel s ! j), CInt (s_follower_load s ! j),
        CDec 1 (rnd64 (of_int (uint (s_follower_volt s ! j)) / 10)), CInt (uint (s_follower_temp s ! j))]) [0..<SO101_NJ]"

datatype ctl_action =
    CtlExit int
  | CtlSend u32 int
  | CtlShow "cell list list"
  | CtlWatch "int \<times> int"
  | CtlNoFloat

definition watch_pause :: "rat \<Rightarrow> int \<times> int" where
  "watch_pause hz =
     (let hz = (if hz \<le> 0 then 5 else hz); p = rnd64 (1 / hz)
      in (f_trunc p, f_trunc (rnd64 (rnd64 (p - of_int (f_trunc p)) * 1000000000))))"

definition so101ctl :: "string list \<Rightarrow> so101_shm option \<Rightarrow> bool \<Rightarrow> ctl_action" where
  "so101ctl argv obj mapped =
     (if length argv < 2 then CtlExit 2
      else case map_of ctl_cmds (argv ! 1) of
        Some (c, a) \<Rightarrow> (case attach obj mapped of None \<Rightarrow> CtlExit 1 | Some _ \<Rightarrow> CtlSend c a)
      | None \<Rightarrow>
          (case attach obj mapped of
             None \<Rightarrow> CtlExit 1
           | Some m \<Rightarrow>
               if argv ! 1 = ''status'' then
                 (case so101_shm_read m 1000 of None \<Rightarrow> CtlExit 1 | Some (_, s) \<Rightarrow> CtlShow (show_page m s))
               else if argv ! 1 = ''watch'' then
                 (if length argv > 2
                  then (case atof (argv ! 2) of None \<Rightarrow> CtlNoFloat | Some hz \<Rightarrow> CtlWatch (watch_pause hz))
                  else CtlWatch (watch_pause 5))
               else CtlExit 2))"

text \<open>One round of \<open>watch\<close>: stop, or a page to show, or nothing new.\<close>

definition watch_round :: "so101_shm \<Rightarrow> cell list list option + unit" where
  "watch_round m =
     (if shm_magic m \<noteq> SO101_SHM_MAGIC then Inr ()
      else Inl (map_option (\<lambda>(_, s). show_page m s) (so101_shm_read m 1000)))"

section \<open>so101\_log\<close>

definition log_header :: "string list \<Rightarrow> string list" where
  "log_header names =
     [''cycle'', ''t_s'', ''mode'', ''torque'', ''ramping'', ''faults'', ''wake_lat_us'', ''exec_us'', ''bus_l_us'', ''bus_f_us''] @
     concat (map (\<lambda>j. let n = names ! j in [n @ ''_l'', n @ ''_goal'', n @ ''_f'', n @ ''_ln'', n @ ''_fn'', n @ ''_load'']) [0..<SO101_NJ])"

definition log_row :: "rat \<Rightarrow> so101_sample \<Rightarrow> cell list" where
  "log_row t s =
     [CInt (uint (s_cycle s)), CDec 4 t, CStr (so101_mode_name (unat (s_mode s))), CInt (of_bool (s_torque_on s)),
      CInt (uint (s_ramping s)), CInt (uint (s_faults s)), CDec 1 (ns_us (s_wake_lat_ns s)), CDec 1 (ns_us (s_exec_ns s)),
      CDec 1 (ns_us (s_bus_leader_ns s)), CDec 1 (ns_us (s_bus_follower_ns s))] @
     concat (map (\<lambda>j. [CInt (s_leader_pos s ! j), CInt (s_follower_goal s ! j), CInt (s_follower_pos s ! j),
       CDec 2 (s_leader_norm s ! j), CDec 2 (s_follower_norm s ! j), CInt (s_follower_load s ! j)]) [0..<SO101_NJ])"

record logst =
  l_last :: u64
  l_first :: u64
  l_t0 :: int
  l_rows :: int
  l_missed :: int
  l_out :: "(rat \<times> so101_sample) list"

definition log_init :: logst where
  "log_init = \<lparr>l_last = 0, l_first = 0, l_t0 = 0, l_rows = 0, l_missed = 0, l_out = []\<rparr>"

definition log_time :: "int \<Rightarrow> int \<Rightarrow> rat" where
  "log_time t t0 = ns_s (t - t0)"

text \<open>One poll: the state after it and whether the recording ends.\<close>

definition log_poll :: "rat \<Rightarrow> so101_shm \<Rightarrow> logst \<Rightarrow> logst \<times> bool" where
  "log_poll dur m st =
     (if shm_magic m \<noteq> SO101_SHM_MAGIC then (st, True)
      else case so101_shm_read m 100 of
        None \<Rightarrow> (st, False)
      | Some (_, s) \<Rightarrow>
          if s_cycle s = l_last st then (st, False)
          else
            let st = (if l_first st = 0 then st\<lparr>l_first := s_cycle s, l_t0 := s_t_mono_ns s\<rparr>
                      else if s_cycle s > l_last st + 1
                           then st\<lparr>l_missed := l_missed st + sint (s_cycle s - l_last st - 1)\<rparr>
                      else st);
                st = st\<lparr>l_last := s_cycle s\<rparr>;
                t = log_time (s_t_mono_ns s) (l_t0 st);
                st = st\<lparr>l_out := l_out st @ [(t, s)], l_rows := l_rows st + 1\<rparr>
            in (st, dur > 0 \<and> t \<ge> dur))"

text \<open>The recording over the memory as it is at each poll, until it ends or the list does (a signal).\<close>

fun log_run :: "rat \<Rightarrow> so101_shm list \<Rightarrow> logst \<Rightarrow> logst" where
  "log_run dur [] st = st"
| "log_run dur (m # ms) st = (let (st, stop) = log_poll dur m st in if stop then st else log_run dur ms st)"

definition log_pause :: "rat \<Rightarrow> int \<times> int" where
  "log_pause poll_hz = ns_ts (period_of poll_hz)"

text \<open>The line printed at the end: rows, missed cycles and their share.\<close>

definition log_summary :: "logst \<Rightarrow> int \<times> int \<times> rat" where
  "log_summary st = (l_rows st, l_missed st, if l_rows st \<noteq> 0 then percent (l_missed st) (l_rows st + l_missed st) else 0)"

datatype log_opts =
    LogRun string rat rat
  | LogUsage
  | LogNoFloat

fun log_parse :: "(char \<times> string) list \<Rightarrow> string \<Rightarrow> rat \<Rightarrow> rat \<Rightarrow> log_opts" where
  "log_parse [] out dur poll_hz = LogRun out dur (if poll_hz \<le> 0 then 500 else poll_hz)"
| "log_parse ((opt, optarg) # os) out dur poll_hz =
     (if opt = CHR ''o'' then log_parse os optarg dur poll_hz
      else if opt = CHR ''d'' then (case atof optarg of None \<Rightarrow> LogNoFloat | Some x \<Rightarrow> log_parse os out x poll_hz)
      else if opt = CHR ''p'' then (case atof optarg of None \<Rightarrow> LogNoFloat | Some x \<Rightarrow> log_parse os out dur x)
      else LogUsage)"

datatype log_result =
    LogExit int
  | LogFile string "string list" "cell list list" "int \<times> int \<times> rat"
  | LogUnknown

text \<open>
  \<open>main\<close>: the object in shared memory and whether it can be mapped, whether the file can be opened, and
  the memory as it is at each poll. Both programs check the header in the same way.
\<close>

definition so101_log :: "(char \<times> string) list \<Rightarrow> so101_shm option \<Rightarrow> bool \<Rightarrow> bool \<Rightarrow> so101_shm list \<Rightarrow> log_result" where
  "so101_log opts obj mapped opened ms =
     (case log_parse opts ''so101_log.csv'' 0 500 of
        LogUsage \<Rightarrow> LogExit 2
      | LogNoFloat \<Rightarrow> LogUnknown
      | LogRun out dur poll_hz \<Rightarrow>
          (case attach obj mapped of
             None \<Rightarrow> LogExit 1
           | Some m \<Rightarrow>
               if \<not> opened then LogExit 1
               else
                 let st = log_run dur ms log_init
                 in LogFile out (log_header (shm_joint_names m)) (map (\<lambda>(t, s). log_row t s) (l_out st)) (log_summary st)))"

section \<open>Lemmas\<close>

definition log_ok :: "logst \<Rightarrow> bool" where
  "log_ok st \<longleftrightarrow>
     (if l_out st = [] then l_first st = 0 \<and> l_last st = 0 \<and> l_rows st = 0 \<and> l_missed st = 0
      else l_first st \<noteq> 0 \<and> l_first st = s_cycle (snd (hd (l_out st))) \<and> l_last st = s_cycle (snd (last (l_out st))) \<and>
        l_rows st = int (length (l_out st)) \<and> l_rows st + l_missed st = uint (l_last st) - uint (l_first st) + 1 \<and>
        sorted_wrt (\<lambda>a b. s_cycle (snd a) < s_cycle (snd b)) (l_out st))"

definition cycle_of :: "so101_shm \<Rightarrow> u64" where
  "cycle_of m = s_cycle (shm_s m)"

lemma sint_small: "uint (x :: u64) < 2 ^ 63 \<Longrightarrow> sint x = uint x"
proof -
  assume lt: "uint x < 2 ^ 63"
  have "- 9223372036854775808 \<le> uint x" using uint_ge_0 [of x] by linarith
  then show ?thesis using lt signed_take_bit_int_eq_self [of 63 "uint x"] by (simp add: sint_uint)
qed

lemma cycle_gap:
  assumes "l < (c :: u64)" and "uint c < 2 ^ 63"
  shows "uint (c - l - 1) = uint c - uint l - 1" and "sint (c - l - 1) = uint c - uint l - 1"
    and "(l + 1 < c) = (uint l + 1 < uint c)"
proof -
  have lt: "uint l < uint c" using assms(1) by (simp add: word_less_def)
  have l1: "uint (l + 1) = uint l + 1" using lt assms(2) by (simp add: uint_word_ariths)
  have "l \<le> c" using assms(1) by simp
  then have cl: "uint (c - l) = uint c - uint l" by (simp add: uint_minus_simple_alt)
  then have "1 \<le> c - l" using lt by (simp add: word_le_def)
  then show d: "uint (c - l - 1) = uint c - uint l - 1" using cl by (simp add: uint_minus_simple_alt)
  then show "sint (c - l - 1) = uint c - uint l - 1"
    using assms(2) uint_ge_0 [of l] by (subst sint_small) linarith+
  show "(l + 1 < c) = (uint l + 1 < uint c)" by (simp add: word_less_def l1)
qed

lemma log_ok_rows:
  assumes "log_ok st" and "l_out st \<noteq> []"
  shows "l_first st \<noteq> 0" "l_first st = s_cycle (snd (hd (l_out st)))" "l_last st = s_cycle (snd (last (l_out st)))"
    "l_rows st = int (length (l_out st))" "l_rows st + l_missed st = uint (l_last st) - uint (l_first st) + 1"
    "sorted_wrt (\<lambda>a b. s_cycle (snd a) < s_cycle (snd b)) (l_out st)"
  using assms(1) unfolding log_ok_def if_not_P [OF assms(2)] by blast+

lemma log_poll_ok:
  assumes "log_ok st" and "even (shm_seq m)" and "l_last st \<le> cycle_of m" and "uint (cycle_of m) < 2 ^ 63"
    and "log_poll dur m st = (st', stop)"
  shows "log_ok st' \<and> l_last st' \<le> cycle_of m"
proof -
  have r: "so101_shm_read m 100 = Some (0, shm_s m)"
    using shm_read_even [of m 99] assms(2) by (simp add: bit_0 numeral_eq_Suc)
  consider "st' = st" | "l_last st < cycle_of m" "shm_magic m = SO101_SHM_MAGIC"
    using assms(3,5) r by (force simp: log_poll_def cycle_of_def split: if_splits)
  then show ?thesis
  proof cases
    case 1
    then show ?thesis using assms(1,3) by simp
  next
    case 2
    note g = cycle_gap [OF 2(1) assms(4)]
    have c0: "cycle_of m \<noteq> 0" using 2(1) by auto
    obtain t where out: "l_out st' = l_out st @ [(t, shm_s m)]" and k: "l_last st' = cycle_of m" "l_rows st' = l_rows st + 1"
      and f: "l_first st' = (if l_first st = 0 then cycle_of m else l_first st)"
      and mi: "l_missed st' = (if l_first st \<noteq> 0 \<and> l_last st + 1 < cycle_of m
          then l_missed st + sint (cycle_of m - l_last st - 1) else l_missed st)"
      using assms(5) r 2 by (auto simp: log_poll_def cycle_of_def Let_def split: if_splits)
    have lt: "uint (l_last st) < uint (cycle_of m)" using 2(1) by (simp add: word_less_def)
    have "log_ok st'"
    proof (cases "l_out st = []")
      case True
      then show ?thesis using assms(1) out k f mi c0 by (simp add: log_ok_def cycle_of_def)
    next
      case False
      note ok = log_ok_rows [OF assms(1) False]
      have "s_cycle (snd x) \<le> l_last st" if "x \<in> set (l_out st)" for x
      proof -
        obtain xs y where xs: "l_out st = xs @ [y]" using False by (cases "l_out st" rule: rev_cases) auto
        then show ?thesis using ok(3,6) that by (auto simp: sorted_wrt_append)
      qed
      then have "sorted_wrt (\<lambda>a b. s_cycle (snd a) < s_cycle (snd b)) (l_out st')"
        using ok(6) 2(1) out by (fastforce simp: sorted_wrt_append cycle_of_def intro: order.strict_trans1)
      moreover have "l_rows st' + l_missed st' = uint (cycle_of m) - uint (l_first st) + 1"
        using ok(1,5) k(2) mi g(2,3) lt by (auto split: if_splits)
      ultimately show ?thesis using False ok(1,2,4) out k f by (simp add: log_ok_def cycle_of_def)
    qed
    then show ?thesis using k by simp
  qed
qed

lemma log_run_ok:
  "log_ok st \<Longrightarrow> sorted (map cycle_of ms) \<Longrightarrow> list_all (\<lambda>m. even (shm_seq m) \<and> l_last st \<le> cycle_of m \<and> uint (cycle_of m) < 2 ^ 63) ms \<Longrightarrow>
    log_ok (log_run dur ms st)"
proof (induction ms arbitrary: st)
  case Nil
  then show ?case by simp
next
  case (Cons m ms)
  obtain st' stop where p: "log_poll dur m st = (st', stop)" by fastforce
  have k: "log_ok st'" "l_last st' \<le> cycle_of m" using log_poll_ok [OF Cons.prems(1) _ _ _ p] Cons.prems(3) by auto
  have "list_all (\<lambda>m. even (shm_seq m) \<and> l_last st' \<le> cycle_of m \<and> uint (cycle_of m) < 2 ^ 63) ms"
    using Cons.prems(2,3) k(2) by (auto simp: list_all_iff intro: order_trans)
  then show ?case using Cons.IH [OF k(1)] Cons.prems(2) k(1) p by simp
qed

lemma log_row_columns: "length (log_row t s) = length (log_header names)"
  by (simp add: log_row_def log_header_def length_concat comp_def Let_def)

lemma fault_names_agree: "list_all (\<lambda>b. fault_name (push_bit b 1) = fault_names ! b) [0..<8]"
  by code_simp

section \<open>Properties\<close>

text \<open>C33. The recording accounts for every control cycle: over any polls of a memory whose cycle counter never goes
  back (and stays below 2^63), no cycle is written twice, rows are in the order of the cycles, and rows written plus
  cycles counted as missed are exactly the cycles from the first to the last one seen. Every row has one cell
  per column of the header.\<close>

theorem log_accounts:
  assumes "sorted (map cycle_of ms)" and "list_all (\<lambda>m. even (shm_seq m) \<and> uint (cycle_of m) < 2 ^ 63) ms"
    and "st = log_run dur ms log_init" and "l_out st \<noteq> []"
  shows "sorted_wrt (\<lambda>a b. s_cycle (snd a) < s_cycle (snd b)) (l_out st) \<and> l_rows st = int (length (l_out st)) \<and>
    l_rows st + l_missed st = uint (s_cycle (snd (last (l_out st)))) - uint (s_cycle (snd (hd (l_out st)))) + 1 \<and>
    length (log_row t s) = length (log_header names)"
proof -
  have "log_ok log_init" by (simp add: log_ok_def log_init_def)
  moreover have "list_all (\<lambda>m. even (shm_seq m) \<and> l_last log_init \<le> cycle_of m \<and> uint (cycle_of m) < 2 ^ 63) ms"
    using assms(2) by (simp add: log_init_def)
  ultimately have "log_ok st" using log_run_ok assms(1,3) by blast
  note ok = log_ok_rows [OF this assms(4)]
  show ?thesis using ok(3-6) log_row_columns unfolding ok(2,3) by blast
qed

definition ex_cycle :: "u64 \<Rightarrow> so101_shm" where
  "ex_cycle k = ex_memory\<lparr>shm_s := sample_zero\<lparr>s_cycle := k\<rparr>\<rparr>"

theorem log_accounts_witness:
  "l_rows (log_run 0 (map ex_cycle [0, 3, 3, 4, 9]) log_init) = 3 \<and> l_missed (log_run 0 (map ex_cycle [0, 3, 3, 4, 9]) log_init) = 4"
proof -
  let ?ms = "map ex_cycle [0, 3, 3, 4, 9]"
  define st where st: "st = log_run 0 ?ms log_init"
  have r: "so101_shm_read (ex_cycle k) 100 = Some (0, sample_zero\<lparr>s_cycle := k\<rparr>)" for k
    using shm_read_even [of "ex_cycle k" 99] by (simp add: ex_cycle_def ex_memory_def numeral_eq_Suc)
  have g: "shm_magic (ex_cycle k) = SO101_SHM_MAGIC" for k by (simp add: ex_cycle_def ex_memory_def)
  have "map (\<lambda>r. s_cycle (snd r)) (l_out st) = [3, 4, 9]"
    unfolding st by (simp add: log_poll_def r g log_init_def Let_def sample_zero_def)
  then obtain x y z where out: "l_out st = [x, y, z]" "s_cycle (snd x) = 3" "s_cycle (snd z) = 9"
    by (auto simp: map_eq_Cons_conv)
  have h: "sorted (map cycle_of ?ms)" "list_all (\<lambda>m. even (shm_seq m) \<and> uint (cycle_of m) < 2 ^ 63) ?ms"
    by (simp_all add: cycle_of_def ex_cycle_def ex_memory_def)
  have "l_out st \<noteq> []" by (simp add: out(1))
  note k = log_accounts [OF h st this, of 0 sample_zero "[]"]
  have "l_rows st = 3 \<and> l_rows st + l_missed st = 7" using k unfolding out(1) by (simp add: out(2,3))
  then show ?thesis unfolding st by linarith
qed

text \<open>When the supervisor grants a named command, and what it makes of mode and faults.\<close>

definition ctl_granted :: "string \<Rightarrow> so101_shm \<Rightarrow> bool" where
  "ctl_granted name m =
     (if name = ''idle'' then shm_mode_req m \<noteq> SO101_MODE_ESTOP
      else if name = ''teleop'' then shm_faults m AND F_BLOCK_TELEOP = 0
      else if name = ''hold'' then shm_faults m AND F_BLOCK_ALL = 0
      else True)"

definition ctl_mode_after :: "string \<Rightarrow> so101_shm \<Rightarrow> u32" where
  "ctl_mode_after name m =
     (if \<not> ctl_granted name m \<or> name = ''ping'' then shm_mode_req m
      else if name = ''teleop'' then SO101_MODE_TELEOP
      else if name = ''hold'' then SO101_MODE_HOLD
      else if name = ''estop'' then SO101_MODE_ESTOP
      else SO101_MODE_IDLE)"

definition ctl_faults_after :: "string \<Rightarrow> so101_shm \<Rightarrow> u32" where
  "ctl_faults_after name m =
     (if name = ''estop'' then shm_faults m OR SO101_F_ESTOP else if name = ''reset'' then 0 else shm_faults m)"

text \<open>When \<^verbatim>\<open>docs/INTERFACE.md\<close> says a command is refused.\<close>

definition table_refuses :: "string \<Rightarrow> so101_shm \<Rightarrow> bool" where
  "table_refuses name m =
     (if name = ''teleop'' then shm_faults m \<noteq> 0
      else if name = ''hold'' then shm_faults m AND NOT SO101_F_LEADER_COMM \<noteq> 0
      else if name = ''idle'' then shm_mode_req m = SO101_MODE_ESTOP
      else False)"

lemma granted_by_table: "\<not> table_refuses name m \<Longrightarrow> ctl_granted name m"
proof -
  have "f AND F_BLOCK_ALL = 0" if "f AND NOT SO101_F_LEADER_COMM = 0" for f :: u32
  proof -
    have "(f AND NOT 1) AND F_BLOCK_ALL = 0" using that by simp
    moreover have "NOT 1 AND F_BLOCK_ALL = F_BLOCK_ALL" by code_simp
    ultimately show ?thesis by (simp add: and.assoc)
  qed
  then show "\<not> table_refuses name m \<Longrightarrow> ctl_granted name m"
    by (auto simp: table_refuses_def ctl_granted_def split: if_splits)
qed

lemma table_without_others:
  assumes "shm_faults m AND NOT F_BLOCK_TELEOP = 0"
  shows "ctl_granted name m = (\<not> table_refuses name m)"
proof -
  let ?f = "shm_faults m"
  have f: "?f = ?f AND F_BLOCK_TELEOP"
    using assms bit.conj_disj_distrib [of ?f F_BLOCK_TELEOP "NOT F_BLOCK_TELEOP"] by simp
  have "?f AND NOT 1 = (?f AND F_BLOCK_TELEOP) AND NOT 1" using f by simp
  moreover have "F_BLOCK_TELEOP AND NOT 1 = F_BLOCK_ALL" by code_simp
  ultimately have "?f AND NOT SO101_F_LEADER_COMM = ?f AND F_BLOCK_ALL" by (simp add: and.assoc)
  moreover have "(?f AND F_BLOCK_TELEOP = 0) = (?f = 0)" using f by simp
  ultimately show ?thesis by (auto simp: table_refuses_def ctl_granted_def)
qed

lemma ctl_serve:
  assumes "(name, c, a) \<in> set ctl_cmds"
  shows "\<exists>r m'. serve_command (m\<lparr>shm_cmd := sent p c a t\<rparr>) (sent p c a t) = (r, m') \<and>
    r = (if ctl_granted name m then SO101_RES_OK else SO101_RES_REFUSED) \<and> shm_mode_req m' = ctl_mode_after name m \<and>
    shm_faults m' = ctl_faults_after name m"
proof -
  have "(name, c, a) \<in> {(''idle'', 1, 0), (''teleop'', 1, 1), (''hold'', 1, 2), (''estop'', 2, 0), (''reset'', 3, 0), (''ping'', 4, 0)}"
    using assms by (simp add: ctl_cmds_def)
  then show ?thesis
    unfolding insert_iff empty_iff prod.inject
    by (elim disjE conjE FalseE) (simp_all add: serve_command_def sent_def ctl_granted_def ctl_mode_after_def ctl_faults_after_def)
qed

text \<open>C21. \<open>so101ctl\<close> works end to end. With a daemon attached and its mailbox free, every named command is sent and the
  exchange ends. If the faults and the mode grant it under the masks of the supervisor, the mode requested afterwards is
  the one the name says, the exit code 0 and the answer OK; otherwise the mode is the old one, the exit code 1 and the answer
  REFUSED. The fault word gains the bit of the stop with \<open>estop\<close>, is cleared by \<open>reset\<close> and otherwise stays. Whatever
  the table of \<^verbatim>\<open>docs/INTERFACE.md\<close> allows is granted; and what it refuses is refused as long as none but
  the masked faults is active, so not under OVERRUN or TORQUE_REFUSED alone, where code and table differ.\<close>

theorem ctl_command_effect:
  assumes "(name, c, a) \<in> set ctl_cmds" and "attach (Some (mb_shm s)) True \<noteq> None"
    and "mb_lock s = 1" and "quiet s" and "mb_cl s p = Outside" and "new_id p t \<noteq> ack_id (shm_ack (mb_shm s))"
  shows "so101ctl [prog, name] (Some (mb_shm s)) True = CtlSend c a \<and>
    (\<exists>s'. opt_run mb_step (exchange p c a t) s = Some s' \<and> shm_mode_req (mb_shm s') = ctl_mode_after name (mb_shm s) \<and>
      shm_faults (mb_shm s') = ctl_faults_after name (mb_shm s) \<and>
      send_result (mb_cl s' p) = Some (if ctl_granted name (mb_shm s) then (0, ''OK'') else (1, ''REFUSED (active faults: try 'reset')''))) \<and>
    (\<not> table_refuses name (mb_shm s) \<longrightarrow> ctl_granted name (mb_shm s)) \<and>
    (table_refuses name (mb_shm s) \<and> shm_faults (mb_shm s) AND NOT F_BLOCK_TELEOP = 0 \<longrightarrow> \<not> ctl_granted name (mb_shm s))"
proof -
  have m: "map_of ctl_cmds name = Some (c, a)"
    by (rule map_of_is_SomeI) (use assms(1) in \<open>simp_all add: ctl_cmds_def\<close>)
  obtain r m' where r: "serve_command ((mb_shm s)\<lparr>shm_cmd := sent p c a t\<rparr>) (sent p c a t) = (r, m')"
    "r = (if ctl_granted name (mb_shm s) then SO101_RES_OK else SO101_RES_REFUSED)" "shm_mode_req m' = ctl_mode_after name (mb_shm s)"
    "shm_faults m' = ctl_faults_after name (mb_shm s)"
    using ctl_serve [OF assms(1)] by blast
  then obtain s' where "opt_run mb_step (exchange p c a t) s = Some s'" "mb_cl s' p = Done (sent p c a t) r"
    "mb_shm s' = m'\<lparr>shm_ack := \<lparr>ack_id = new_id p t, ack_result = r\<rparr>\<rparr>"
    using exchange_runs [OF assms(3-6), of c a] by auto
  then show ?thesis using assms(2) m r granted_by_table table_without_others by (auto simp: so101ctl_def)
qed

theorem ctl_command_effect_witness:
  "so101ctl [''so101ctl'', ''estop''] (Some ex_memory) True = CtlSend SO101_CMD_ESTOP 0 \<and>
    (\<exists>s'. opt_run mb_step (exchange 5 SO101_CMD_ESTOP 0 33) (mb_init ex_memory) = Some s' \<and> shm_mode_req (mb_shm s') = SO101_MODE_ESTOP)"
proof -
  have "new_id 5 33 \<noteq> ack_id (shm_ack (mb_shm (mb_init ex_memory)))" by code_simp
  moreover have "attach (Some ex_memory) True \<noteq> None" by code_simp
  moreover have "(''estop'', SO101_CMD_ESTOP, 0) \<in> set ctl_cmds" by (simp add: ctl_cmds_def)
  moreover have "ctl_mode_after ''estop'' ex_memory = SO101_MODE_ESTOP" by (simp add: ctl_mode_after_def ctl_granted_def)
  ultimately show ?thesis
    using ctl_command_effect [of "''estop''" SO101_CMD_ESTOP 0 "mb_init ex_memory" 5 33 "''so101ctl''"]
    by (auto simp: mb_init_def quiet_def)
qed

end
