(* ===== verification/Messages.thy ===== *)
theory Messages
  imports Daemon Clients
begin

text \<open>
  The text of the daemon: the datagrams \<open>sd_notifyf\<close> sends to systemd (\<^verbatim>\<open>daemon/src/so101d.c\<close>) and the
  status line the supervisor and the main thread print. A status line is a list of values, a datagram
  the bytes sent. The lemmas show that no datagram is cut by the buffer of 256 bytes, that systemd
  finds \<open>WATCHDOG=1\<close> in a datagram exactly when the watchdog loop meant a ping, and that numbers
  can be read back.
\<close>

section \<open>Numbers as text\<close>

definition digit_char :: "nat \<Rightarrow> char" where
  "digit_char d = ''0123456789abcdef'' ! d"

function numeral_text :: "nat \<Rightarrow> nat \<Rightarrow> string" where
  "numeral_text b n = (if b < 2 \<or> n < b then [digit_char n] else numeral_text b (n div b) @ [digit_char (n mod b)])"
  by pat_completeness auto
termination by (relation "measure snd") auto

declare numeral_text.simps [simp del]

text \<open>\<open>%llu\<close> and \<open>%02x\<close>.\<close>

definition dec_text :: "'a::len word \<Rightarrow> string" where
  "dec_text w = numeral_text 10 (unat w)"

definition hex2_text :: "u32 \<Rightarrow> string" where
  "hex2_text w = (let s = numeral_text 16 (unat w) in if length s < 2 then CHR ''0'' # s else s)"

section \<open>Notifications\<close>

definition notify_text :: "main_msg \<Rightarrow> string option" where
  "notify_text m =
     (case m of
        Ready mode \<Rightarrow> Some (''READY=1'' @ [CHR 0x0A] @ ''STATUS=running, mode '' @ mode)
      | Ping mode ramping cycle faults \<Rightarrow>
          Some (''WATCHDOG=1'' @ [CHR 0x0A] @ ''STATUS=mode '' @ mode @ (if ramping then '' (soft start)'' else []) @
            '', cycle '' @ dec_text cycle @ '', faults 0x'' @ hex2_text faults)
      | Stopping \<Rightarrow> Some ''STOPPING=1''
      | _ \<Rightarrow> None)"

text \<open>
  What \<open>sd_notifyf\<close> hands to \<open>sendto\<close>: the address and at most 255 bytes of the text. \<open>sock\<close> is whether
  the socket could be made.
\<close>

definition sd_notifyf :: "string option \<Rightarrow> bool \<Rightarrow> string \<Rightarrow> (string \<times> string) option" where
  "sd_notifyf path sock text =
     (case sd_address path of
        None \<Rightarrow> None
      | Some sa \<Rightarrow> if text = [] then None else if \<not> sock then None else Some (sa, if length text < 256 then text else take 255 text))"

definition datagrams :: "string option \<Rightarrow> bool \<Rightarrow> main_msg list \<Rightarrow> string list" where
  "datagrams path sock msgs =
     concat (map (\<lambda>m. case Option.bind (notify_text m) (sd_notifyf path sock) of None \<Rightarrow> [] | Some (_, d) \<Rightarrow> [d]) msgs)"

section \<open>Status lines\<close>

definition log_status :: "so101_shm \<Rightarrow> cell list option" where
  "log_status m =
     (case so101_shm_read m 100 of
        None \<Rightarrow> None
      | Some (_, s) \<Rightarrow>
          Some [CInt (uint (s_cycle s)), CStr (so101_mode_name (unat (s_mode s))), CInt (of_bool (s_torque_on s)),
            CDec 0 (ns_us (s_max_wake_lat_ns s)), CDec 0 (ns_us (s_max_exec_ns s)), CInt (uint (s_overruns s)),
            CInt (uint (s_leader_errs s)), CInt (uint (s_follower_errs s)), CStr (hex2_text (s_faults s))])"

text \<open>The supervisor's own version; \<open>MsgStatus\<close> of its journal stands for this line.\<close>

definition sup_log_status :: "so101_sample \<Rightarrow> cell list" where
  "sup_log_status s =
     [CInt (uint (s_cycle s)), CStr (so101_mode_name (unat (s_mode s))), CInt (of_bool (s_torque_on s)),
      CStr (if s_ramping s \<noteq> 0 then '' (ramp)'' else []), CDec 0 (ns_us (s_max_wake_lat_ns s)),
      CDec 0 (ns_us (s_max_exec_ns s)), CInt (uint (s_overruns s)), CInt (uint (s_leader_errs s)),
      CInt (uint (s_follower_errs s)), CStr (hex2_text (s_faults s))]"

section \<open>Lemmas\<close>

lemma numeral_text_length: "n < b ^ k \<Longrightarrow> 0 < k \<Longrightarrow> 2 \<le> b \<Longrightarrow> length (numeral_text b n) \<le> k"
proof (induction b n arbitrary: k rule: numeral_text.induct)
  case (1 b n)
  show ?case
  proof (cases "n < b")
    case True
    then show ?thesis using "1.prems" by (simp add: numeral_text.simps)
  next
    case False
    then obtain j where j: "k = Suc j" "0 < j" using "1.prems" by (cases k; cases "k - 1") auto
    have "n div b < b ^ j" using "1.prems" j by (simp add: less_mult_imp_div_less mult.commute)
    then show ?thesis using "1.IH" False "1.prems" j by (simp add: numeral_text.simps [of b n])
  qed
qed

lemma dec_text_length: "length (dec_text (c :: u64)) \<le> 20"
proof -
  have "unat c < 2 ^ 64" using unsigned_less [of c] by simp
  then show ?thesis unfolding dec_text_def by (intro numeral_text_length) auto
qed

lemma hex2_text_length: "length (hex2_text f) \<le> 8"
proof -
  have "unat f < 2 ^ 32" using unsigned_less [of f] by simp
  then have "length (numeral_text 16 (unat f)) \<le> 8" by (intro numeral_text_length) auto
  then show ?thesis by (simp add: hex2_text_def Let_def)
qed

lemma mode_name_length: "length (so101_mode_name m) \<le> 6"
  by (auto simp: so101_mode_name_def less_Suc_eq numeral_eq_Suc)

text \<open>Reading the decimal text continues where it ends.\<close>

lemma digit_val_char: "d < 10 \<Longrightarrow> digit_val (digit_char d) = Some (int d)"
  by (auto simp: digit_val_def digit_char_def less_Suc_eq numeral_eq_Suc)

lemma digits_append:
  "(\<And>c. c \<in> set s \<Longrightarrow> digit_val c \<noteq> None) \<Longrightarrow> digits acc (s @ r) = digits (digits acc s) r"
proof (induction s arbitrary: acc)
  case (Cons a s)
  obtain d where "digit_val a = Some d" using Cons.prems [of a] by auto
  then show ?case using Cons by simp
qed simp

lemma numeral_text_digits: "c \<in> set (numeral_text 10 n) \<Longrightarrow> digit_val c \<noteq> None"
proof (induction "10 :: nat" n rule: numeral_text.induct)
  case (1 n)
  then show ?case
    by (cases "n < 10") (auto simp: numeral_text.simps [of 10 n] digit_val_char)
qed

lemma digits_numeral: "digits 0 (numeral_text 10 n) = int n"
proof (induction "10 :: nat" n rule: numeral_text.induct)
  case (1 n)
  show ?case
  proof (cases "n < 10")
    case True
    then show ?thesis by (simp add: numeral_text.simps [of 10 n] digit_val_char)
  next
    case False
    then have "digits 0 (numeral_text 10 n) = digits (int (n div 10)) [digit_char (n mod 10)]"
      using 1 by (simp add: numeral_text.simps [of 10 n] digits_append [OF numeral_text_digits])
    then have "digits 0 (numeral_text 10 n) = 10 * int (n div 10) + int (n mod 10)" by (simp add: digit_val_char)
    then show ?thesis by presburger
  qed
qed

lemma digits_dec_text: "digits 0 (dec_text (c :: u64) @ CHR '','' # r) = uint c"
  by (simp add: dec_text_def digits_append [OF numeral_text_digits] digits_numeral digit_val_def)

lemma notify_text_fits:
  assumes "notify_text m = Some t" and "m = Ready n \<or> m = Ping n r cy f \<or> m = Stopping" and "length n \<le> 6"
  shows "length t < 256 \<and> t \<noteq> []"
  using assms dec_text_length [of cy] hex2_text_length [of f] by (auto simp: notify_text_def)

lemma datagrams_simps:
  "datagrams path sock [] = []"
  "datagrams path sock (m # ms) =
     (case Option.bind (notify_text m) (sd_notifyf path sock) of None \<Rightarrow> [] | Some (a, d) \<Rightarrow> [d]) @ datagrams path sock ms"
  by (simp_all add: datagrams_def)

section \<open>Properties\<close>

text \<open>C16. What systemd hears is what the watchdog loop decides. With a usable notification address and a socket, a check of
  the main thread that finds the sample \<open>s\<close> sends one datagram if both threads made progress and none otherwise.
  The datagram starts with the line \<open>WATCHDOG=1\<close>, is shorter than the buffer, so nothing of it is cut, and reading
  the number behind \<open>cycle\<close> gives back the cycle of the sample.\<close>

theorem watchdog_datagram:
  assumes "sd_address path = Some sa" and "so101_shm_read mem 100 = Some (q, s)" and "dog_check mem d = (d', msgs)"
  shows "if s_cycle s \<noteq> dog_cycle d \<and> shm_sup_beat mem \<noteq> dog_beat d
    then \<exists>t pre rest. datagrams path True msgs = [t] \<and> take 11 t = ''WATCHDOG=1'' @ [CHR 0x0A] \<and> length t < 256 \<and>
      t = pre @ '', cycle '' @ rest \<and> digits 0 rest = uint (s_cycle s)
    else datagrams path True msgs = []"
proof -
  let ?mode = "so101_mode_name (unat (s_mode s))" and ?r = "s_ramping s \<noteq> 0"
  let ?pre = "''WATCHDOG=1'' @ [CHR 0x0A] @ ''STATUS=mode '' @ ?mode @ (if ?r then '' (soft start)'' else [])"
  let ?rest = "dec_text (s_cycle s) @ '', faults 0x'' @ hex2_text (s_faults s)"
  let ?t = "?pre @ '', cycle '' @ ?rest"
  have t: "notify_text (Ping ?mode ?r (s_cycle s) (s_faults s)) = Some ?t" by (simp add: notify_text_def)
  have fits: "length ?t < 256" using notify_text_fits [OF t _ mode_name_length] by blast
  have sent: "sd_notifyf path True ?t = Some (sa, ?t)" using assms(1) fits by (simp add: sd_notifyf_def)
  have rest: "digits 0 ?rest = uint (s_cycle s)" using digits_dec_text [of "s_cycle s"] by simp
  have silent: "notify_text AliveAgain = None" "notify_text (Stuck x) = None" for x by (simp_all add: notify_text_def)
  show ?thesis
  proof (cases "s_cycle s \<noteq> dog_cycle d \<and> shm_sup_beat mem \<noteq> dog_beat d")
    case True
    then have "datagrams path True msgs = [?t]"
      using assms(2,3) t sent silent by (auto simp: dog_check_def Let_def datagrams_simps split: if_splits)
    moreover have "take 11 ?t = ''WATCHDOG=1'' @ [CHR 0x0A]" by simp
    ultimately have "\<exists>t pre rest. datagrams path True msgs = [t] \<and> take 11 t = ''WATCHDOG=1'' @ [CHR 0x0A] \<and> length t < 256 \<and>
      t = pre @ '', cycle '' @ rest \<and> digits 0 rest = uint (s_cycle s)"
      using fits rest by blast
    then show ?thesis using True by simp
  next
    case False
    then have "datagrams path True msgs = []"
      using assms(2,3) silent by (auto simp: dog_check_def Let_def datagrams_simps split: if_splits)
    then show ?thesis using False by simp
  qed
qed

text \<open>
  The supervisor's thread asks for a lower real-time priority than the control thread, except at the lowest
  one, where both ask for priority 1.
\<close>

lemma supervisor_below_control:
  assumes "realtime c" and "1 < prio c"
  shows "\<exists>p q. attr_sched (ctl_attr c) = SchedFifo p \<and> attr_sched (sup_attr c) = SchedFifo q \<and> 1 \<le> q \<and> q < p"
  using assms by (simp add: ctl_attr_def sup_attr_def)

lemma supervisor_equal_at_lowest:
  "attr_sched (sup_attr (ctx_default\<lparr>realtime := True, prio := 1\<rparr>)) = attr_sched (ctl_attr (ctx_default\<lparr>realtime := True, prio := 1\<rparr>))"
  by (simp add: ctl_attr_def sup_attr_def)

definition ex_beating :: so101_shm where
  "ex_beating = shm_zero\<lparr>shm_sup_beat := 5, shm_s := sample_zero\<lparr>s_cycle := 1207, s_mode := 1, s_faults := 0x11\<rparr>\<rparr>"

theorem watchdog_datagram_witness:
  "\<exists>t pre rest. datagrams (Some ''@x'') True (snd (dog_check ex_beating dog_init)) = [t] \<and>
    t = pre @ '', cycle '' @ rest \<and> digits 0 rest = 1207"
proof -
  have a: "sd_address (Some ''@x'') = Some (NUL # ''x'')" by (simp add: sd_address_def)
  have r: "so101_shm_read ex_beating 100 = Some (0, shm_s ex_beating)" by code_simp
  have "s_cycle (shm_s ex_beating) \<noteq> dog_cycle dog_init \<and> shm_sup_beat ex_beating \<noteq> dog_beat dog_init"
    by (simp add: ex_beating_def dog_init_def)
  then show ?thesis
    using watchdog_datagram [OF a r, of dog_init "fst (dog_check ex_beating dog_init)" "snd (dog_check ex_beating dog_init)"]
    by (simp add: ex_beating_def) blast
qed

end
