(* ===== verification/Fts_Tool.thy ===== *)
theory Fts_Tool
  imports Feetech_Bus_Lemmas Libc
begin

text \<open>
  The diagnostics program \<^verbatim>\<open>driver/tools/fts_tool.c\<close> over the driver. Its output is a list of values, one
  per line printed. \<open>main\<close> gets the options as \<open>getopt\<close> hands them out and the remaining arguments;
  the times that the benchmark measures are an input. The main claim of its header is proved: it
  never enables torque or moves a servo.
\<close>

section \<open>Commands\<close>

abbreviation (input) MAX_IDS :: int where "MAX_IDS \<equiv> 16"

datatype tool_line =
    LError fts_rc
  | LHex string "u8 list"
  | LText string
  | LServo int nat u8
  | LState u8 int int int u8 u8
  | LBench nat nat rat rat rat rat rat
  | LStats fts_stats

definition cmd_raw :: "fts_bus \<Rightarrow> int \<Rightarrow> tty \<Rightarrow> int \<times> tool_line list \<times> tty" where
  "cmd_raw bus i w =
     (let (tx, r, w) = fts_raw_ping bus (word_of_int i) 256 50 w
      in case r of
           Inl rc \<Rightarrow> (1, [LError rc], w)
         | Inr rx \<Rightarrow>
             (0, [LHex ''TX'' tx, LHex ''RX'' rx,
                  LText (if length rx \<ge> length tx \<and> take (length tx) rx = tx then ''echo''
                         else if length rx > 0 then ''no echo'' else ''no bytes'')], w))"

fun scan_loop :: "fts_bus \<Rightarrow> int list \<Rightarrow> nat \<Rightarrow> tty \<Rightarrow> nat \<times> tool_line list \<times> fts_bus \<times> tty" where
  "scan_loop bus [] found w = (found, [], bus, w)"
| "scan_loop bus (i # is) found w =
     (let (rc, bus, w) = fts_ping bus (word_of_int i) w in
      if rc = FTS_OK then
        let (_, out, bus, w) = fts_read bus (word_of_int i) 3 (Some [0, 0]) 2 w;
            mdl = (case out of Some m \<Rightarrow> m | None \<Rightarrow> [0, 0]);
            line = LServo i (unat (mdl ! 0) + 256 * unat (mdl ! 1)) (last_servo_error bus);
            (n, out, bus, w) = scan_loop bus is (found + 1) w
        in (n, line # out, bus, w)
      else scan_loop bus is found w)"

definition cmd_scan :: "fts_bus \<Rightarrow> int \<Rightarrow> tty \<Rightarrow> int \<times> tool_line list \<times> fts_bus \<times> tty" where
  "cmd_scan bus max_id w =
     (let (found, out, bus, w) = scan_loop bus [1..max_id] 0 w in (if found \<noteq> 0 then 0 else 1, out, bus, w))"

definition state_line :: "u8 list \<Rightarrow> nat \<Rightarrow> tool_line" where
  "state_line buf i =
     (let d = drop (8 * i) buf; le = (\<lambda>k. ucast (d ! k) OR push_bit 8 (ucast (d ! (k + 1))) :: u16)
      in LState (of_nat (i + 1)) (fts_decode_sm (le 0) 15) (fts_decode_sm (le 2) 15) (fts_decode_sm (le 4) 10) (d ! 6) (d ! 7))"

definition cmd_state :: "fts_bus \<Rightarrow> int \<Rightarrow> tty \<Rightarrow> int \<times> tool_line list \<times> fts_bus \<times> tty" where
  "cmd_state bus n w =
     (let ids = map (\<lambda>i. of_nat (i + 1)) [0..<nat n];
          (rc, out, bus, w) = fts_sync_read bus ids STS_PRESENT_POSITION 8 (Some (replicate 128 0)) w
      in if rc \<noteq> FTS_OK then (1, [LError rc], bus, w)
         else (0, map (state_line (the out)) [0..<nat n], bus, w))"

text \<open>The loop of the benchmark; \<open>dts\<close> are the measured times of its iterations.\<close>

fun bench_loop :: "fts_bus \<Rightarrow> rat list \<Rightarrow> rat list \<Rightarrow> nat \<Rightarrow> tty \<Rightarrow> rat list \<times> nat \<times> fts_bus \<times> tty" where
  "bench_loop bus [] lat fails w = (lat, fails, bus, w)"
| "bench_loop bus (dt # dts) lat fails w =
     (let (rc, _, bus, w) = fts_sync_read bus [1, 2, 3, 4, 5, 6] STS_PRESENT_POSITION 2 (Some (replicate 12 0)) w
      in if rc = FTS_OK then bench_loop bus dts (lat @ [dt]) fails w else bench_loop bus dts lat (fails + 1) w)"

definition bench_line :: "rat list \<Rightarrow> nat \<Rightarrow> nat \<Rightarrow> tool_line" where
  "bench_line lat iters fails =
     (let v = sort lat; n = length v; total = foldl (\<lambda>a x. rnd64 (a + x)) 0 v
      in LBench iters fails (v ! 0) (rnd64 (total / of_nat n)) (v ! (n div 2)) (v ! pct_index n (99 / 100)) (v ! (n - 1)))"

text \<open>\<open>mem_ok\<close>: the array of times could be allocated.\<close>

definition cmd_bench :: "bool \<Rightarrow> fts_bus \<Rightarrow> rat list \<Rightarrow> tty \<Rightarrow> int \<times> tool_line list \<times> fts_bus \<times> tty" where
  "cmd_bench mem_ok bus dts w =
     (if \<not> mem_ok then (1, [], bus, w)
      else
        let (lat, fails, bus, w) = bench_loop bus dts [] 0 w
        in if lat = [] then (1, [LText ''all reads failed''], bus, w)
           else (0, [bench_line lat (length dts) fails, LStats (stats bus)], bus, w))"

section \<open>main\<close>

fun tool_opts :: "(char \<times> string) list \<Rightarrow> bool \<times> int \<Rightarrow> (bool \<times> int) option" where
  "tool_opts [] cfg = Some cfg"
| "tool_opts ((opt, optarg) # os) cfg =
     (if opt = CHR ''e'' then tool_opts os (True, snd cfg)
      else if opt = CHR ''t'' then tool_opts os (fst cfg, atoi optarg)
      else None)"

definition fts_tool :: "(char \<times> string) list \<Rightarrow> string list \<Rightarrow> bool \<Rightarrow> (int \<Rightarrow> rat list) \<Rightarrow> tty \<Rightarrow> int \<times> tool_line list \<times> tty" where
  "fts_tool opts args mem_ok clock w =
     (case tool_opts opts (False, 10) of
        None \<Rightarrow> (2, [], w)
      | Some (ech, timeout) \<Rightarrow>
          if length args < 2 then (2, [], w)
          else
            let port = args ! 0; cmd = args ! 1;
                arg = (if length args \<ge> 3 then atoi (args ! 2) else - 1);
                (rc, bus, w) = fts_open port 1000000 w in
            if rc \<noteq> FTS_OK then (1, [LError rc], w)
            else
              let bus = bus\<lparr>echo := ech, timeout_ms := timeout\<rparr>;
                  (ret, out, bus, w) =
                    (if cmd = ''raw'' then (let (ret, out, w) = cmd_raw bus (if arg > 0 then arg else 1) w in (ret, out, bus, w))
                     else if cmd = ''scan'' then cmd_scan bus (if arg > 0 then arg else 10) w
                     else if cmd = ''state'' then cmd_state bus (if arg > 0 \<and> arg \<le> MAX_IDS then arg else 6) w
                     else if cmd = ''bench'' then cmd_bench mem_ok bus (clock (if arg > 0 then arg else 1000)) w
                     else (2, [], bus, w))
              in (ret, out, snd (fts_close bus w)))"

section \<open>What reaches the wire\<close>

text \<open>A query: a packet, or the beginning of one, whose instruction only asks.\<close>

definition query :: "u8 list \<Rightarrow> bool" where
  "query p \<longleftrightarrow> (\<exists>sid inst params n. inst \<in> {FTS_INST_PING, FTS_INST_READ, FTS_INST_SYNC_READ} \<and>
     p = take n (fts_build_packet sid inst params))"

definition queries_only :: "tty \<Rightarrow> tty \<Rightarrow> bool" where
  "queries_only w w' \<longleftrightarrow> (\<exists>ps. tty_wire w' = tty_wire w @ concat ps \<and> list_all query ps)"

lemma queries_none: "tty_wire w' = tty_wire w \<Longrightarrow> queries_only w w'"
  unfolding queries_only_def by (intro exI [of _ "[]"]) simp

lemma queries_trans [trans]: "queries_only a b \<Longrightarrow> queries_only b c \<Longrightarrow> queries_only a c"
proof -
  assume "queries_only a b" "queries_only b c"
  then obtain p q where "tty_wire b = tty_wire a @ concat p" "list_all query p" "tty_wire c = tty_wire b @ concat q" "list_all query q"
    by (auto simp: queries_only_def)
  then show ?thesis unfolding queries_only_def by (intro exI [of _ "p @ q"]) simp
qed

lemma queries_one:
  "tty_wire w' = tty_wire w @ take n (fts_build_packet sid inst params) \<Longrightarrow>
    inst \<in> {FTS_INST_PING, FTS_INST_READ, FTS_INST_SYNC_READ} \<Longrightarrow> queries_only w w'"
  unfolding queries_only_def query_def
  by (intro exI [of _ "[take n (fts_build_packet sid inst params)]"]) auto

lemma tx_packet_query:
  "tx_packet bus (fts_build_packet sid inst params) w = (rc, bus', w') \<Longrightarrow>
    inst \<in> {FTS_INST_PING, FTS_INST_READ, FTS_INST_SYNC_READ} \<Longrightarrow> queries_only w w'"
  using tx_packet_wire queries_one by blast

lemma fts_ping_query: "fts_ping bus sid w = (rc, bus', w') \<Longrightarrow> queries_only w w'"
proof -
  assume r: "fts_ping bus sid w = (rc, bus', w')"
  obtain r1 b1 w1 where tx: "tx_packet bus (fts_build_packet sid FTS_INST_PING []) w = (r1, b1, w1)"
    by (cases "tx_packet bus (fts_build_packet sid FTS_INST_PING []) w")
  have "tty_wire w' = tty_wire w1"
    using r by (auto simp: fts_ping_def tx Let_def split: if_splits prod.splits dest!: rx_status_wire)
  then show ?thesis using tx_packet_query [OF tx] queries_none queries_trans by blast
qed

lemma fts_read_query: "fts_read bus sid addr out len w = (rc, out', bus', w') \<Longrightarrow> queries_only w w'"
proof -
  assume r: "fts_read bus sid addr out len w = (rc, out', bus', w')"
  obtain r1 b1 w1 where tx: "tx_packet bus (fts_build_packet sid FTS_INST_READ [addr, len]) w = (r1, b1, w1)"
    by (cases "tx_packet bus (fts_build_packet sid FTS_INST_READ [addr, len]) w")
  have "tty_wire w' = tty_wire w \<or> tty_wire w' = tty_wire w1"
    using r by (auto simp: fts_read_def tx Let_def split: if_splits prod.splits option.splits dest!: rx_status_wire)
  then show ?thesis using tx_packet_query [OF tx] queries_none queries_trans by blast
qed

lemma fts_sync_read_query: "fts_sync_read bus ids addr len out w = (rc, out', bus', w') \<Longrightarrow> queries_only w w'"
proof -
  assume r: "fts_sync_read bus ids addr len out w = (rc, out', bus', w')"
  let ?p = "fts_build_packet FTS_BROADCAST_ID FTS_INST_SYNC_READ (addr # len # ids)"
  obtain r1 b1 w1 where tx: "tx_packet bus ?p w = (r1, b1, w1)" by (cases "tx_packet bus ?p w")
  have "tty_wire w' = tty_wire w \<or> tty_wire w' = tty_wire w1"
    using r by (auto simp: fts_sync_read_def tx Let_def split: if_splits prod.splits option.splits dest!: sync_read_loop_wire)
  then show ?thesis using tx_packet_query [OF tx] queries_none queries_trans by blast
qed

lemma raw_ping_loop_wire: "raw_ping_loop bus deadline cap raw w = (out, w') \<Longrightarrow> tty_wire w' = tty_wire w"
proof (induction bus deadline cap raw w arbitrary: out w' rule: raw_ping_loop.induct)
  case (1 bus deadline cap raw w)
  obtain now w1 where n: "now_ms w = (now, w1)" by (cases "now_ms w")
  obtain a w2 where p: "sys_poll (fd bus) (deadline - now) w1 = (a, w2)" by (cases "sys_poll (fd bus) (deadline - now) w1")
  obtain r w3 where s: "sys_read (fd bus) (cap - length raw) w2 = (r, w3)" by (cases "sys_read (fd bus) (cap - length raw) w2")
  have w: "tty_wire w1 = tty_wire w" "tty_wire w2 = tty_wire w1" "tty_wire w3 = tty_wire w2"
    using now_ms_scripts [OF n] p s by (auto simp: sys_poll_def sys_read_def Let_def split: if_splits list.splits read_ans.splits)
  have ih: "tty_wire w' = tty_wire w3" if "length raw < cap" "\<not> deadline - now \<le> 0" "a = PollReady i e" "r = ReadBytes bs" "bs \<noteq> []"
    "raw_ping_loop bus deadline cap (raw @ bs) w3 = (out, w')" for i e bs
    by (rule "1.IH" [OF that(1) refl n [symmetric] refl that(2) p [symmetric] that(3) s [symmetric] that(4,5,6)])
  show ?case
    using "1.prems" ih w
    by (auto simp: raw_ping_loop.simps [of bus deadline cap raw w] n p s Let_def split: if_splits poll_ans.splits read_ans.splits)
qed

lemma fts_raw_ping_query: "fts_raw_ping bus sid cap ms w = (tx, r, w') \<Longrightarrow> queries_only w w'"
proof -
  assume r: "fts_raw_ping bus sid cap ms w = (tx, r, w')"
  let ?p = "fts_build_packet sid FTS_INST_PING []"
  obtain rc w1 where a: "write_all (fd bus) ?p w = (rc, w1)" by (cases "write_all (fd bus) ?p w")
  have "tty_wire w' = tty_wire w1"
    using r by (auto simp: fts_raw_ping_def a Let_def split: if_splits prod.splits dest!: now_ms_scripts raw_ping_loop_wire)
  moreover have "\<exists>n. tty_wire w1 = tty_wire w @ take n ?p" using write_all_wire [OF a] by blast
  ultimately show ?thesis using queries_one by fastforce
qed

lemma scan_loop_query: "scan_loop bus is found w = (n, out, bus', w') \<Longrightarrow> queries_only w w'"
proof (induction "is" arbitrary: bus found w n out)
  case Nil
  then show ?case by (simp add: queries_none)
next
  case (Cons i "is")
  obtain rc b1 w1 where 1: "fts_ping bus (word_of_int i) w = (rc, b1, w1)" by (cases "fts_ping bus (word_of_int i) w")
  obtain r2 o2 b2 w2 where 2: "fts_read b1 (word_of_int i) 3 (Some [0, 0]) 2 w1 = (r2, o2, b2, w2)"
    by (cases "fts_read b1 (word_of_int i) 3 (Some [0, 0]) 2 w1")
  note q1 = fts_ping_query [OF 1] and q2 = fts_read_query [OF 2]
  show ?case
    using Cons.prems Cons.IH q1 queries_trans [OF q1 q2]
    by (auto simp: 1 2 Let_def split: if_splits prod.splits intro: queries_trans)
qed

lemma bench_loop_query: "bench_loop bus dts lat fails w = (lat', fails', bus', w') \<Longrightarrow> queries_only w w'"
proof (induction dts arbitrary: bus lat fails w)
  case Nil
  then show ?case by (simp add: queries_none)
next
  case (Cons dt dts)
  obtain rc o1 b1 w1 where 1: "fts_sync_read bus [1, 2, 3, 4, 5, 6] STS_PRESENT_POSITION 2 (Some (replicate 12 0)) w = (rc, o1, b1, w1)"
    by (cases "fts_sync_read bus [1, 2, 3, 4, 5, 6] STS_PRESENT_POSITION 2 (Some (replicate 12 0)) w")
  then show ?case
    using Cons.prems Cons.IH fts_sync_read_query [OF 1] by (auto split: if_splits intro: queries_trans)
qed

lemmas command_queries =
  fts_raw_ping_query fts_sync_read_query scan_loop_query bench_loop_query

lemma command_query:
  "cmd_raw bus i w = (ret, out, w') \<Longrightarrow> queries_only w w'"
  "cmd_scan bus i w = (ret, out, bus', w') \<Longrightarrow> queries_only w w'"
  "cmd_state bus i w = (ret, out, bus', w') \<Longrightarrow> queries_only w w'"
  "cmd_bench m bus dts w = (ret, out, bus', w') \<Longrightarrow> queries_only w w'"
  by (auto simp: cmd_raw_def cmd_scan_def cmd_state_def cmd_bench_def Let_def queries_none
      split: prod.splits sum.splits if_splits dest!: command_queries)

lemma open_close_wire:
  "fts_open p b w = (rc, bus, w') \<Longrightarrow> tty_wire w' = tty_wire w" "tty_wire (snd (fts_close bus w)) = tty_wire w"
  by (auto simp: fts_open_def fts_close_def sys_open_def sys_close_def Let_def
      split: option.splits open_ans.splits prod.splits if_splits list.splits)

section \<open>Properties\<close>

text \<open>C24. The tool keeps the promise of its header: whatever its command line and whatever the port answers, every packet
  it puts on the wire is a PING, a READ or a SYNC_READ (or the beginning of one, when a write fails); it never
  writes a register, so it neither enables torque nor moves a servo.\<close>

theorem tool_reads_only:
  assumes "fts_tool opts args mem_ok clock w = (ret, out, w')"
  shows "\<exists>ps. tty_wire w' = tty_wire w @ concat ps \<and> list_all query ps"
proof -
  have "queries_only w w'"
  proof (cases "tool_opts opts (False, 10) = None \<or> length args < 2")
    case True
    then show ?thesis using assms by (auto simp: fts_tool_def queries_none split: option.splits)
  next
    case False
    then obtain ech timeout where o: "tool_opts opts (False, 10) = Some (ech, timeout)" by auto
    obtain rc bus w1 where op: "fts_open (args ! 0) 1000000 w = (rc, bus, w1)" by (cases "fts_open (args ! 0) 1000000 w")
    note w1 = open_close_wire(1) [OF op]
    have "rc \<noteq> FTS_OK \<Longrightarrow> w' = w1" using assms False by (auto simp: fts_tool_def o op Let_def)
    moreover have "\<exists>b w2. queries_only w1 w2 \<and> w' = snd (fts_close b w2)" if "rc = FTS_OK"
      using assms False that
      by (auto simp: fts_tool_def o op Let_def split: if_splits prod.splits intro: queries_none dest!: command_query)
    ultimately show ?thesis
      using queries_trans [OF queries_none [OF w1]] queries_none [OF w1] queries_none open_close_wire(2) queries_trans by metis
  qed
  then show ?thesis by (simp add: queries_only_def)
qed

definition tool_tty :: tty where
  "tool_tty = \<lparr>tty_now = 0, tty_ticks = [], tty_polls = [], tty_reads = [], tty_writes = [WriteBytes 3, WriteBytes 9],
     tty_opens = [OpenFd 4 (Some \<lparr>tio_flags = {}, tio_vmin = 0, tio_vtime = 0, tio_ispeed = None, tio_ospeed = None\<rparr>) True],
     tty_waits = [], tty_wire = [], tty_fds = {}, tty_paths = [], tty_tio = None\<rparr>"

theorem tool_reads_only_witness:
  "\<exists>ret out w' ps. fts_tool [(CHR ''t'', ''5'')] [''p'', ''raw'', ''3''] True (\<lambda>n. []) tool_tty = (ret, out, w') \<and>
     tty_wire w' = concat ps \<and> list_all query ps \<and> tty_wire w' = [0xFF, 0xFF, 3, 2, 1, 0xF9]"
proof -
  let ?r = "fts_tool [(CHR ''t'', ''5'')] [''p'', ''raw'', ''3''] True (\<lambda>n. []) tool_tty"
  obtain ret out w' where r: "?r = (ret, out, w')" by (cases ?r)
  have "tty_wire (snd (snd ?r)) = [0xFF, 0xFF, 3, 2, 1, 0xF9]" by code_simp
  then show ?thesis using tool_reads_only [OF r] r by (simp add: tool_tty_def)
qed

lemma sorted_bounds: "sorted v \<Longrightarrow> i < length v \<Longrightarrow> v ! 0 \<le> v ! i \<and> v ! i \<le> v ! (length v - 1)"
  by (auto intro: sorted_nth_mono)

text \<open>The benchmark reads inside its array: for any number of iterations below 2^43 of which one succeeded, the median and the
  99th percentile are taken at indices below the number of times recorded, so they are measured times, between
  the minimum and the maximum printed.\<close>

theorem bench_percentiles:
  assumes "lat \<noteq> []" and "length lat < 2 ^ 43"
  shows "pct_index (length lat) (99 / 100) < length lat \<and>
    (\<exists>mean p50 p99. bench_line lat iters fails = LBench iters fails (Min (set lat)) mean p50 p99 (Max (set lat)) \<and>
      p50 \<in> set lat \<and> p99 \<in> set lat)"
proof -
  let ?v = "sort lat" and ?n = "length lat"
  have n: "0 < ?n" using assms(1) by simp
  have i: "pct_index ?n (99 / 100) < ?n" using pct_index_less [OF n assms(2)] pct_quantiles(1) by blast
  have m: "?v ! k \<in> set lat" if "k < ?n" for k using that nth_mem [of k ?v] by simp
  have b: "?v ! 0 \<le> x \<and> x \<le> ?v ! (?n - 1)" if "x \<in> set lat" for x
  proof -
    have "x \<in> set ?v" using that by simp
    then obtain k where "k < length ?v" "?v ! k = x" by (auto simp: in_set_conv_nth simp del: set_sort)
    then show ?thesis using sorted_bounds [of ?v k] by simp
  qed
  have "Min (set lat) = ?v ! 0" by (rule Min_eqI) (use b m [of 0] n in blast)+
  moreover have "Max (set lat) = ?v ! (?n - 1)" by (rule Max_eqI) (use b m [of "?n - 1"] n in auto)
  ultimately show ?thesis using i m [OF i] m [of "?n div 2"] n by (simp add: bench_line_def Let_def)
qed

theorem bench_percentiles_witness: "pct_index (length [9 :: rat, 2, 5]) (99 / 100) < 3"
  using bench_percentiles [of "[9, 2, 5]" 3 0] by simp

end
