(* ===== verification/Jitter.thy ===== *)
theory Jitter
  imports Feetech_Bus_Lemmas Libc Grid
begin

text \<open>
  The timing test \<^verbatim>\<open>driver/tools/jitter_test.c\<close>: a periodic loop on a fixed grid that records one sample
  per cycle, and the statistics of the samples. The readings of the clock in a cycle are its input.
  A recording that Ctrl+C ends early is a shorter list of cycles. Not modelled: the
  formatting of the report.
\<close>

section \<open>Configuration\<close>

record jt_ctx =
  jt_port :: string
  jt_freq :: rat
  jt_cycles :: int
  jt_realtime :: bool
  jt_prio :: int
  jt_cpu :: int
  jt_no_bus :: bool
  jt_out :: string

definition jt_default :: jt_ctx where
  "jt_default = \<lparr>jt_port = ''/dev/so101_follower'', jt_freq = 100, jt_cycles = 10000, jt_realtime = False,
     jt_prio = 80, jt_cpu = - 1, jt_no_bus = False, jt_out = ''jitter.csv''\<rparr>"

datatype jt_opts =
    JtRun jt_ctx
  | JtUsage
  | JtNoFloat

fun jt_parse :: "(char \<times> string) list \<Rightarrow> jt_ctx \<Rightarrow> jt_opts" where
  "jt_parse [] c = (if jt_freq c \<le> 0 \<or> jt_cycles c \<le> 0 then JtUsage else JtRun c)"
| "jt_parse ((opt, optarg) # os) c =
     (if opt = CHR ''p'' then jt_parse os (c\<lparr>jt_port := optarg\<rparr>)
      else if opt = CHR ''f'' then (case atof optarg of None \<Rightarrow> JtNoFloat | Some x \<Rightarrow> jt_parse os (c\<lparr>jt_freq := x\<rparr>))
      else if opt = CHR ''n'' then jt_parse os (c\<lparr>jt_cycles := atol optarg\<rparr>)
      else if opt = CHR ''r'' then jt_parse os (c\<lparr>jt_realtime := True\<rparr>)
      else if opt = CHR ''P'' then jt_parse os (c\<lparr>jt_prio := atoi optarg\<rparr>)
      else if opt = CHR ''C'' then jt_parse os (c\<lparr>jt_cpu := atoi optarg\<rparr>)
      else if opt = CHR ''N'' then jt_parse os (c\<lparr>jt_no_bus := True\<rparr>)
      else if opt = CHR ''o'' then jt_parse os (c\<lparr>jt_out := optarg\<rparr>)
      else JtUsage)"

section \<open>The control thread\<close>

record jt_sample =
  t_wake_ns :: int
  wake_lat_ns :: int
  bus_ns :: int
  js_rc :: int

record jt =
  jt_next :: int
  jt_s :: "jt_sample list"
  jt_overruns :: int
  jt_missed :: int

record jt_in =
  ji_wake :: int
  ji_b0 :: int
  ji_b1 :: int
  ji_now :: int

definition jt_start :: "int \<Rightarrow> int \<Rightarrow> int" where
  "jt_start now period = now + 10 * period"

definition jt_init :: "int \<Rightarrow> jt" where
  "jt_init start = \<lparr>jt_next = start, jt_s = [], jt_overruns = 0, jt_missed = 0\<rparr>"

text \<open>One cycle; \<open>None\<close> is a cycle that never ends (a period of zero on a late cycle).\<close>

definition jt_grid :: "int \<Rightarrow> int \<Rightarrow> jt \<Rightarrow> jt option" where
  "jt_grid period now st =
     (let st = st\<lparr>jt_next := jt_next st + period\<rparr>
      in if now > jt_next st then
           (let st = st\<lparr>jt_overruns := jt_overruns st + 1\<rparr>
            in map_option (\<lambda>(nxt, missed). st\<lparr>jt_next := nxt, jt_missed := missed\<rparr>)
                 (grid_loop period now (jt_next st) (jt_missed st)))
         else Some st)"

definition jt_cycle :: "bool \<Rightarrow> int \<Rightarrow> int \<Rightarrow> jt_in \<Rightarrow> jt \<times> fts_bus \<times> tty \<Rightarrow> (jt \<times> fts_bus \<times> tty) option" where
  "jt_cycle no_bus period start i s =
     (let (st, bus, w) = s;
          (rc, bus, w) =
            (if no_bus then (FTS_OK, bus, w)
             else let (rc, _, bus, w) = fts_sync_read bus [1, 2, 3, 4, 5, 6] STS_PRESENT_POSITION 2 (Some (replicate 12 0)) w
                  in (rc, bus, w));
          (b0, b1) = (if no_bus then (ji_wake i, ji_wake i) else (ji_b0 i, ji_b1 i));
          smp = \<lparr>t_wake_ns = ji_wake i - start, wake_lat_ns = to_i32 (ji_wake i - jt_next st), bus_ns = to_i32 (b1 - b0),
                 js_rc = fts_code rc\<rparr>;
          st = st\<lparr>jt_s := jt_s st @ [smp]\<rparr>
      in map_option (\<lambda>st. (st, bus, w)) (jt_grid period (ji_now i) st))"

text \<open>The loop: at most \<open>cycles\<close> inputs.\<close>

fun jt_loop :: "bool \<Rightarrow> int \<Rightarrow> int \<Rightarrow> jt_in list \<Rightarrow> jt \<times> fts_bus \<times> tty \<Rightarrow> (jt \<times> fts_bus \<times> tty) option" where
  "jt_loop no_bus period start [] s = Some s"
| "jt_loop no_bus period start (i # is) s = Option.bind (jt_cycle no_bus period start i s) (jt_loop no_bus period start is)"

definition jt_thread :: "jt_ctx \<Rightarrow> int \<Rightarrow> jt_in list \<Rightarrow> fts_bus \<Rightarrow> tty \<Rightarrow> (jt \<times> fts_bus \<times> tty) option" where
  "jt_thread c now is bus w =
     (let period = period_of (jt_freq c); start = jt_start now period
      in jt_loop (jt_no_bus c) period start (take (nat (jt_cycles c)) is) (jt_init start, bus, w))"

section \<open>Statistics\<close>

record pct_line =
  p_min :: rat
  p_mean :: rat
  p50 :: rat
  p99 :: rat
  p999 :: rat
  p_max :: rat

definition pct :: "int list \<Rightarrow> rat \<Rightarrow> pct_line" where
  "pct v0 unit =
     (let v = sort v0; n = length v; total = foldl (\<lambda>a x. rnd64 (a + rnd64 (of_int x))) 0 v;
          us = (\<lambda>k. rnd64 (rnd64 (of_int (v ! k)) / unit))
      in \<lparr>p_min = us 0, p_mean = rnd64 (rnd64 (total / of_nat n) / unit), p50 = us (n div 2),
          p99 = us (pct_index n (99 / 100)), p999 = us (pct_index n (999 / 1000)), p_max = us (n - 1)\<rparr>)"

definition periods :: "jt_sample list \<Rightarrow> int list" where
  "periods s = map (\<lambda>k. t_wake_ns (s ! (k + 1)) - t_wake_ns (s ! k)) [0..<length s - 1]"

text \<open>A period deviates when it is off by more than a tenth, in the double arithmetic of the code.\<close>

definition deviates :: "rat \<Rightarrow> int \<Rightarrow> bool" where
  "deviates hz per =
     (let period_us = rnd64 (1000000 / hz);
          dev = rnd64 (ns_us per - period_us);
          dev = (if dev < 0 then - dev else dev)
      in dev > rnd64 (rnd64 (1 / 10) * period_us))"

record jt_report =
  r_n :: nat
  r_lat :: pct_line
  r_period :: pct_line
  r_bus :: "pct_line option"
  r_viol :: nat
  r_viol_pct :: rat
  r_overruns :: int
  r_missed :: int
  r_bus_err :: nat

text \<open>The report, or none when there are fewer than two samples.\<close>

definition jt_report :: "jt_ctx \<Rightarrow> jt \<Rightarrow> jt_report option" where
  "jt_report c st =
     (let s = jt_s st; n = length s
      in if n < 2 then None
         else Some \<lparr>r_n = n, r_lat = pct (map wake_lat_ns s) 1000, r_period = pct (periods s) 1000,
           r_bus = (if jt_no_bus c then None else Some (pct (map bus_ns s) 1000)),
           r_viol = length (filter (deviates (jt_freq c)) (periods s)),
           r_viol_pct = percent (int (length (filter (deviates (jt_freq c)) (periods s)))) (int n - 1), r_overruns = jt_overruns st,
           r_missed = jt_missed st, r_bus_err = length (filter (\<lambda>x. js_rc x \<noteq> 0) s)\<rparr>)"

text \<open>The rows of the CSV file.\<close>

definition csv_row :: "jt_sample list \<Rightarrow> nat \<Rightarrow> cell list" where
  "csv_row s k =
     (let per = (if k \<noteq> 0 then ns_us (t_wake_ns (s ! k) - t_wake_ns (s ! (k - 1))) else 0)
      in [CInt (int k), CDec 3 (ns_us (t_wake_ns (s ! k))), CDec 3 (ns_us (wake_lat_ns (s ! k))), CDec 3 per,
          CDec 3 (ns_us (bus_ns (s ! k))), CInt (js_rc (s ! k))])"

datatype jt_result =
    JtExit int tty
  | JtDone jt_report "cell list list option" tty
  | JtHangs
  | JtUnknown

text \<open>\<open>setup_realtime\<close> and the pinning; locking the memory may fail, which ends the program.\<close>

definition setup_realtime :: "jt_ctx \<Rightarrow> bool \<Rightarrow> thread_attr \<Rightarrow> thread_attr option" where
  "setup_realtime c lock_ok a = (if \<not> lock_ok then None else Some (a\<lparr>attr_sched := SchedFifo (jt_prio c)\<rparr>))"

definition jt_attr :: "jt_ctx \<Rightarrow> bool \<Rightarrow> thread_attr option" where
  "jt_attr c lock_ok =
     (let a = \<lparr>attr_sched = Inherited, attr_cpus = None\<rparr>
      in map_option (\<lambda>a. if jt_cpu c \<ge> 0 then a\<lparr>attr_cpus := Some (cpu_set (jt_cpu c))\<rparr> else a)
           (if jt_realtime c then setup_realtime c lock_ok a else Some a))"

text \<open>
  \<open>main\<close>: whether \<open>calloc\<close>, \<open>mlockall\<close>, \<open>pthread_create\<close> and \<open>fopen\<close> succeed, the clock at the start of the
  thread and the readings of each cycle. A port that was opened stays open on the early returns.
\<close>

definition jitter_test ::
    "(char \<times> string) list \<Rightarrow> bool \<Rightarrow> bool \<Rightarrow> (thread_attr \<Rightarrow> bool) \<Rightarrow> bool \<Rightarrow> int \<Rightarrow> jt_in list \<Rightarrow> tty \<Rightarrow> jt_result" where
  "jitter_test opts mem_ok lock_ok thread_ok file_ok now is w =
     (case jt_parse opts jt_default of
        JtUsage \<Rightarrow> JtExit 2 w
      | JtNoFloat \<Rightarrow> JtUnknown
      | JtRun c \<Rightarrow>
          if \<not> mem_ok then JtExit 1 w
          else
            let (rc, bus, w) = (if jt_no_bus c then (FTS_OK, bus_zero, w) else fts_open (jt_port c) 1000000 w) in
            if rc \<noteq> FTS_OK then JtExit 1 w
            else if case jt_attr c lock_ok of None \<Rightarrow> True | Some a \<Rightarrow> \<not> thread_ok a then JtExit 1 w
            else
              (case jt_thread c now is bus w of
                 None \<Rightarrow> JtHangs
               | Some (st, bus, w) \<Rightarrow>
                   let (bus, w) = (if jt_no_bus c then (bus, w) else fts_close bus w)
                   in (case jt_report c st of
                         None \<Rightarrow> JtExit 1 w
                       | Some r \<Rightarrow>
                           JtDone r (if file_ok then Some (map (csv_row (jt_s st)) [0..<length (jt_s st)]) else None) w)))"

section \<open>Lemmas\<close>

definition jt_ok :: "int \<Rightarrow> int \<Rightarrow> jt \<Rightarrow> bool" where
  "jt_ok period start st \<longleftrightarrow> 0 \<le> jt_missed st \<and> 0 \<le> jt_overruns st \<and> jt_overruns st \<le> int (length (jt_s st)) \<and>
     jt_overruns st \<le> jt_missed st \<and> jt_next st = start + (int (length (jt_s st)) + jt_missed st) * period"

lemma jt_grid_ok:
  assumes "0 < period"
  obtains k where "jt_grid period now st = Some (st\<lparr>jt_next := jt_next st + (1 + int k) * period,
      jt_overruns := jt_overruns st + of_bool (k > 0), jt_missed := jt_missed st + int k\<rparr>)"
    "now \<le> jt_next st + (1 + int k) * period"
proof -
  obtain k where k: "grid_loop period now (jt_next st + period) (jt_missed st) =
      Some (jt_next st + period + int k * period, jt_missed st + of_nat k)" "now \<le> jt_next st + period + int k * period"
    using grid_loop_steps [OF assms] by blast
  show thesis
  proof (cases "now > jt_next st + period")
    case True
    then have "k > 0" using k(2) by (cases k) auto
    then show thesis using True k by (intro that [of k]) (simp_all add: jt_grid_def Let_def algebra_simps)
  next
    case False
    then show thesis by (intro that [of 0]) (simp_all add: jt_grid_def)
  qed
qed

lemma jt_cycle_ok:
  assumes "0 < period" and "jt_ok period start st"
  shows "\<exists>st' bus' w'. jt_cycle no_bus period start i (st, bus, w) = Some (st', bus', w') \<and> jt_ok period start st' \<and>
    length (jt_s st') = Suc (length (jt_s st)) \<and> ji_now i \<le> jt_next st'"
proof -
  have "\<exists>smp bus1 w1. jt_cycle no_bus period start i (st, bus, w) =
      map_option (\<lambda>st. (st, bus1, w1)) (jt_grid period (ji_now i) (st\<lparr>jt_s := jt_s st @ [smp]\<rparr>))"
    by (cases no_bus; cases "fts_sync_read bus [1, 2, 3, 4, 5, 6] STS_PRESENT_POSITION 2 (Some (replicate 12 0)) w")
      (auto simp: jt_cycle_def Let_def)
  then obtain smp bus1 w1 where c: "jt_cycle no_bus period start i (st, bus, w) =
      map_option (\<lambda>st. (st, bus1, w1)) (jt_grid period (ji_now i) (st\<lparr>jt_s := jt_s st @ [smp]\<rparr>))" by blast
  obtain k where k: "jt_grid period (ji_now i) (st\<lparr>jt_s := jt_s st @ [smp]\<rparr>) =
      Some (st\<lparr>jt_s := jt_s st @ [smp], jt_next := jt_next st + (1 + int k) * period,
        jt_overruns := jt_overruns st + of_bool (k > 0), jt_missed := jt_missed st + int k\<rparr>)"
    "ji_now i \<le> jt_next st + (1 + int k) * period"
    by (rule jt_grid_ok [OF assms(1), of "ji_now i" "st\<lparr>jt_s := jt_s st @ [smp]\<rparr>"]) simp
  show ?thesis
    unfolding c k(1) using assms(2) k(2) by (cases "k = 0") (auto simp: jt_ok_def algebra_simps)
qed

lemma jt_loop_ok:
  assumes "0 < period"
  shows "jt_ok period start st \<Longrightarrow> \<exists>st' bus' w'. jt_loop no_bus period start is (st, bus, w) = Some (st', bus', w') \<and>
    jt_ok period start st' \<and> length (jt_s st') = length (jt_s st) + length is"
proof (induction "is" arbitrary: st bus w)
  case Nil
  then show ?case by simp
next
  case (Cons i "is")
  obtain st1 bus1 w1 where c: "jt_cycle no_bus period start i (st, bus, w) = Some (st1, bus1, w1)"
    "jt_ok period start st1" "length (jt_s st1) = Suc (length (jt_s st))"
    using jt_cycle_ok [OF assms Cons.prems] by blast
  from Cons.IH [OF c(2)] c show ?case by auto
qed

section \<open>Properties\<close>

text \<open>The test measures on a fixed grid and loses no slot: at any rate up to 1 GHz the loop ends after at most the number of
  cycles asked for, with one sample per cycle; the next slot is the start plus one period for every cycle done and
  every slot counted as missed; and every overrun has missed at least one slot.\<close>

theorem jitter_on_grid:
  assumes "0 < period_of (jt_freq c)"
  shows "\<exists>st bus' w'. jt_thread c now is bus w = Some (st, bus', w') \<and>
    length (jt_s st) = min (nat (jt_cycles c)) (length is) \<and>
    jt_next st = jt_start now (period_of (jt_freq c)) + (int (length (jt_s st)) + jt_missed st) * period_of (jt_freq c) \<and>
    0 \<le> jt_overruns st \<and> jt_overruns st \<le> jt_missed st \<and> jt_overruns st \<le> int (length (jt_s st))"
proof -
  have "jt_ok (period_of (jt_freq c)) s (jt_init s)" for s by (simp add: jt_ok_def jt_init_def)
  from jt_loop_ok [OF assms this] show ?thesis
    by (fastforce simp: jt_thread_def Let_def jt_ok_def jt_init_def min.commute)
qed

definition jt_tty :: tty where
  "jt_tty = \<lparr>tty_now = 0, tty_ticks = [], tty_polls = [], tty_reads = [], tty_writes = [], tty_opens = [], tty_waits = [],
     tty_wire = [], tty_fds = {}, tty_paths = [], tty_tio = None\<rparr>"

theorem jitter_on_grid_witness:
  "\<exists>st bus' w'. jt_thread (jt_default\<lparr>jt_no_bus := True\<rparr>) 0 [\<lparr>ji_wake = 100000050, ji_b0 = 0, ji_b1 = 0, ji_now = 100000900\<rparr>]
      bus_zero jt_tty = Some (st, bus', w') \<and> length (jt_s st) = 1 \<and> jt_overruns st \<le> 1"
proof -
  have p: "period_of 100 = 10000000" by code_simp
  then show ?thesis
    using jitter_on_grid [of "jt_default\<lparr>jt_no_bus := True\<rparr>" 0
        "[\<lparr>ji_wake = 100000050, ji_b0 = 0, ji_b1 = 0, ji_now = 100000900\<rparr>]" bus_zero jt_tty]
    by (auto simp: jt_default_def)
qed

end
