(* ===== verification/Spec2Isabelle.thy ===== *)
theory Spec2Isabelle
  imports Feetech_Props Layout Seqlock Supervisor_Props Supervisor_Spec Control_Props Life Ports_Props Races_Props Messages Fts_Tool Jitter
begin

text \<open>
  Verification of the SO-101 teleoperation software: two arms of six servos, a leader moved by hand and a
  follower that copies it, driven by the daemon \<^verbatim>\<open>so101d\<close> over two serial buses.

  \<^bold>\<open>The program and its parts.\<close> Paths are relative to the root of the repository.

  \<^item> The servo driver, \<^verbatim>\<open>driver/include/feetech.h\<close> and \<^verbatim>\<open>driver/src/feetech.c\<close>: packets, parsing, transactions on a
    tty. Only the control thread (and the diagnostics tool) uses it.
  \<^item> The control thread, \<^verbatim>\<open>daemon/src/control.c\<close>: at a fixed rate it reads both arms, applies the requested mode,
    moves the goals of the follower by limited steps, publishes a sample and keeps to its time grid.
  \<^item> The supervisor thread, \<^verbatim>\<open>daemon/src/supervisor.c\<close>: it serves commands from the mailbox, watches the published
    samples, latches faults and lowers the requested mode. It is the only writer of the mode.
  \<^item> The shared memory, \<^verbatim>\<open>daemon/include/so101_shm.h\<close>: the sample behind a seqlock, the requested mode, the fault
    word, the heartbeat, the mailbox. It connects the threads with each other and with the clients.
  \<^item> The main thread, \<^verbatim>\<open>daemon/src/so101d.c\<close>: options, calibration (\<^verbatim>\<open>daemon/src/calib.c\<close>), ports, shared objects, threads,
    the watchdog of systemd, the shutdown.
  \<^item> The clients \<^verbatim>\<open>daemon/tools/so101ctl.c\<close> (commands and status) and \<^verbatim>\<open>daemon/tools/so101_log.c\<close> (recording), and
    the tools \<^verbatim>\<open>driver/tools/fts_tool.c\<close> and \<^verbatim>\<open>driver/tools/jitter_test.c\<close>.

  \<^bold>\<open>Theories.\<close> Each definition has the name of the function or structure it models where there is one.

  \<^item> \<^verbatim>\<open>Prelude\<close>: machine types, C conversions, runs of optional steps (\<open>opt_run\<close>, \<open>ok_run\<close>) and the locales of
    invariants: \<open>run_system\<close> and \<open>run_descent\<close> for folds, \<open>guarded_run\<close> for runs under a condition on the events.
  \<^item> \<^verbatim>\<open>Feetech_Protocol\<close>: checksum, builder, scanner, sign-magnitude registers, the control table.
    \<^verbatim>\<open>Feetech_Bus\<close>: \<open>fts_bus\<close>, the tty as scripts of answers with logs, every transaction.
    \<^verbatim>\<open>Feetech_Bus_Lemmas\<close>, \<^verbatim>\<open>Feetech_Bus_Stream\<close>: what operations keep, put on the wire, receive and wait.
    \<^verbatim>\<open>Feetech_Props\<close>: parsing inverts building, corrupted frames are rejected, a SYNC_READ returns exactly what the
    servos sent (soundness and delivery), its waits and its buffer are bounded.
  \<^item> \<^verbatim>\<open>Float32\<close>: rounding to binary32 and binary64. \<^verbatim>\<open>Calib\<close>: calibration files and the two mappings, with their
    range, accuracy and round trip. \<^verbatim>\<open>Libc\<close>: number conversions, clocks, values printed. \<^verbatim>\<open>Ctx\<close>: the configuration.
  \<^item> \<^verbatim>\<open>Shm\<close>: structures, their C layout, publish and read without interference. \<^verbatim>\<open>Seqlock\<close>: the same word by word
    under interleaving, as an inductive step relation; a successful read is a published sample, never a mixture.
    \<^verbatim>\<open>Layout\<close>: the memory as bytes, read at the places of the C declarations and by the formats of the Python client; both
    get the same values for every field.
  \<^item> \<^verbatim>\<open>Supervisor\<close>: \<open>raise_fault\<close>, \<open>serve_command\<close>, the checks, the pass \<open>sup_iter\<close>. \<^verbatim>\<open>Supervisor_Props\<close>: the mode never
    contradicts the faults; stalls and heat are detected in bounded time. \<^verbatim>\<open>Supervisor_Spec\<close>: an abstract machine of
    four modes and a set of faults, and the refinement of the loop to it, request by request (locale \<open>pass_refinement\<close>).
  \<^item> \<^verbatim>\<open>Grid\<close>: the loop that skips lost slots, and its closed form. \<^verbatim>\<open>Control\<close>: the phases of a pass. \<^verbatim>\<open>Control_Lemmas\<close>: what
    each phase keeps; the locale \<open>command_port\<close> is the interface to the bus. \<^verbatim>\<open>Control_Props\<close>: torque only comes on at
    the present position, goals are rate limited and in range, the soft start in HOLD takes the course its steps give, the grid is kept,
    shutdown is limp.
  \<^item> \<^verbatim>\<open>Ports\<close>, \<^verbatim>\<open>Ports_Props\<close>: descriptors are owned, never leaked; a bus that is silent is reopened once in 50 passes
    (locale \<open>retry_port\<close>, interpreted for both buses).
  \<^item> \<^verbatim>\<open>Daemon\<close>: options, thread attributes, start-up, watchdog, shutdown. \<^verbatim>\<open>System\<close>: passes of both threads and writes of
    clients interleaved over one memory. \<^verbatim>\<open>Daemon_Props\<close>: safe start, exact watchdog. \<^verbatim>\<open>Life\<close>: \<open>so101d\<close> from the command
    line to the end, the ends of a start that fails half-way included; a thread that hangs silences the watchdog. \<^verbatim>\<open>Messages\<close>: the datagrams to systemd and the status lines.
  \<^item> \<^verbatim>\<open>Races\<close>, \<^verbatim>\<open>Races_Props\<close>: the system at the grain of single accesses to mode and faults, the control thread's own
    access to the fault word included; what holds of the emergency stop and of torque when a mode changes during a pass. A
    lemma (\<open>run_refined\<close>) checks that every run of passes is such a run.
  \<^item> \<^verbatim>\<open>Mailbox\<close>: the command protocol, access by access, for any number of clients; each command is served exactly once,
    as long as nobody times out; what goes wrong after a time-out is a theorem too. \<^verbatim>\<open>Clients\<close>: \<open>so101ctl\<close> with the effect of
    its commands, compared with the table of \<^verbatim>\<open>docs/INTERFACE.md\<close>, and \<open>so101_log\<close>.
  \<^item> \<^verbatim>\<open>Fts_Tool\<close>, \<^verbatim>\<open>Jitter\<close>: the two tools. This theory: the safety of the composed system.

  \<^bold>\<open>State and operations.\<close> Structures are records (\<open>fts_bus\<close>, \<open>so101_sample\<close>, \<open>so101_shm\<close>, \<open>so101d_ctx\<close>); the local variables
  of a thread's loop are a record of their own (\<open>ctl\<close>, \<open>sup\<close>, \<open>dog\<close>, \<open>logst\<close>), and a pass of the loop is a function on it.
  What the kernel, the clocks and the servos answer is input: scripts in the record \<open>tty\<close>, the records \<open>sup_in\<close>,
  \<open>ctl_in\<close>, \<open>boot\<close>. Unsigned integers that wrap are words; a finite float or double is its rational value, rounded
  after every operation.

  \<^bold>\<open>Concurrency\<close> is modelled at three grains. \<open>System\<close>: a pass is one event. \<open>Races\<close>: one event is one access to the requested
  mode or the fault word. \<open>Seqlock\<close> and \<open>Mailbox\<close>: one event is one access to a word of the sample or of the mailbox.
  The heartbeat and the answer words are not split in \<open>Races\<close>. All accesses are sequentially consistent; the weaker orders the
  code asks for in places are not modelled.

  \<^bold>\<open>Termination.\<close> The loops of the driver use up a script entry or a byte in each round, which is their measure; no fuel
  is needed. The loop over lost slots may not end when the period is 0: it is a partial function, and a pass of the control
  thread is an option; with a rate of at most 1 GHz the period is positive and every pass returns. Threads run for a list
  of events of any length.

  \<^bold>\<open>Not modelled\<close>, and why. Of the Python client all but its layout and its decoding; the ROS 2 bridge, the simulator, the scripts, the service units and the tests: not C
  code of the program, or glue over systems that are not in the repository. Memory locking, the signal mask and the names of
  threads: they change no state the program reads. Headings, alignment and the rounding of \<open>printf\<close>, messages to the terminal,
  and error texts of the C library. Scheduling: any interleaving is allowed, so nothing is proved about the time
  between events; real-time priorities appear as the attributes asked for. Signed 64-bit times are unbounded integers, which
  the real ones reach after 292 years. Infinities and NaN of floats: the inputs that give them are outside the domain of the
  conversions or have no value there.

  Flaws and deviations from the comments found on the way are theorems where they are behaviour (\<open>zero_period_hangs\<close>: every rate above 1 GHz;
  \<open>late_estop_lost\<close>, \<open>forced_release_two_holders\<close>, \<open>supervisor_equal_at_lowest\<close>).
\<close>

text \<open>C1. Whatever clients write into the mailbox and however the passes of the supervisor and of the control
  thread interleave: after any pass of the control thread in a system that started safe, torque is on only
  if TELEOP or HOLD is the requested mode, and then no fault is latched that forbids torque; under TELEOP
  the leader's bus is not in fault either.\<close>

theorem powered_only_when_allowed:
  assumes "sys_safe s0" and "sys_run c es s0 = Some s" and "sys_step c (Control i) s = Some s'" and "torque (sys_ctl s')"
  shows "shm_mode_req (shm (sys_world s')) \<in> {SO101_MODE_TELEOP, SO101_MODE_HOLD} \<and>
    shm_faults (shm (sys_world s')) AND F_BLOCK_ALL = 0 \<and>
    (shm_mode_req (shm (sys_world s')) = SO101_MODE_TELEOP \<longrightarrow> shm_faults (shm (sys_world s')) AND F_BLOCK_TELEOP = 0)"
  using control_step_powered [OF assms(3) sys_run_safe [OF assms(2,1)] assms(4)] .

definition ex_sys :: "u32 \<Rightarrow> sys" where
  "ex_sys m = \<lparr>sys_ctl = ex_ctl\<lparr>torque := True, applied := SO101_MODE_HOLD\<rparr>, sys_world = ex_world m, sys_sup = sup_init 0 0 0\<rparr>"

definition ex_ping :: so101_cmd where
  "ex_ping = \<lparr>cmd_id = 7, cmd_cmd = SO101_CMD_PING, cmd_arg = 0, cmd_client_pid = 900\<rparr>"

definition ex_estop :: so101_cmd where
  "ex_estop = \<lparr>cmd_id = 8, cmd_cmd = SO101_CMD_ESTOP, cmd_arg = 0, cmd_client_pid = 900\<rparr>"

theorem powered_only_when_allowed_witness:
  "\<exists>s s'. sys_run ex_ctx [Client ex_ping, Supervise True True 5 0] (ex_sys SO101_MODE_HOLD) = Some s \<and>
     sys_step ex_ctx (Control ex_time) s = Some s' \<and> torque (sys_ctl s') \<and>
     shm_mode_req (shm (sys_world s')) \<in> {SO101_MODE_TELEOP, SO101_MODE_HOLD} \<and>
     shm_faults (shm (sys_world s')) AND F_BLOCK_ALL = 0"
proof -
  let ?es = "[Client ex_ping, Supervise True True 5 0]"
  let ?r = "Option.bind (sys_run ex_ctx ?es (ex_sys SO101_MODE_HOLD)) (\<lambda>s. map_option (Pair s) (sys_step ex_ctx (Control ex_time) s))"
  have "case ?r of None \<Rightarrow> False | Some p \<Rightarrow> torque (sys_ctl (snd p))" by code_simp
  then obtain s s' where r: "sys_run ex_ctx ?es (ex_sys SO101_MODE_HOLD) = Some s" "sys_step ex_ctx (Control ex_time) s = Some s'"
    "torque (sys_ctl s')" by (auto simp del: opt_run.simps sys_step.simps split: option.splits simp: bind_eq_Some_conv)
  have "sys_safe (ex_sys SO101_MODE_HOLD)"
    by (simp add: sys_safe_def ex_sys_def ex_world_def ex_mem_def sup_safe_def torque_ok_def)
  then show ?thesis using powered_only_when_allowed [OF _ r] r by blast
qed

text \<open>C2. The emergency stop holds: from a moment at which ESTOP is the requested mode, whatever clients write and
  however the threads interleave, as long as the supervisor does not serve a RESET the requested mode stays ESTOP,
  and from the first pass of the control thread on the torque is off.\<close>

theorem estop_holds:
  assumes "sys_safe s" and "shm_mode_req (shm (sys_world s)) = SO101_MODE_ESTOP" and "sys_run c es s = Some s'"
    and "no_reset_run c es s" and "Control i \<in> set es"
  shows "shm_mode_req (shm (sys_world s')) = SO101_MODE_ESTOP \<and> \<not> torque (sys_ctl s')"
  using estop_run [OF assms(3) _ assms(4,5)] assms(1,2) by (simp add: estopped_def estopped_off_def)

theorem estop_holds_witness:
  "\<exists>s s'. sys_run ex_ctx [Client ex_estop, Supervise True True 5 0] (ex_sys SO101_MODE_HOLD) = Some s \<and>
     sys_run ex_ctx [Control ex_time, Client ex_ping, Supervise True True 25 0] s = Some s' \<and>
     shm_mode_req (shm (sys_world s')) = SO101_MODE_ESTOP \<and> \<not> torque (sys_ctl s')"
proof -
  let ?e1 = "[Client ex_estop, Supervise True True 5 0]" and ?e2 = "[Control ex_time, Client ex_ping, Supervise True True 25 0]"
  let ?r = "Option.bind (sys_run ex_ctx ?e1 (ex_sys SO101_MODE_HOLD)) (\<lambda>s. map_option (Pair s) (sys_run ex_ctx ?e2 s))"
  have "case ?r of None \<Rightarrow> False
    | Some p \<Rightarrow> shm_mode_req (shm (sys_world (fst p))) = SO101_MODE_ESTOP \<and> no_reset_run ex_ctx ?e2 (fst p)" by code_simp
  then obtain s s' where r: "sys_run ex_ctx ?e1 (ex_sys SO101_MODE_HOLD) = Some s" "sys_run ex_ctx ?e2 s = Some s'"
    "shm_mode_req (shm (sys_world s)) = SO101_MODE_ESTOP" "no_reset_run ex_ctx ?e2 s"
    by (auto simp del: opt_run.simps ok_run.simps sys_step.simps split: option.splits simp: bind_eq_Some_conv)
  have "sys_safe (ex_sys SO101_MODE_HOLD)"
    by (simp add: sys_safe_def ex_sys_def ex_world_def ex_mem_def sup_safe_def torque_ok_def)
  then have "sys_safe s" using sys_run_safe [OF r(1)] by blast
  from estop_holds [OF this r(3,2,4), of ex_time] show ?thesis using r by simp
qed

end
